(* ===== verification/Prelude.thy ===== *)
theory Prelude
  imports Main "HOL-Library.Word" "HOL-Library.AList"
begin

text \<open>
  Shared vocabulary of the development.

  \<^item> machine integers at the widths the Rust code uses, byte strings, time;
  \<^item> \<open>result\<close>: Rust's \<open>Result\<close> as a sum, with \<open>rbind\<close> for the \<open>?\<close> operator;
  \<^item> \<open>hmap\<close>: \<open>std::collections::HashMap\<close> as an association list with distinct keys. Its
    contract is the locale \<open>key_value\<close>, interpreted at the end of the theory.

  Time. An \<open>Instant\<close> or a \<open>Duration\<close> is a natural number of nanoseconds; the current time
  is always an argument. \<open>Instant::duration_since\<close> and \<open>elapsed\<close> saturate at zero, as
  subtraction on \<open>nat\<close> does.
\<close>

named_theorems step_simps "unfolding of the operations of a component"

type_synonym u8 = "8 word"
type_synonym u16 = "16 word"
type_synonym u32 = "32 word"
type_synonym u64 = "64 word"
type_synonym bytes = "u8 list"
type_synonym instant = nat
type_synonym duration = nat

definition from_secs :: "nat \<Rightarrow> duration" where
  "from_secs s = s * 1000000000"

definition from_millis :: "nat \<Rightarrow> duration" where
  "from_millis s = s * 1000000"

lemma from_secs_mono [simp]: "from_secs a \<le> from_secs b \<longleftrightarrow> a \<le> b"
  by (simp add: from_secs_def)

lemma from_secs_less [simp]: "from_secs a < from_secs b \<longleftrightarrow> a < b"
  by (simp add: from_secs_def)

lemma from_secs_millis: "from_secs s = from_millis (1000 * s)"
  by (simp add: from_secs_def from_millis_def)

section \<open>Results\<close>

type_synonym ('e, 'a) result = "'e + 'a"

primrec rbind :: "('e, 'a) result \<Rightarrow> ('a \<Rightarrow> ('e, 'b) result) \<Rightarrow> ('e, 'b) result" where
  "rbind (Inl e) f = Inl e"
| "rbind (Inr a) f = f a"

definition ensure :: "bool \<Rightarrow> 'e \<Rightarrow> ('e, unit) result" where
  "ensure b e = (if b then Inr () else Inl e)"

definition ok_or :: "'a option \<Rightarrow> 'e \<Rightarrow> ('e, 'a) result" where
  "ok_or x e = (case x of None \<Rightarrow> Inl e | Some a \<Rightarrow> Inr a)"

lemma rbind_Inr_iff: "rbind r f = Inr b \<longleftrightarrow> (\<exists>a. r = Inr a \<and> f a = Inr b)"
  by (cases r) auto

lemma ensure_Inr_iff [simp]: "ensure b e = Inr u \<longleftrightarrow> b"
  by (cases u) (simp add: ensure_def)

lemma ensure_Inl_iff [simp]: "ensure b e = Inl e' \<longleftrightarrow> \<not> b \<and> e' = e"
  by (auto simp: ensure_def)

lemma ok_or_Inr_iff [simp]: "ok_or x e = Inr a \<longleftrightarrow> x = Some a"
  by (auto simp: ok_or_def split: option.splits)

lemma ok_or_Inl_iff [simp]: "ok_or x e = Inl e' \<longleftrightarrow> x = None \<and> e' = e"
  by (auto simp: ok_or_def split: option.splits)

lemma ok_or_simps [simp]: "ok_or None e = Inl e" "ok_or (Some a) e = Inr a"
  by (simp_all add: ok_or_def)

lemma ensure_simps [simp]: "ensure True e = Inr ()" "ensure False e = Inl e"
  by (simp_all add: ensure_def)

text \<open>Collecting an iterator of results: the first error ends it.\<close>

fun collect :: "('e, 'a) result list \<Rightarrow> ('e, 'a list) result" where
  "collect [] = Inr []"
| "collect (r # rs) = rbind r (\<lambda>x. rbind (collect rs) (\<lambda>xs. Inr (x # xs)))"

lemma collect_Inr_iff: "collect rs = Inr xs \<longleftrightarrow> rs = map Inr xs"
  by (induction rs arbitrary: xs) (auto simp: rbind_Inr_iff Cons_eq_map_conv)

text \<open>\<open>unwrap_or\<close> on options.\<close>

definition unwrap_or :: "'a option \<Rightarrow> 'a \<Rightarrow> 'a" where
  "unwrap_or x d = (case x of None \<Rightarrow> d | Some a \<Rightarrow> a)"

lemma unwrap_or_simps [simp]: "unwrap_or None d = d" "unwrap_or (Some a) d = a"
  by (simp_all add: unwrap_or_def)

section \<open>The contract of a keyed table\<close>

text \<open>
  What every table of the program relies on: lookup after insertion and removal, and the
  key list that iteration and \<open>len\<close> range over.
\<close>

locale key_value =
  fixes get :: "'m \<Rightarrow> 'k \<Rightarrow> 'v option"
    and ins :: "'k \<Rightarrow> 'v \<Rightarrow> 'm \<Rightarrow> 'm"
    and del :: "'k \<Rightarrow> 'm \<Rightarrow> 'm"
    and ks :: "'m \<Rightarrow> 'k list"
    and wf :: "'m \<Rightarrow> bool"
  assumes get_ins: "get (ins k v m) k' = (if k' = k then Some v else get m k')"
    and get_del: "get (del k m) k' = (if k' = k then None else get m k')"
    and wf_ins: "wf m \<Longrightarrow> wf (ins k v m)"
    and wf_del: "wf m \<Longrightarrow> wf (del k m)"
    and ks_iff: "k \<in> set (ks m) \<longleftrightarrow> get m k \<noteq> None"
    and ks_distinct: "wf m \<Longrightarrow> distinct (ks m)"
begin

lemma get_fold_del: "get (fold del xs m) k = (if k \<in> set xs then None else get m k)"
  by (induction xs arbitrary: m) (auto simp: get_del)

lemma wf_fold_del: "wf m \<Longrightarrow> wf (fold del xs m)"
  by (induction xs arbitrary: m) (auto simp: wf_del)

lemma get_fold_ins:
  "get (fold (\<lambda>x. ins (f x) (g x)) xs m) k =
     (case find (\<lambda>x. f x = k) (rev xs) of None \<Rightarrow> get m k | Some x \<Rightarrow> Some (g x))"
proof (induction xs rule: rev_induct)
  case Nil
  then show ?case by simp
next
  case (snoc x xs)
  then show ?case by (auto simp: get_ins)
qed

lemma set_ks_ins: "set (ks (ins k v m)) = insert k (set (ks m))"
  by (auto simp: ks_iff get_ins split: if_splits)

lemma set_ks_del: "set (ks (del k m)) = set (ks m) - {k}"
  by (auto simp: ks_iff get_del split: if_splits)

lemma card_ks: "wf m \<Longrightarrow> card (set (ks m)) = length (ks m)"
  by (simp add: ks_distinct distinct_card)

lemma length_ins:
  assumes "wf m"
  shows "length (ks (ins k v m)) = (if get m k = None then Suc (length (ks m)) else length (ks m))"
proof -
  have "length (ks (ins k v m)) = card (insert k (set (ks m)))"
    using assms by (metis card_ks set_ks_ins wf_ins)
  then show ?thesis
    using assms by (simp add: card_ks ks_iff card_insert_if)
qed

lemma length_del:
  assumes "wf m"
  shows "length (ks (del k m)) = (if get m k = None then length (ks m) else length (ks m) - 1)"
proof -
  have "length (ks (del k m)) = card (set (ks m) - {k})"
    using assms by (metis card_ks set_ks_del wf_del)
  then show ?thesis
    using assms by (simp add: card_ks ks_iff card_Diff_singleton_if)
qed

lemma length_ins_le: "wf m \<Longrightarrow> length (ks (ins k v m)) \<le> Suc (length (ks m))"
  by (simp add: length_ins)

lemma length_del_le: "wf m \<Longrightarrow> length (ks (del k m)) \<le> length (ks m)"
  by (simp add: length_del)

end

section \<open>HashMap\<close>

type_synonym ('k, 'v) hmap = "('k \<times> 'v) list"

definition hm_get :: "('k, 'v) hmap \<Rightarrow> 'k \<Rightarrow> 'v option" where
  "hm_get m k = map_of m k"

definition hm_insert :: "'k \<Rightarrow> 'v \<Rightarrow> ('k, 'v) hmap \<Rightarrow> ('k, 'v) hmap" where
  "hm_insert k v m = AList.update k v m"

definition hm_remove :: "'k \<Rightarrow> ('k, 'v) hmap \<Rightarrow> ('k, 'v) hmap" where
  "hm_remove k m = AList.delete k m"

definition hm_keys :: "('k, 'v) hmap \<Rightarrow> 'k list" where
  "hm_keys m = map fst m"

definition hm_values :: "('k, 'v) hmap \<Rightarrow> 'v list" where
  "hm_values m = map snd m"

definition hm_len :: "('k, 'v) hmap \<Rightarrow> nat" where
  "hm_len m = length m"

definition hm_has :: "('k, 'v) hmap \<Rightarrow> 'k \<Rightarrow> bool" where
  "hm_has m k = (hm_get m k \<noteq> None)"

definition hm_retain :: "('k \<Rightarrow> 'v \<Rightarrow> bool) \<Rightarrow> ('k, 'v) hmap \<Rightarrow> ('k, 'v) hmap" where
  "hm_retain P m = filter (\<lambda>(k, v). P k v) m"

definition hm_wf :: "('k, 'v) hmap \<Rightarrow> bool" where
  "hm_wf m = distinct (map fst m)"

definition hm_update :: "'k \<Rightarrow> ('v \<Rightarrow> 'v) \<Rightarrow> ('k, 'v) hmap \<Rightarrow> ('k, 'v) hmap" where
  \<comment> \<open>\<open>get_mut\<close> followed by an in-place change\<close>
  "hm_update k f m = (case hm_get m k of None \<Rightarrow> m | Some v \<Rightarrow> hm_insert k (f v) m)"

interpretation hm: key_value hm_get hm_insert hm_remove hm_keys hm_wf
proof unfold_locales
  fix m :: "('k, 'v) hmap" and k k' :: 'k and v :: 'v
  show "hm_get (hm_insert k v m) k' = (if k' = k then Some v else hm_get m k')"
    by (simp add: hm_get_def hm_insert_def update_conv)
  show "hm_get (hm_remove k m) k' = (if k' = k then None else hm_get m k')"
    by (simp add: hm_get_def hm_remove_def delete_conv)
  show "hm_wf m \<Longrightarrow> hm_wf (hm_insert k v m)"
    by (simp add: hm_wf_def hm_insert_def distinct_update)
  show "hm_wf m \<Longrightarrow> hm_wf (hm_remove k m)"
    by (simp add: hm_wf_def hm_remove_def distinct_delete)
  show "k \<in> set (hm_keys m) \<longleftrightarrow> hm_get m k \<noteq> None"
    by (auto simp: hm_keys_def hm_get_def map_of_eq_None_iff)
  show "hm_wf m \<Longrightarrow> distinct (hm_keys m)"
    by (simp add: hm_wf_def hm_keys_def)
qed

lemmas hm_get_simps [simp] = hm.get_ins hm.get_del hm.get_fold_del
lemmas hm_wf_intros [simp, intro] = hm.wf_ins hm.wf_del hm.wf_fold_del

lemma hm_len_keys: "hm_len m = length (hm_keys m)"
  by (simp add: hm_len_def hm_keys_def)

lemma hm_empty [simp]:
  "hm_get [] k = None" "hm_keys [] = []" "hm_values [] = []" "hm_len [] = 0" "hm_wf []"
  "hm_retain P [] = []" "hm_has [] k = False"
  by (simp_all add: hm_get_def hm_keys_def hm_values_def hm_len_def hm_wf_def hm_retain_def
      hm_has_def)

lemma hm_len_insert:
  "hm_wf m \<Longrightarrow> hm_len (hm_insert k v m) = (if hm_has m k then hm_len m else Suc (hm_len m))"
  by (simp add: hm_len_keys hm.length_ins hm_has_def)

lemma hm_len_remove:
  "hm_wf m \<Longrightarrow> hm_len (hm_remove k m) = (if hm_has m k then hm_len m - 1 else hm_len m)"
  by (simp add: hm_len_keys hm.length_del hm_has_def)

lemma hm_get_retain:
  assumes "hm_wf m"
  shows "hm_get (hm_retain P m) k =
    (case hm_get m k of None \<Rightarrow> None | Some v \<Rightarrow> if P k v then Some v else None)"
  using assms
proof (induction m)
  case Nil
  then show ?case by simp
next
  case (Cons kv m)
  obtain a b where kv: "kv = (a, b)" by fastforce
  from Cons.prems kv have a: "a \<notin> fst ` set m" and m: "hm_wf m"
    by (auto simp: hm_wf_def)
  from a have "map_of (filter (\<lambda>(k, v). P k v) m) a = None"
    by (auto simp: map_of_eq_None_iff)
  with Cons.IH [OF m] kv a show ?case
    by (auto simp: hm_get_def hm_retain_def split: option.splits)
qed

lemma hm_wf_retain [simp, intro]: "hm_wf m \<Longrightarrow> hm_wf (hm_retain P m)"
  by (simp add: hm_wf_def hm_retain_def distinct_map_filter)

lemma hm_len_retain_le: "hm_len (hm_retain P m) \<le> hm_len m"
  by (simp add: hm_len_def hm_retain_def)

lemma hm_has_insert [simp]: "hm_has (hm_insert k v m) k' \<longleftrightarrow> k' = k \<or> hm_has m k'"
  by (simp add: hm_has_def)

lemma hm_has_remove [simp]: "hm_has (hm_remove k m) k' \<longleftrightarrow> k' \<noteq> k \<and> hm_has m k'"
  by (simp add: hm_has_def)

lemma hm_in_values: "hm_get m k = Some v \<Longrightarrow> v \<in> set (hm_values m)"
  by (force simp: hm_get_def hm_values_def dest: map_of_SomeD)

lemma hm_values_get: "hm_wf m \<Longrightarrow> v \<in> set (hm_values m) \<longleftrightarrow> (\<exists>k. hm_get m k = Some v)"
  by (force simp: hm_get_def hm_values_def hm_wf_def dest: map_of_SomeD)

lemma hm_in_set: "hm_wf m \<Longrightarrow> (k, v) \<in> set m \<longleftrightarrow> hm_get m k = Some v"
  by (simp add: hm_get_def hm_wf_def)

lemma hm_get_update:
  "hm_get (hm_update k f m) k' = (if k' = k then map_option f (hm_get m k) else hm_get m k')"
  by (auto simp: hm_update_def split: option.splits)

lemma hm_wf_update [simp, intro]: "hm_wf m \<Longrightarrow> hm_wf (hm_update k f m)"
  by (auto simp: hm_update_def split: option.splits)

lemma hm_keys_update: "hm_wf m \<Longrightarrow> set (hm_keys (hm_update k f m)) = set (hm_keys m)"
  by (auto simp: hm.ks_iff hm_get_update split: if_splits)

lemma hm_has_update [simp]: "hm_has (hm_update k f m) k' = hm_has m k'"
  by (auto simp: hm_has_def hm_get_update)

lemma hm_len_update: "hm_wf m \<Longrightarrow> hm_len (hm_update k f m) = hm_len m"
  by (auto simp: hm_update_def hm_len_insert hm_has_def split: option.splits)

lemma hm_remove_absent: "hm_get m k = None \<Longrightarrow> hm_remove k m = m"
  unfolding hm_get_def hm_remove_def by (induction m) (auto split: if_splits)

lemma hm_get_fold_const:
  "hm_get (fold (\<lambda>k. hm_insert k v) ks m) k = (if k \<in> set ks then Some v else hm_get m k)"
  by (induction ks arbitrary: m) auto

lemma hm_wf_fold_const: "hm_wf m \<Longrightarrow> hm_wf (fold (\<lambda>k. hm_insert k v) ks m)"
  by (induction ks arbitrary: m) auto

lemma hm_values_insert: "set (hm_values (hm_insert k v m)) \<subseteq> insert v (set (hm_values m))"
  unfolding hm_values_def hm_insert_def by (induction m) auto

lemma hm_values_remove: "set (hm_values (hm_remove k m)) \<subseteq> set (hm_values m)"
  unfolding hm_values_def hm_remove_def by (induction m) auto

lemma hm_all_insert: "list_all P (hm_values m) \<Longrightarrow> P v \<Longrightarrow> list_all P (hm_values (hm_insert k v m))"
  using hm_values_insert [of k v m] by (auto simp: list_all_iff)

lemma hm_all_remove: "list_all P (hm_values m) \<Longrightarrow> list_all P (hm_values (hm_remove k m))"
  using hm_values_remove [of k m] by (auto simp: list_all_iff)

lemma hm_all_get: "list_all P (hm_values m) \<Longrightarrow> hm_get m k = Some v \<Longrightarrow> P v"
  by (auto simp: list_all_iff dest: hm_in_values)

text \<open>Sums over the entries of a table.\<close>

definition hm_sum :: "('v \<Rightarrow> 'n::comm_monoid_add) \<Rightarrow> ('k, 'v) hmap \<Rightarrow> 'n" where
  "hm_sum f m = (\<Sum>k \<in> set (hm_keys m). f (the (hm_get m k)))"

lemma hm_sum_Nil [simp]: "hm_sum f [] = 0"
  by (simp add: hm_sum_def)

lemma hm_sum_remove: "hm_sum f (hm_remove k m) = (\<Sum>i \<in> set (hm_keys m) - {k}. f (the (hm_get m i)))"
  unfolding hm_sum_def hm.set_ks_del by (rule sum.cong) auto

lemma hm_sum_insert: "hm_sum f (hm_insert k v m) = f v + hm_sum f (hm_remove k m)"
proof -
  have "hm_sum f (hm_insert k v m) =
      (\<Sum>i \<in> insert k (set (hm_keys m) - {k}). f (the (hm_get (hm_insert k v m) i)))"
    by (simp add: hm_sum_def hm.set_ks_ins)
  also have "\<dots> = f v + (\<Sum>i \<in> set (hm_keys m) - {k}. f (the (hm_get (hm_insert k v m) i)))"
    by (subst sum.insert) auto
  also have "\<dots> = f v + hm_sum f (hm_remove k m)"
    unfolding hm_sum_remove by (intro arg_cong2 [of _ _ _ _ "(+)"] refl sum.cong) auto
  finally show ?thesis .
qed

lemma hm_sum_split: "hm_get m k = Some v \<Longrightarrow> hm_sum f m = f v + hm_sum f (hm_remove k m)"
proof -
  assume g: "hm_get m k = Some v"
  then have "k \<in> set (hm_keys m)" by (simp add: hm.ks_iff)
  then have "hm_sum f m = f (the (hm_get m k)) + (\<Sum>i \<in> set (hm_keys m) - {k}. f (the (hm_get m i)))"
    unfolding hm_sum_def by (intro sum.remove) simp_all
  with g show ?thesis by (simp add: hm_sum_remove)
qed

lemma hm_sum_absent: "hm_get m k = None \<Longrightarrow> hm_sum f (hm_remove k m) = hm_sum f m"
proof -
  assume "hm_get m k = None"
  then have "k \<notin> set (hm_keys m)" by (simp add: hm.ks_iff)
  then show ?thesis by (simp add: hm_sum_remove hm_sum_def [symmetric])
qed

section \<open>Invariants of step systems\<close>

text \<open>
  The contract every state machine of the development is proved against: an invariant kept
  by each step holds in every state a run reaches.
\<close>

locale step_invariant =
  fixes step :: "'s \<Rightarrow> 's \<Rightarrow> bool"
    and inv :: "'s \<Rightarrow> bool"
  assumes step_keeps: "inv s \<Longrightarrow> step s t \<Longrightarrow> inv t"
begin

lemma run_keeps: "step\<^sup>*\<^sup>* s t \<Longrightarrow> inv s \<Longrightarrow> inv t"
  by (induction rule: rtranclp_induct) (auto intro: step_keeps)

end

section \<open>Words\<close>

lemma unat_u8_less: "unat (w :: u8) < 256"
proof -
  have "unat w < 2 ^ LENGTH(8)" by (rule unsigned_less)
  then show ?thesis by simp
qed

lemma unat_u16_le: "unat (w :: u16) \<le> 65535"
proof -
  have "unat w < 2 ^ LENGTH(16)" by (rule unsigned_less)
  then show ?thesis by simp
qed

lemma unat_u32_less: "unat (w :: u32) < 4294967296"
proof -
  have "unat w < 2 ^ LENGTH(32)" by (rule unsigned_less)
  then show ?thesis by simp
qed

lemma unat_u64_le: "unat (w :: u64) \<le> 2 ^ 64 - 1"
proof -
  have "unat w < 2 ^ LENGTH(64)" by (rule unsigned_less)
  then show ?thesis by simp
qed

definition byte_char :: "u8 \<Rightarrow> char" where
  "byte_char w = char_of (unat w)"

lemma unat_of_char_u8: "unat (of_char c :: u8) = of_char c"
proof -
  have "(of_char c :: u8) = of_nat (of_char c)" by (simp add: of_nat_of_char)
  then show ?thesis by (simp add: unat_of_nat)
qed

lemma byte_char_of_char [simp]: "byte_char (of_char c) = c"
  by (simp add: byte_char_def unat_of_char_u8)

lemma of_char_byte_char [simp]: "of_char (byte_char w) = w"
proof -
  have "unat (of_char (byte_char w) :: u8) = unat w"
    unfolding unat_of_char_u8 by (simp add: byte_char_def unat_u8_less)
  then show ?thesis by (rule unsigned_word_eqI)
qed

lemma of_char_char_of_u8: "n < 256 \<Longrightarrow> (of_char (char_of (n :: nat)) :: u8) = of_nat n"
proof -
  assume "n < 256"
  then have "unat (of_char (char_of n) :: u8) = unat (of_nat n :: u8)"
    unfolding unat_of_char_u8 by (simp add: unat_of_nat)
  then show ?thesis by (rule unsigned_word_eqI)
qed

lemma of_char_u8_eq_iff [simp]: "(of_char c :: u8) = of_char d \<longleftrightarrow> c = d"
  by (metis unat_of_char_u8 of_char_eq_iff)

section \<open>Periodic tasks\<close>

text \<open>A task that ticks every \<open>period\<close> acts on what is due after \<open>d\<close> in its \<open>n\<close>-th tick.\<close>

lemma first_tick:
  fixes d period :: nat
  assumes "0 < period" "0 < d"
  obtains n where "\<And>m. d \<le> m * period \<longleftrightarrow> n \<le> m" "n * period < d + period"
proof
  define n where "n = (d + (period - 1)) div period"
  have l: "d + (period - 1) < Suc n * period"
    unfolding n_def using assms(1) by (metis dividend_less_div_times mult.commute mult_Suc add.commute)
  show n: "d \<le> m * period \<longleftrightarrow> n \<le> m" for m
  proof
    assume "d \<le> m * period"
    then have "d + (period - 1) < Suc m * period" using assms(1) by simp
    then show "n \<le> m" unfolding n_def by (simp add: less_mult_imp_div_less less_Suc_eq_le [symmetric])
  next
    assume "n \<le> m"
    have "d \<le> n * period" using l assms(1) by simp
    with \<open>n \<le> m\<close> show "d \<le> m * period" by (meson le_trans mult_le_mono1)
  qed
  from n [of 0] assms(2) have "0 < n" by simp
  then have "\<not> d \<le> (n - 1) * period" using n [of "n - 1"] by simp
  then show "n * period < d + period" using \<open>0 < n\<close> by (cases n) auto
qed

end
