(* ===== verification/Strings.thy ===== *)
theory Strings
  imports Prelude
begin

text \<open>
  The \<open>str\<close> operations of the Rust standard library that the program calls. A \<open>&str\<close> is
  its UTF-8 byte string (\<open>string\<close>, a list of 8-bit \<open>char\<close>s), so \<open>length\<close> is Rust's
  \<open>len()\<close>. White space is Unicode's \<open>White_Space\<close> as the standard library has it, listed by
  its UTF-8 encodings: UTF-8 is self-synchronising, so a valid string has a white-space code
  point exactly where the bytes of one of the encodings occur. \<open>to_lowercase\<close> needs the
  Unicode tables; the definitions that call it take it as an argument, with
  \<open>to_ascii_lowercase\<close> as its concrete instance on ASCII text.
\<close>

section \<open>White space\<close>

definition ws_encodings :: "string list" where
  "ws_encodings =
     map (\<lambda>n. [char_of (n :: nat)]) [9, 10, 11, 12, 13, 32]
     @ map (map (char_of :: nat \<Rightarrow> char))
         ([[194, 133], [194, 160], [225, 154, 128]]
          @ map (\<lambda>n. [226, 128, n]) ([128..<139] @ [168, 169, 175])
          @ [[226, 129, 159], [227, 128, 128]])"

definition has_prefix :: "string \<Rightarrow> string \<Rightarrow> bool" where
  "has_prefix p s = (take (length p) s = p)"

fun contains_str :: "string \<Rightarrow> string \<Rightarrow> bool" where
  \<comment> \<open>\<open>contains\<close> with a substring pattern\<close>
  "contains_str p [] = (p = [])"
| "contains_str p (c # cs) = (has_prefix p (c # cs) \<or> contains_str p cs)"

definition has_whitespace :: "string \<Rightarrow> bool" where
  \<comment> \<open>\<open>chars().any(char::is_whitespace)\<close>\<close>
  "has_whitespace s = list_ex (\<lambda>e. contains_str e s) ws_encodings"

lemma has_prefix_iff: "has_prefix p s \<longleftrightarrow> (\<exists>t. s = p @ t)"
  by (metis has_prefix_def append_eq_conv_conj append_take_drop_id)

lemma contains_str_iff: "contains_str p s \<longleftrightarrow> (\<exists>a b. s = a @ p @ b)"
proof (induction s)
  case Nil
  then show ?case by simp
next
  case (Cons c cs)
  then show ?case
    by (auto simp: has_prefix_iff Cons_eq_append_conv)
qed

lemma contains_singleton: "contains_str [c] s \<longleftrightarrow> c \<in> set s"
  by (induction s) (auto simp: has_prefix_def)

function trim_with :: "string list \<Rightarrow> string \<Rightarrow> string" where
  "trim_with es s =
     (case find (\<lambda>e. e \<noteq> [] \<and> has_prefix e s) es of
        None \<Rightarrow> s
      | Some e \<Rightarrow> trim_with es (drop (length e) s))"
  by pat_completeness auto
termination
  by (relation "measure (\<lambda>(es, s). length s)") (auto simp: find_Some_iff has_prefix_iff)

declare trim_with.simps [simp del]

definition trim_start :: "string \<Rightarrow> string" where
  "trim_start s = trim_with ws_encodings s"

definition trim_end :: "string \<Rightarrow> string" where
  "trim_end s = rev (trim_with (map rev ws_encodings) (rev s))"

definition trim :: "string \<Rightarrow> string" where
  "trim s = trim_end (trim_start s)"

lemma trim_with_length: "length (trim_with es s) \<le> length s"
proof (induction es s rule: trim_with.induct)
  case (1 es s)
  show ?case
  proof (cases "find (\<lambda>e. e \<noteq> [] \<and> has_prefix e s) es")
    case None
    then show ?thesis by (simp add: trim_with.simps [of es s])
  next
    case (Some e)
    with 1 [OF Some] show ?thesis by (simp add: trim_with.simps [of es s])
  qed
qed

lemma trim_with_id: "list_all (\<lambda>e. e = [] \<or> \<not> has_prefix e s) es \<Longrightarrow> trim_with es s = s"
  by (subst trim_with.simps)
    (auto simp: list_all_iff split: option.splits dest!: find_Some_iff [THEN iffD1])

section \<open>UTF-8\<close>

definition cont_byte :: "char \<Rightarrow> bool" where
  "cont_byte c = (let n = of_char c :: nat in 128 \<le> n \<and> n < 192)"

definition byte_in :: "nat \<Rightarrow> nat \<Rightarrow> char \<Rightarrow> bool" where
  "byte_in a b c = (let n = of_char c :: nat in a \<le> n \<and> n \<le> b)"

fun utf8_valid :: "string \<Rightarrow> bool" where
  \<comment> \<open>\<open>str::from_utf8\<close> accepts: no overlong forms, no surrogates, nothing above U+10FFFF\<close>
  "utf8_valid [] = True"
| "utf8_valid (a # s) =
     (if byte_in 0 127 a then utf8_valid s
      else case s of
        b # s1 \<Rightarrow>
          if byte_in 194 223 a then cont_byte b \<and> utf8_valid s1
          else (case s1 of
            c # s2 \<Rightarrow>
              if byte_in 224 239 a
              then cont_byte b \<and> cont_byte c \<and>
                (byte_in 224 224 a \<longrightarrow> byte_in 160 191 b) \<and>
                (byte_in 237 237 a \<longrightarrow> byte_in 128 159 b) \<and> utf8_valid s2
              else (case s2 of
                d # s3 \<Rightarrow>
                  byte_in 240 244 a \<and> cont_byte b \<and> cont_byte c \<and> cont_byte d \<and>
                  (byte_in 240 240 a \<longrightarrow> byte_in 144 191 b) \<and>
                  (byte_in 244 244 a \<longrightarrow> byte_in 128 143 b) \<and> utf8_valid s3
              | [] \<Rightarrow> False)
          | [] \<Rightarrow> False)
      | [] \<Rightarrow> False)"

lemma utf8_ascii: "list_all (\<lambda>c. (of_char c :: nat) < 128) s \<Longrightarrow> utf8_valid s"
  by (induction s) (auto simp: byte_in_def)

section \<open>Splitting\<close>

fun split_char :: "char \<Rightarrow> string \<Rightarrow> string list" where
  \<comment> \<open>\<open>split(c)\<close>: never empty\<close>
  "split_char c [] = [[]]"
| "split_char c (x # xs) =
     (if x = c then [] # split_char c xs
      else case split_char c xs of
             [] \<Rightarrow> [[x]]
           | p # ps \<Rightarrow> (x # p) # ps)"

lemma split_char_not_Nil [simp]: "split_char c s \<noteq> []"
  by (induction s) (auto split: list.splits)

lemma split_char_none: "c \<notin> set s \<Longrightarrow> split_char c s = [s]"
  by (induction s) auto

lemma split_char_append:
  "c \<notin> set s \<Longrightarrow> split_char c (s @ c # t) = s # split_char c t"
  by (induction s) auto

fun split_once :: "string \<Rightarrow> string \<Rightarrow> (string \<times> string) option" where
  \<comment> \<open>\<open>split_once(p)\<close>: at the first occurrence of a non-empty pattern\<close>
  "split_once p [] = (if p = [] then Some ([], []) else None)"
| "split_once p (c # cs) =
     (if has_prefix p (c # cs) then Some ([], drop (length p) (c # cs))
      else map_option (\<lambda>(a, b). (c # a, b)) (split_once p cs))"

definition rsplit_once :: "char \<Rightarrow> string \<Rightarrow> (string \<times> string) option" where
  "rsplit_once c s = map_option (\<lambda>(a, b). (rev b, rev a)) (split_once [c] (rev s))"

definition strip_prefix :: "string \<Rightarrow> string \<Rightarrow> string option" where
  "strip_prefix p s = (if has_prefix p s then Some (drop (length p) s) else None)"

lemma split_once_Some: "split_once p s = Some (a, b) \<Longrightarrow> s = a @ p @ b"
proof (induction s arbitrary: a)
  case Nil
  then show ?case by (auto split: if_splits)
next
  case (Cons c cs)
  then show ?case by (auto split: if_splits simp: has_prefix_iff)
qed

lemma split_once_char: "c \<notin> set a \<Longrightarrow> split_once [c] (a @ c # b) = Some (a, b)"
  by (induction a) (auto simp: has_prefix_def)

lemma split_once_char_None: "split_once [c] s = None \<longleftrightarrow> c \<notin> set s"
  by (induction s) (auto simp: has_prefix_def)

lemma rsplit_once_char: "c \<notin> set b \<Longrightarrow> rsplit_once c (a @ c # b) = Some (a, b)"
  by (simp add: rsplit_once_def split_once_char)

lemma rsplit_once_None: "rsplit_once c s = None \<longleftrightarrow> c \<notin> set s"
  by (simp add: rsplit_once_def split_once_char_None)

section \<open>Case\<close>

definition ascii_lower_char :: "char \<Rightarrow> char" where
  "ascii_lower_char c =
     (let n = of_char c :: nat in if 65 \<le> n \<and> n \<le> 90 then char_of (n + 32) else c)"

definition to_ascii_lowercase :: "string \<Rightarrow> string" where
  "to_ascii_lowercase s = map ascii_lower_char s"

definition eq_ignore_ascii_case :: "string \<Rightarrow> string \<Rightarrow> bool" where
  "eq_ignore_ascii_case a b = (to_ascii_lowercase a = to_ascii_lowercase b)"

lemma ascii_lower_char_idem [simp]: "ascii_lower_char (ascii_lower_char c) = ascii_lower_char c"
  by (auto simp: ascii_lower_char_def Let_def)

lemma to_ascii_lowercase_idem [simp]:
  "to_ascii_lowercase (to_ascii_lowercase s) = to_ascii_lowercase s"
  by (simp add: to_ascii_lowercase_def)

section \<open>Numbers\<close>

definition is_digit :: "char \<Rightarrow> bool" where
  "is_digit c = (let n = of_char c :: nat in 48 \<le> n \<and> n \<le> 57)"

definition digit_val :: "char \<Rightarrow> nat" where
  "digit_val c = of_char c - 48"

definition is_alphanumeric :: "char \<Rightarrow> bool" where
  \<comment> \<open>\<open>char::is_ascii_alphanumeric\<close>\<close>
  "is_alphanumeric c =
     (let n = of_char c :: nat in
      48 \<le> n \<and> n \<le> 57 \<or> 65 \<le> n \<and> n \<le> 90 \<or> 97 \<le> n \<and> n \<le> 122)"

fun parse_digits :: "nat \<Rightarrow> nat \<Rightarrow> string \<Rightarrow> nat option" where
  \<comment> \<open>the checked multiply-add loop of \<open>from_str_radix\<close> for an unsigned type with maximum \<open>m\<close>\<close>
  "parse_digits m acc [] = Some acc"
| "parse_digits m acc (c # cs) =
     (if \<not> is_digit c then None
      else let n = acc * 10 + digit_val c in
           if m < n then None else parse_digits m n cs)"

definition parse_uint :: "nat \<Rightarrow> string \<Rightarrow> nat option" where
  \<comment> \<open>\<open>str::parse\<close> for an unsigned type: one leading plus sign is accepted, a lone one is not\<close>
  "parse_uint m s =
     (case s of
        [] \<Rightarrow> None
      | c # cs \<Rightarrow> parse_digits m 0 (if c = CHR ''+'' \<and> cs \<noteq> [] then cs else s))"

definition parse_u16 :: "string \<Rightarrow> u16 option" where
  "parse_u16 s = map_option of_nat (parse_uint 65535 s)"

definition digit_char :: "nat \<Rightarrow> char" where
  "digit_char d = char_of (48 + d)"

fun show_nat :: "nat \<Rightarrow> string" where
  "show_nat n = (if n < 10 then [digit_char n] else show_nat (n div 10) @ [digit_char (n mod 10)])"

declare show_nat.simps [simp del]

lemma digit_char_simps [simp]:
  assumes "d < 10"
  shows "is_digit (digit_char d)" "digit_val (digit_char d) = d" "digit_char d \<noteq> CHR ''+''"
proof -
  have n: "(of_char (digit_char d) :: nat) = 48 + d"
    using assms by (simp add: digit_char_def)
  then show "is_digit (digit_char d)" "digit_val (digit_char d) = d"
    using assms by (simp_all add: is_digit_def digit_val_def)
  show "digit_char d \<noteq> CHR ''+''"
  proof
    assume "digit_char d = CHR ''+''"
    then have "(of_char (digit_char d) :: nat) = 43" by simp
    with n show False by simp
  qed
qed

lemma parse_digits_bound: "acc \<le> m \<Longrightarrow> parse_digits m acc s = Some n \<Longrightarrow> n \<le> m"
  by (induction m acc s rule: parse_digits.induct) (auto simp: Let_def split: if_splits)

lemma parse_uint_bound: "parse_uint m s = Some n \<Longrightarrow> n \<le> m"
  by (auto simp: parse_uint_def simp del: parse_digits.simps split: list.splits if_splits
      dest: parse_digits_bound [rotated])

lemma parse_digits_append:
  "parse_digits m acc (s @ [c]) =
     (case parse_digits m acc s of
        None \<Rightarrow> None
      | Some a \<Rightarrow> if is_digit c \<and> a * 10 + digit_val c \<le> m then Some (a * 10 + digit_val c) else None)"
  by (induction m acc s rule: parse_digits.induct) (auto simp: Let_def)

lemma parse_digits_show: "n \<le> m \<Longrightarrow> parse_digits m 0 (show_nat n) = Some n"
proof (induction n rule: show_nat.induct)
  case (1 n)
  show ?case
  proof (cases "n < 10")
    case True
    with 1 show ?thesis by (simp add: show_nat.simps [of n])
  next
    case False
    with 1 have "parse_digits m 0 (show_nat (n div 10)) = Some (n div 10)" by simp
    with False 1(2) show ?thesis
      by (simp add: show_nat.simps [of n] parse_digits_append)
  qed
qed

lemma show_nat_not_Nil [simp]: "show_nat n \<noteq> []"
  by (subst show_nat.simps) simp

lemma show_nat_digits: "list_all is_digit (show_nat n)"
proof (induction n rule: show_nat.induct)
  case (1 n)
  then show ?case by (subst show_nat.simps) auto
qed

lemma parse_uint_show: "n \<le> m \<Longrightarrow> parse_uint m (show_nat n) = Some n"
proof -
  assume n: "n \<le> m"
  obtain c cs where s: "show_nat n = c # cs" by (cases "show_nat n") auto
  with show_nat_digits [of n] have "is_digit c" by simp
  then have "c \<noteq> CHR ''+''" by (auto simp: is_digit_def Let_def)
  with s parse_digits_show [OF n] show ?thesis by (simp add: parse_uint_def)
qed

lemma parse_u16_show: "parse_u16 (show_nat (unat (w :: u16))) = Some w"
proof -
  have "unat w \<le> 65535"
    by (rule unat_u16_le)
  then show ?thesis by (simp add: parse_u16_def parse_uint_show)
qed

lemma parse_u16_unat: "parse_u16 s = Some w \<Longrightarrow> parse_uint 65535 s = Some (unat w)"
  using parse_uint_bound [of 65535 s]
  by (auto simp: parse_u16_def unat_of_nat)

end
