(* ===== verification/Constants.thy ===== *)
theory Constants
  imports Prelude
begin

text \<open>
  The constants of \<open>rfrp-common::constants\<close> that the modelled code uses. Durations stay in
  the unit the source writes them in (seconds or milliseconds) and are converted where they
  are used; sizes and counts are natural numbers, as \<open>usize\<close> is never near its bound here.
\<close>

definition PROTOCOL_VERSION :: u8 where "PROTOCOL_VERSION = 2"
definition FRAME_HEADER_LEN :: nat where "FRAME_HEADER_LEN = 6"
definition FRAME_MAX_PAYLOAD :: nat where "FRAME_MAX_PAYLOAD = 16 * 1024 * 1024"
definition WORK_ID_POOL_RESERVED :: u64 where "WORK_ID_POOL_RESERVED = 0"
definition CONNECT_TIMEOUT :: nat where "CONNECT_TIMEOUT = 10"
definition LOGIN_TIMEOUT :: nat where "LOGIN_TIMEOUT = 10"
definition NEW_PROXY_TIMEOUT :: nat where "NEW_PROXY_TIMEOUT = 10"
definition HTTP_HEAD_TIMEOUT :: nat where "HTTP_HEAD_TIMEOUT = 10"
definition HEARTBEAT_INTERVAL :: u64 where "HEARTBEAT_INTERVAL = 30"
definition HEARTBEAT_TIMEOUT :: u64 where "HEARTBEAT_TIMEOUT = 10"
definition HEARTBEAT_MIN_SECS :: u64 where "HEARTBEAT_MIN_SECS = 1"
definition HEARTBEAT_MAX_SECS :: u64 where "HEARTBEAT_MAX_SECS = 3600"
definition WORK_CONN_TIMEOUT_RFRPS :: nat where "WORK_CONN_TIMEOUT_RFRPS = 10"
definition WORK_CONN_REQUEST_INTERVAL_MS :: nat where "WORK_CONN_REQUEST_INTERVAL_MS = 3000"
definition UDP_SESSION_TIMEOUT :: u64 where "UDP_SESSION_TIMEOUT = 300"
definition UDP_SESSION_TIMEOUT_MIN_SECS :: u64 where "UDP_SESSION_TIMEOUT_MIN_SECS = 1"
definition UDP_SESSION_TIMEOUT_MAX_SECS :: u64 where "UDP_SESSION_TIMEOUT_MAX_SECS = 24 * 60 * 60"
definition MAX_CONSECUTIVE_ACCEPT_ERRORS :: u32 where "MAX_CONSECUTIVE_ACCEPT_ERRORS = 60"
definition GRACEFUL_SHUTDOWN_TIMEOUT :: u64 where "GRACEFUL_SHUTDOWN_TIMEOUT = 30"
definition GRACEFUL_SHUTDOWN_TIMEOUT_MAX_SECS :: u64 where
  "GRACEFUL_SHUTDOWN_TIMEOUT_MAX_SECS = 3600"
definition TCP_KEEPALIVE_INTERVAL :: u64 where "TCP_KEEPALIVE_INTERVAL = 30"
definition TCP_KEEPALIVE_PROBE_INTERVAL :: u64 where "TCP_KEEPALIVE_PROBE_INTERVAL = 5"
definition PROXY_REGISTER_RETRY_INITIAL :: nat where "PROXY_REGISTER_RETRY_INITIAL = 2"
definition PROXY_REGISTER_RETRY_MAX :: nat where "PROXY_REGISTER_RETRY_MAX = 8"
definition PROXY_REGISTER_RETRY_MAX_DELAY :: nat where "PROXY_REGISTER_RETRY_MAX_DELAY = 30"
definition PROXY_REGISTER_RETRY_PERSISTENT_DELAY_SECS :: nat where
  "PROXY_REGISTER_RETRY_PERSISTENT_DELAY_SECS = 30"
definition PROXY_REGISTER_RETRY_PERSISTENT_MAX :: nat where
  "PROXY_REGISTER_RETRY_PERSISTENT_MAX = 20"
definition RECONNECT_BACKOFF_INITIAL :: nat where "RECONNECT_BACKOFF_INITIAL = 1"
definition RECONNECT_BACKOFF_MAX :: nat where "RECONNECT_BACKOFF_MAX = 30"
definition MAX_PROXIES_PER_SESSION :: nat where "MAX_PROXIES_PER_SESSION = 128"
definition MAX_SESSIONS :: nat where "MAX_SESSIONS = 1024"
definition MAX_SESSIONS_PER_IP :: nat where "MAX_SESSIONS_PER_IP = 256"
definition LOGIN_FAILURE_LIMIT :: u32 where "LOGIN_FAILURE_LIMIT = 10"
definition LOGIN_FAILURE_WINDOW :: nat where "LOGIN_FAILURE_WINDOW = 60"
definition MIN_STABLE_CONNECTION_SECS :: nat where "MIN_STABLE_CONNECTION_SECS = 60"
definition MAX_CUSTOM_DOMAINS :: nat where "MAX_CUSTOM_DOMAINS = 16"
definition POOL_SIZE_DEFAULT :: u32 where "POOL_SIZE_DEFAULT = 1"
definition POOL_SIZE_WARN_THRESHOLD :: u32 where "POOL_SIZE_WARN_THRESHOLD = 16"
definition MAX_POOLED_WORK_CONNS_PER_PROXY :: nat where "MAX_POOLED_WORK_CONNS_PER_PROXY = 32"
definition MAX_PENDING_UDP_SESSIONS :: nat where "MAX_PENDING_UDP_SESSIONS = 256"
definition MAX_UDP_PACKET_SIZE :: nat where "MAX_UDP_PACKET_SIZE = 65507"
definition UDP_SESSION_QUEUE_DEPTH :: nat where "UDP_SESSION_QUEUE_DEPTH = 64"
definition UDP_RECV_BATCH :: nat where "UDP_RECV_BATCH = 64"
definition UDP_WRITE_BATCH :: nat where "UDP_WRITE_BATCH = 32"
definition UDP_READ_BATCH :: nat where "UDP_READ_BATCH = 32"
definition MAX_ACTIVE_CONNECTIONS :: int where "MAX_ACTIVE_CONNECTIONS = 65536"
definition MAX_RUN_ID_LEN :: nat where "MAX_RUN_ID_LEN = 64"
definition MAX_TOKEN_LEN :: nat where "MAX_TOKEN_LEN = 256"
definition MAX_PROXY_NAME_LEN :: nat where "MAX_PROXY_NAME_LEN = 64"
definition MAX_DOMAIN_LEN :: nat where "MAX_DOMAIN_LEN = 253"

end
