(* ===== verification/Errors.thy ===== *)
theory Errors
  imports Strings Constants
begin

text \<open>
  The error type of \<open>rfrp-common::error\<close>. The variants that carry a formatted message in the
  source (\<open>Protocol\<close>, \<open>Config\<close>) carry here a constructor for the place that builds the
  message, with the values the message shows, so that every early return stays a branch of its
  own. \<open>Json\<close>, \<open>Toml\<close>, \<open>Auth\<close> and \<open>Other\<close> carry text.
\<close>

datatype error_kind =
    ConnectionReset | ConnectionAborted | ConnectionRefused | BrokenPipe | UnexpectedEof
  | TimedOut | NotConnected | AddrInUse | AddrNotAvailable | PermissionDenied | WouldBlock
  | InvalidData | InvalidInput | NotFound | AlreadyExists | Interrupted | WriteZero
  | OtherKind

record io_error =
  io_kind :: error_kind
  raw_os_error :: "int option"

definition io_err :: "error_kind \<Rightarrow> io_error" where
  \<comment> \<open>\<open>std::io::Error::new(kind, _)\<close>: no operating-system code\<close>
  "io_err k = \<lparr>io_kind = k, raw_os_error = None\<rparr>"

lemma io_kind_io_err [simp]: "io_kind (io_err k) = k"
  by (simp add: io_err_def)

fun kind_text :: "error_kind \<Rightarrow> string" where
  "kind_text ConnectionReset = ''connection reset by peer''"
| "kind_text ConnectionAborted = ''connection aborted''"
| "kind_text ConnectionRefused = ''connection refused''"
| "kind_text BrokenPipe = ''broken pipe''"
| "kind_text UnexpectedEof = ''unexpected eof''"
| "kind_text TimedOut = ''operation timed out''"
| "kind_text NotConnected = ''not connected''"
| "kind_text AddrInUse = ''address already in use''"
| "kind_text AddrNotAvailable = ''address not available''"
| "kind_text PermissionDenied = ''permission denied''"
| "kind_text WouldBlock = ''operation would block''"
| "kind_text InvalidData = ''invalid data''"
| "kind_text InvalidInput = ''invalid input''"
| "kind_text NotFound = ''not found''"
| "kind_text AlreadyExists = ''already exists''"
| "kind_text Interrupted = ''interrupted''"
| "kind_text WriteZero = ''write zero''"
| "kind_text OtherKind = ''io error''"

definition show_int :: "int \<Rightarrow> string" where
  "show_int i = (if i < 0 then CHR ''-'' # show_nat (nat (- i)) else show_nat (nat i))"

definition describe_io_error :: "io_error \<Rightarrow> string" where
  "describe_io_error e =
     (case raw_os_error e of
        Some code \<Rightarrow> kind_text (io_kind e) @ '' (os error '' @ show_int code @ '')''
      | None \<Rightarrow> kind_text (io_kind e))"

datatype protocol_error =
    UnsupportedVersion u8
  | FrameTooLarge nat
  | UnknownMsgType u8
  | FirstFrameMustBeLogin
  | ExpectedStartWorkConn

datatype config_error =
    CannotRead string io_error
  | BadAddress string
  | EmptyHost string
  | BadPort string
  | BindPortRange u16
  | EmptyToken
  | MissingTls bool bool
  | FileNotFound string string
  | KeepaliveRange u64
  | UdpTimeoutRange u64
  | GraceRange u64
  | HeartbeatRange string u64
  | HeartbeatOrder u64 u64
  | PortRangeStart string
  | PortRangeEnd string
  | PortRangeOrder string
  | BadPortItem string
  | VhostPortRange u16
  | VhostHttpsNeedsCert
  | BadDashboardAddr string
  | EmptyDashboardUser
  | ShortDashboardPassword
  | DashboardPortClash string
  | BadLocalIp string
  | LocalPortRange string
  | NeedsRemotePort string
  | NeedsDomains string
  | NoDomains string
  | TooManyDomains string nat
  | BadDomain string
  | BadServerAddr string
  | ZeroServerPort
  | BadStatusAddr string
  | MissingServerName bool bool
  | EmptyProxyName
  | DuplicateProxyName string
  | DuplicateRemotePort string u16
  | CertUnreadable string io_error
  | CertInvalid string io_error
  | NoCertificate string
  | KeyUnreadable string io_error
  | KeyInvalid string io_error
  | NoPrivateKey string
  | ServerTlsRejected string
  | TicketerFailed string
  | CaUnreadable string io_error
  | CaInvalid string io_error
  | CaRejected string string
  | NoCaCertificate string
  | TlsNameRequired
  | TlsNameInvalid string
  | ControlTlsNeeds string
  | DashboardAddrInvalid string

datatype error =
    Io io_error
  | Json string
  | Toml string
  | Protocol protocol_error
  | Config config_error
  | Auth string
  | Other string

text \<open>
  Which failures of a connection are put down to the peer (\<open>server.rs\<close>): they are logged at
  debug level only.
\<close>

fun is_expected_peer_error :: "error \<Rightarrow> bool" where
  "is_expected_peer_error (Io e) =
     (io_kind e \<in> {ConnectionReset, ConnectionAborted, BrokenPipe, UnexpectedEof, TimedOut})"
| "is_expected_peer_error (Protocol _) = True"
| "is_expected_peer_error _ = False"

lemma kind_text_inj: "kind_text a = kind_text b \<Longrightarrow> a = b"
  by (cases a; cases b; simp)

end
