(* ===== verification/Framing.thy ===== *)
theory Framing
  imports Prelude
begin

text \<open>
  The contract of a length-prefixed framing, shared by the control-message codec
  (\<open>protocol/frame.rs\<close>) and the UDP framing on work connections (\<open>util/udp.rs\<close>): an encoder
  that appends to a buffer, and a decoder that takes one item off the front of a buffer, says
  that it needs more bytes, or fails. \<open>drain\<close> is the loop both receivers run.
\<close>

section \<open>Big-endian lengths\<close>

definition from_be_bytes :: "u8 \<Rightarrow> u8 \<Rightarrow> u8 \<Rightarrow> u8 \<Rightarrow> u32" where
  "from_be_bytes a b c d =
     of_nat (unat a * 2 ^ 24 + unat b * 2 ^ 16 + unat c * 2 ^ 8 + unat d)"

definition to_be_bytes :: "u32 \<Rightarrow> bytes" where
  "to_be_bytes w =
     [of_nat (unat w div 2 ^ 24), of_nat (unat w div 2 ^ 16), of_nat (unat w div 2 ^ 8),
      of_nat (unat w)]"

lemma length_to_be_bytes [simp]: "length (to_be_bytes w) = 4"
  by (simp add: to_be_bytes_def)

lemma unat_from_be_bytes:
  "unat (from_be_bytes a b c d) = unat a * 2 ^ 24 + unat b * 2 ^ 16 + unat c * 2 ^ 8 + unat d"
proof -
  have "unat a * 2 ^ 24 + unat b * 2 ^ 16 + unat c * 2 ^ 8 + unat d < 4294967296"
    using unat_u8_less [of a] unat_u8_less [of b] unat_u8_less [of c] unat_u8_less [of d] by simp
  then show ?thesis unfolding from_be_bytes_def unat_of_nat by simp
qed

lemma base256_digits:
  fixes n :: nat
  assumes "n < 4294967296"
  shows "n div 2 ^ 24 mod 256 * 2 ^ 24 + n div 2 ^ 16 mod 256 * 2 ^ 16
    + n div 2 ^ 8 mod 256 * 2 ^ 8 + n mod 256 = n"
proof -
  define p q r where "p = n div 256" and "q = p div 256" and "r = q div 256"
  have "n div 2 ^ 8 = p" "n div 2 ^ 16 = q" "n div 2 ^ 24 = r"
    by (simp_all add: p_def q_def r_def flip: div_mult2_eq)
  moreover have "r < 256"
    using assms by (simp add: p_def q_def r_def flip: div_mult2_eq)
  moreover have "n = 256 * p + n mod 256" "p = 256 * q + p mod 256" "q = 256 * r + q mod 256"
    by (simp_all add: p_def q_def r_def)
  ultimately show ?thesis by simp
qed

lemma from_to_be_bytes:
  assumes "to_be_bytes w = [a, b, c, d]"
  shows "from_be_bytes a b c d = w"
proof -
  have k: "unat (of_nat n :: u8) = n mod 256" for n
    by (simp add: unat_of_nat)
  from assms have a: "a = of_nat (unat w div 2 ^ 24)" and b: "b = of_nat (unat w div 2 ^ 16)"
    and c: "c = of_nat (unat w div 2 ^ 8)" and d: "d = of_nat (unat w)"
    unfolding to_be_bytes_def list.inject by blast+
  have "unat a = unat w div 2 ^ 24 mod 256" unfolding a by (rule k)
  moreover have "unat b = unat w div 2 ^ 16 mod 256" unfolding b by (rule k)
  moreover have "unat c = unat w div 2 ^ 8 mod 256" unfolding c by (rule k)
  moreover have "unat d = unat w mod 256" unfolding d by (rule k)
  ultimately have "unat (from_be_bytes a b c d) = unat w"
    using base256_digits [OF unat_u32_less [of w]] unfolding unat_from_be_bytes by presburger
  then show ?thesis by (rule unsigned_word_eqI)
qed

lemma to_from_be_bytes: "to_be_bytes (from_be_bytes a b c d) = [a, b, c, d]"
proof -
  let ?n = "unat a * 2 ^ 24 + unat b * 2 ^ 16 + unat c * 2 ^ 8 + unat d"
  have ab: "unat a < 256" "unat b < 256" "unat c < 256" "unat d < 256"
    by (rule unat_u8_less)+
  have k: "(of_nat (k * 256 + unat x) :: u8) = x" for k x
  proof -
    have "unat (of_nat (k * 256 + unat x) :: u8) = unat x"
      unfolding unat_of_nat using unat_u8_less [of x] by simp
    then show ?thesis by (rule unsigned_word_eqI)
  qed
  have "?n div 2 ^ 24 = 0 * 256 + unat a" "?n div 2 ^ 16 = unat a * 256 + unat b"
    "?n div 2 ^ 8 = (unat a * 256 + unat b) * 256 + unat c"
    "?n = ((unat a * 256 + unat b) * 256 + unat c) * 256 + unat d"
    using ab by (simp_all add: div_eq_dividend_iff)
  then have "(of_nat (?n div 2 ^ 24) :: u8) = a" "(of_nat (?n div 2 ^ 16) :: u8) = b"
    "(of_nat (?n div 2 ^ 8) :: u8) = c" "(of_nat ?n :: u8) = d"
    by (simp_all only: k)
  then show ?thesis unfolding to_be_bytes_def unat_from_be_bytes by (simp only:)
qed

section \<open>Draining a buffer\<close>

text \<open>At most \<open>n\<close> items; stops at the first incomplete item or error.\<close>

fun drain ::
  "(bytes \<Rightarrow> ('e, ('a \<times> bytes) option) result) \<Rightarrow> nat \<Rightarrow> bytes \<Rightarrow> 'a list \<times> bytes \<times> 'e option"
where
  "drain dec 0 b = ([], b, None)"
| "drain dec (Suc n) b =
     (case dec b of
        Inl e \<Rightarrow> ([], b, Some e)
      | Inr None \<Rightarrow> ([], b, None)
      | Inr (Some (x, r)) \<Rightarrow> (let (xs, r', e) = drain dec n r in (x # xs, r', e)))"

lemma drain_length_le: "drain dec n b = (xs, r, e) \<Longrightarrow> length xs \<le> n"
  by (induction dec n b arbitrary: xs r e rule: drain.induct)
    (auto split: sum.splits option.splits prod.splits)

locale framing =
  fixes enc :: "'a \<Rightarrow> bytes"
    and dec :: "bytes \<Rightarrow> ('e, ('a \<times> bytes) option) result"
    and ok :: "'a \<Rightarrow> bool"
  assumes dec_enc: "ok x \<Longrightarrow> dec (enc x @ r) = Inr (Some (x, r))"
    and dec_canon: "dec b = Inr (Some (x, r)) \<Longrightarrow> b = enc x @ r \<and> ok x"
    and dec_fail: "dec b = Inl e \<Longrightarrow> dec (b @ t) = Inl e"
    and dec_Nil: "dec [] = Inr None"
begin

lemma enc_not_Nil: "ok x \<Longrightarrow> enc x \<noteq> []"
  using dec_enc [of x "[]"] dec_Nil by auto

lemma dec_more: "dec b = Inr (Some (x, r)) \<Longrightarrow> dec (b @ t) = Inr (Some (x, r @ t))"
  using dec_canon dec_enc by fastforce

lemma drain_enc:
  "list_all ok xs \<Longrightarrow> length xs \<le> n \<Longrightarrow>
   drain dec n (concat (map enc xs) @ r) =
     (let (ys, r', e) = drain dec (n - length xs) r in (xs @ ys, r', e))"
proof (induction xs arbitrary: n)
  case Nil
  then show ?case by (simp split: prod.splits)
next
  case (Cons x xs)
  then obtain m where "n = Suc m" by (cases n) auto
  with Cons show ?case by (simp add: dec_enc split: prod.splits)
qed

text \<open>What was drained is exactly what was taken off the buffer.\<close>

lemma drain_canon: "drain dec n b = (xs, r, e) \<Longrightarrow> b = concat (map enc xs) @ r \<and> list_all ok xs"
proof (induction n arbitrary: b xs)
  case 0
  then show ?case by auto
next
  case (Suc n)
  show ?case
  proof (cases "\<exists>x c. dec b = Inr (Some (x, c))")
    case True
    then obtain x c where d: "dec b = Inr (Some (x, c))" by blast
    with Suc.prems obtain ys where "xs = x # ys" and ys: "drain dec n c = (ys, r, e)"
      by (auto split: prod.splits)
    with Suc.IH [OF ys] dec_canon [OF d] show ?thesis by simp
  next
    case False
    with Suc.prems show ?thesis by (auto split: sum.splits option.splits)
  qed
qed

text \<open>
  The heart of every receiver: on a prefix of an encoded stream, draining yields a prefix of
  the items, never an error, and the bytes not yet used are a prefix of the encoding of the
  remaining items.
\<close>

lemma drain_prefix:
  assumes "drain dec n b = (xs, r, e)" and "b @ t = concat (map enc ds)" and "list_all ok ds"
  shows "e = None \<and> xs = take (length xs) ds \<and>
    r @ t = concat (map enc (drop (length xs) ds)) \<and> length xs \<le> length ds"
  using assms
proof (induction n arbitrary: b xs ds)
  case 0
  then show ?case by auto
next
  case (Suc n)
  consider (err) e' where "dec b = Inl e'" | (wait) "dec b = Inr None"
    | (item) x c where "dec b = Inr (Some (x, c))"
    by (metis not_None_eq sum.exhaust surj_pair)
  then show ?case
  proof cases
    case err
    then have "dec (b @ t) = Inl e'" by (rule dec_fail)
    with Suc.prems dec_Nil dec_enc show ?thesis by (cases ds) auto
  next
    case wait
    with Suc.prems show ?thesis by auto
  next
    case item
    then obtain ys where xs: "xs = x # ys" and ys: "drain dec n c = (ys, r, e)"
      using Suc.prems by (auto split: prod.splits)
    from dec_more [OF item] have "dec (b @ t) = Inr (Some (x, c @ t))" .
    with Suc.prems dec_Nil obtain ds' where ds: "ds = x # ds'" "c @ t = concat (map enc ds')"
        "list_all ok ds'"
      using dec_enc by (cases ds) auto
    from Suc.IH [OF ys ds(2,3)] xs ds(1) show ?thesis by simp
  qed
qed

text \<open>When the whole encoding of a non-empty list is in the buffer, something is drained.\<close>

lemma drain_progress:
  assumes "drain dec n (concat (map enc ds)) = ([], r, e)" "0 < n" "list_all ok ds"
  shows "ds = []"
proof (cases ds)
  case (Cons d ds')
  moreover obtain m where "n = Suc m" using assms(2) by (cases n) auto
  ultimately show ?thesis using assms by (simp add: dec_enc split: prod.splits)
qed simp

end

end
