(* ===== verification/Frame.thy ===== *)
theory Frame
  imports Errors Framing
begin

text \<open>
  Control frames (\<open>rfrp-common/src/protocol/frame.rs\<close>): \<open>FrameCodec\<close> as a decoder on a
  receive buffer and an encoder appending to a send buffer, and \<open>read_one_frame\<close> on a byte
  stream that ends (a stream is the list of bytes it will deliver before end of file).
  The codec meets the contract \<open>framing\<close> (interpretation \<open>fc\<close>).
\<close>

record frame =
  f_version :: u8
  f_msg_type :: u8
  f_payload :: bytes

definition frame_new :: "u8 \<Rightarrow> u8 \<Rightarrow> bytes \<Rightarrow> frame" where
  "frame_new v t p = \<lparr>f_version = v, f_msg_type = t, f_payload = p\<rparr>"

definition decode :: "bytes \<Rightarrow> (error, (frame \<times> bytes) option) result" where
  "decode src =
     (if length src < FRAME_HEADER_LEN then Inr None
      else
        let version = src ! 0;
            msg_type = src ! 1;
            len = unat (from_be_bytes (src ! 2) (src ! 3) (src ! 4) (src ! 5))
        in if version \<noteq> PROTOCOL_VERSION then Inl (Protocol (UnsupportedVersion version))
           else if FRAME_MAX_PAYLOAD < len then Inl (Protocol (FrameTooLarge len))
           else if length src < FRAME_HEADER_LEN + len then Inr None
           else
             let src' = drop FRAME_HEADER_LEN src
             in Inr (Some (\<lparr>f_version = version, f_msg_type = msg_type,
                            f_payload = take len src'\<rparr>, drop len src')))"

definition encode :: "frame \<Rightarrow> bytes \<Rightarrow> (error, bytes) result" where
  "encode f dst =
     (if FRAME_MAX_PAYLOAD < length (f_payload f)
      then Inl (Protocol (FrameTooLarge (length (f_payload f))))
      else Inr (dst @ [f_version f] @ [f_msg_type f]
                  @ to_be_bytes (of_nat (length (f_payload f))) @ f_payload f))"

definition read_exact :: "nat \<Rightarrow> bytes \<Rightarrow> (error, bytes \<times> bytes) result" where
  "read_exact n s =
     (if length s < n then Inl (Io (io_err UnexpectedEof)) else Inr (take n s, drop n s))"

definition read_one_frame :: "bytes \<Rightarrow> (error, frame \<times> bytes) result" where
  "read_one_frame s =
     rbind (read_exact FRAME_HEADER_LEN s) (\<lambda>(header, s).
       let version = header ! 0;
           msg_type = header ! 1;
           len = unat (from_be_bytes (header ! 2) (header ! 3) (header ! 4) (header ! 5))
       in if version \<noteq> PROTOCOL_VERSION then Inl (Protocol (UnsupportedVersion version))
          else if FRAME_MAX_PAYLOAD < len then Inl (Protocol (FrameTooLarge len))
          else if 0 < len then
            rbind (read_exact len s) (\<lambda>(payload, s).
              Inr (frame_new version msg_type payload, s))
          else Inr (frame_new version msg_type [], s))"

section \<open>The header\<close>

lemma decode_short: "length src < 6 \<Longrightarrow> decode src = Inr None"
  by (simp add: decode_def FRAME_HEADER_LEN_def)

lemma decode_Cons:
  "decode (v # t # a # b # c # d # p) =
     (let len = unat (from_be_bytes a b c d) in
      if v \<noteq> PROTOCOL_VERSION then Inl (Protocol (UnsupportedVersion v))
      else if FRAME_MAX_PAYLOAD < len then Inl (Protocol (FrameTooLarge len))
      else if length p < len then Inr None
      else Inr (Some (\<lparr>f_version = v, f_msg_type = t, f_payload = take len p\<rparr>, drop len p)))"
  by (simp add: decode_def FRAME_HEADER_LEN_def Let_def)

lemma six_bytes:
  assumes "\<not> length xs < 6"
  obtains v t a b c d p where "xs = v # t # a # b # c # d # p"
  using assms by (auto simp: not_less numeral_eq_Suc Suc_le_length_iff)

definition header_bytes :: "frame \<Rightarrow> bytes" where
  "header_bytes f = [f_version f, f_msg_type f] @ to_be_bytes (of_nat (length (f_payload f)))"

definition frame_ok :: "frame \<Rightarrow> bool" where
  "frame_ok f \<longleftrightarrow> f_version f = PROTOCOL_VERSION \<and> length (f_payload f) \<le> FRAME_MAX_PAYLOAD"

definition wire :: "frame \<Rightarrow> bytes" where
  \<comment> \<open>what \<open>encode\<close> appends\<close>
  "wire f = header_bytes f @ f_payload f"

lemma encode_wire: "frame_ok f \<Longrightarrow> encode f dst = Inr (dst @ wire f)"
  by (simp add: encode_def wire_def header_bytes_def frame_ok_def)

lemma encode_Inr: "encode f dst = Inr b \<Longrightarrow> b = dst @ wire f"
  by (auto simp: encode_def wire_def header_bytes_def split: if_splits)

lemma wire_header:
  assumes "frame_ok f"
  obtains a b c d where
    "wire f = [f_version f, f_msg_type f, a, b, c, d] @ f_payload f"
    "unat (from_be_bytes a b c d) = length (f_payload f)"
proof -
  obtain a b c d where e: "to_be_bytes (of_nat (length (f_payload f))) = [a, b, c, d]"
    by (simp add: to_be_bytes_def)
  have "length (f_payload f) < 4294967296"
    using assms by (simp add: frame_ok_def FRAME_MAX_PAYLOAD_def)
  with from_to_be_bytes [OF e] have "unat (from_be_bytes a b c d) = length (f_payload f)"
    by (simp add: unat_of_nat)
  with e show thesis by (intro that [of a b c d]) (simp_all add: wire_def header_bytes_def)
qed

lemma decode_wire:
  assumes "frame_ok f"
  shows "decode (wire f @ r) = Inr (Some (f, r))"
proof -
  from assms obtain a b c d where
    "wire f = [f_version f, f_msg_type f, a, b, c, d] @ f_payload f"
    "unat (from_be_bytes a b c d) = length (f_payload f)" by (rule wire_header)
  with assms show ?thesis by (simp add: decode_Cons frame_ok_def Let_def)
qed

lemma decode_canon:
  assumes "decode b = Inr (Some (f, r))"
  shows "b = wire f @ r \<and> frame_ok f"
proof -
  have "\<not> length b < 6" using assms by (auto simp: decode_short)
  then obtain v t x y z w p where b: "b = v # t # x # y # z # w # p" by (rule six_bytes)
  have "f_version f = v" "f_msg_type f = t" "frame_ok f" "p = f_payload f @ r"
    and "unat (from_be_bytes x y z w) = length (f_payload f)"
    using assms unfolding b decode_Cons
    by (auto simp: Let_def frame_ok_def split: if_splits)
  moreover from this have "to_be_bytes (of_nat (length (f_payload f))) = [x, y, z, w]"
    by (metis to_from_be_bytes of_nat_unat ucast_id)
  ultimately show ?thesis using b by (simp add: wire_def header_bytes_def)
qed

lemma decode_fail:
  assumes "decode b = Inl e"
  shows "decode (b @ s) = Inl e"
proof -
  have "\<not> length b < 6" using assms by (auto simp: decode_short)
  then obtain v t x y z w p where b: "b = v # t # x # y # z # w # p" by (rule six_bytes)
  show ?thesis
    using assms unfolding b append_Cons decode_Cons by (auto simp: Let_def split: if_splits)
qed

interpretation fc: framing wire decode frame_ok
proof unfold_locales
  fix f b r t e
  show "frame_ok f \<Longrightarrow> decode (wire f @ r) = Inr (Some (f, r))" by (rule decode_wire)
  show "decode b = Inr (Some (f, r)) \<Longrightarrow> b = wire f @ r \<and> frame_ok f" by (rule decode_canon)
  show "decode b = Inl e \<Longrightarrow> decode (b @ t) = Inl e" by (rule decode_fail)
  show "decode [] = Inr None" by (simp add: decode_def FRAME_HEADER_LEN_def)
qed

section \<open>Properties\<close>

fun encode_all :: "frame list \<Rightarrow> bytes \<Rightarrow> (error, bytes) result" where
  "encode_all [] dst = Inr dst"
| "encode_all (f # fs) dst = rbind (encode f dst) (encode_all fs)"

lemma encode_all_wire:
  "list_all frame_ok fs \<Longrightarrow> encode_all fs dst = Inr (dst @ concat (map wire fs))"
  by (induction fs arbitrary: dst) (auto simp: encode_wire)

lemma encode_all_ok:
  "encode_all fs dst = Inr b \<Longrightarrow> list_all (\<lambda>f. f_version f = PROTOCOL_VERSION) fs \<Longrightarrow>
   list_all frame_ok fs"
  by (induction fs arbitrary: dst)
    (auto simp: rbind_Inr_iff frame_ok_def encode_def split: if_splits)

text \<open>
  The sender's frames survive any stream. Encoding a list of frames of the current
  version into a buffer, one after the other, and running the decoder on the result followed
  by any further bytes yields exactly those frames, in order, and leaves the further bytes
  untouched.
\<close>

theorem frames_survive_stream:
  assumes "encode_all fs [] = Inr b"
    and "list_all (\<lambda>f. f_version f = PROTOCOL_VERSION) fs"
  shows "drain decode (length fs) (b @ rest) = (fs, rest, None)"
proof -
  from assms have ok: "list_all frame_ok fs" by (rule encode_all_ok)
  with assms(1) have "b = concat (map wire fs)" by (simp add: encode_all_wire)
  with fc.drain_enc [OF ok order_refl, of rest] show ?thesis by simp
qed

theorem frames_survive_stream_witness:
  "drain decode (length [\<lparr>f_version = 2, f_msg_type = 5, f_payload = [123, 125]\<rparr>])
     ([2, 5, 0, 0, 0, 2, 123, 125] @ [9, 9])
   = ([\<lparr>f_version = 2, f_msg_type = 5, f_payload = [123, 125]\<rparr>], [9, 9], None)"
proof (rule frames_survive_stream)
  show "encode_all [\<lparr>f_version = 2, f_msg_type = 5, f_payload = [123, 125]\<rparr>] [] =
      Inr [2, 5, 0, 0, 0, 2, 123, 125]"
    by (simp add: encode_def FRAME_MAX_PAYLOAD_def to_be_bytes_def)
  show "list_all (\<lambda>f. f_version f = PROTOCOL_VERSION)
      [\<lparr>f_version = 2, f_msg_type = 5, f_payload = [123, 125]\<rparr>]"
    by (simp add: PROTOCOL_VERSION_def)
qed

text \<open>
  A hostile header cannot make the receiver buffer without bound: whenever the decoder
  asks for more bytes, the buffer holds less than a header and the largest allowed payload, so
  a declared length above the limit is refused as soon as the header is complete.
\<close>

theorem decode_wait_bounded:
  assumes "decode src = Inr None"
  shows "length src < FRAME_HEADER_LEN + FRAME_MAX_PAYLOAD"
proof (cases "length src < 6")
  case True
  then show ?thesis by (simp add: FRAME_HEADER_LEN_def)
next
  case False
  then obtain v t x y z w p where b: "src = v # t # x # y # z # w # p" by (rule six_bytes)
  show ?thesis
    using assms unfolding b decode_Cons
    by (auto simp: Let_def FRAME_HEADER_LEN_def split: if_splits)
qed

theorem decode_wait_bounded_witness:
  "decode [2, 1, 0, 1, 0, 0, 7] = Inr None \<and>
   length ([2, 1, 0, 1, 0, 0, 7] :: bytes) < FRAME_HEADER_LEN + FRAME_MAX_PAYLOAD"
proof -
  have "decode [2, 1, 0, 1, 0, 0, 7] = Inr None"
    by (simp add: decode_Cons PROTOCOL_VERSION_def FRAME_MAX_PAYLOAD_def Let_def
        unat_from_be_bytes)
  then show ?thesis using decode_wait_bounded by blast
qed

text \<open>
  The one-shot reader and the streaming decoder agree: \<open>read_one_frame\<close>, which the
  server runs on a fresh connection, returns the frame and the rest of the stream exactly when
  the codec would, and it never consumes a byte of what follows the first frame. Where the
  codec would wait for more bytes, the reader fails with an unexpected end of file.
\<close>

theorem read_one_frame_agrees:
  "read_one_frame s =
     (case decode s of
        Inl e \<Rightarrow> Inl e
      | Inr None \<Rightarrow> Inl (Io (io_err UnexpectedEof))
      | Inr (Some (f, r)) \<Rightarrow> Inr (f, r))"
proof (cases "length s < 6")
  case True
  then show ?thesis
    by (simp add: decode_short read_one_frame_def read_exact_def FRAME_HEADER_LEN_def)
next
  case False
  then obtain v t a b c d p where s: "s = v # t # a # b # c # d # p" by (rule six_bytes)
  show ?thesis
    unfolding s decode_Cons
    by (simp add: read_one_frame_def read_exact_def FRAME_HEADER_LEN_def frame_new_def Let_def)
qed

end
