(* ===== verification/Auth.thy ===== *)
theory Auth
  imports Prelude
begin

unbundle bit_operations_syntax

text \<open>
  The constant-time token comparison of \<open>rfrp-common/src/auth/mod.rs\<close>: a loop over the zipped
  bytes that accumulates the differences of all positions.
\<close>

definition as_bytes :: "string \<Rightarrow> bytes" where
  "as_bytes s = map of_char s"

fun diff_loop :: "u8 \<Rightarrow> (u8 \<times> u8) list \<Rightarrow> u8" where
  "diff_loop diff [] = diff"
| "diff_loop diff ((a, b) # ps) = diff_loop (diff OR (a XOR b)) ps"

definition verify_token :: "string \<Rightarrow> string \<Rightarrow> bool" where
  "verify_token expected provided =
     (if length expected \<noteq> length provided then False
      else diff_loop 0 (zip (as_bytes expected) (as_bytes provided)) = 0)"

lemma xor_eq_0_iff: "(a :: u8) XOR b = 0 \<longleftrightarrow> a = b"
  by (metis xor.assoc xor.left_neutral xor.right_neutral xor_self_eq)

lemma diff_loop_0_iff: "diff_loop d ps = 0 \<longleftrightarrow> d = 0 \<and> list_all (\<lambda>(a, b). a = b) ps"
  by (induction d ps rule: diff_loop.induct) (auto simp: or_eq_0_iff xor_eq_0_iff)

lemma zip_all_eq: "length xs = length ys \<Longrightarrow> list_all (\<lambda>(a, b). a = b) (zip xs ys) \<longleftrightarrow> xs = ys"
  by (induction xs ys rule: list_induct2) auto

lemma as_bytes_inj: "as_bytes s = as_bytes t \<longleftrightarrow> s = t"
proof -
  have "inj (of_char :: char \<Rightarrow> u8)" by (rule injI) simp
  then show ?thesis by (simp add: as_bytes_def inj_map_eq_map)
qed

lemma verify_token_eq: "verify_token expected provided \<longleftrightarrow> provided = expected"
proof (cases "length expected = length provided")
  case True
  then have "length (as_bytes expected) = length (as_bytes provided)"
    by (simp add: as_bytes_def)
  with True show ?thesis
    by (auto simp: verify_token_def diff_loop_0_iff zip_all_eq as_bytes_inj)
next
  case False
  then show ?thesis by (auto simp: verify_token_def)
qed

text \<open>
  The token check accepts exactly the expected token: the accumulated difference is
  zero only if every byte agrees, so no other string of the same length passes.
\<close>

theorem verify_token_iff: "verify_token expected provided \<longleftrightarrow> provided = expected"
  by (rule verify_token_eq)

end
