(* ===== verification/Msg.thy ===== *)
theory Msg
  imports Frame
begin

text \<open>
  Control messages (\<open>rfrp-common/src/protocol/msg.rs\<close>): the nine message structs, the enum
  \<open>Message\<close>, its type codes, the conversion to and from frames, and the registration error
  codes. The JSON encoding of each struct is \<open>serde_json\<close>'s work and a parameter: the record
  \<open>json\<close> holds one serialiser and one parser per struct. What the code relies on is that a
  parser reads back what its serialiser wrote (\<open>json_inverse\<close>).
\<close>

definition MSG_LOGIN :: u8 where "MSG_LOGIN = 1"
definition MSG_LOGIN_RESP :: u8 where "MSG_LOGIN_RESP = 2"
definition MSG_NEW_PROXY :: u8 where "MSG_NEW_PROXY = 3"
definition MSG_NEW_PROXY_RESP :: u8 where "MSG_NEW_PROXY_RESP = 4"
definition MSG_HEARTBEAT :: u8 where "MSG_HEARTBEAT = 5"
definition MSG_HEARTBEAT_RESP :: u8 where "MSG_HEARTBEAT_RESP = 6"
definition MSG_REQ_WORK_CONN :: u8 where "MSG_REQ_WORK_CONN = 7"
definition MSG_START_WORK_CONN :: u8 where "MSG_START_WORK_CONN = 8"
definition MSG_CLOSE :: u8 where "MSG_CLOSE = 9"

lemmas msg_type_defs =
  MSG_LOGIN_def MSG_LOGIN_RESP_def MSG_NEW_PROXY_def MSG_NEW_PROXY_RESP_def MSG_HEARTBEAT_def
  MSG_HEARTBEAT_RESP_def MSG_REQ_WORK_CONN_def MSG_START_WORK_CONN_def MSG_CLOSE_def

datatype proxy_type = Tcp | Udp | Http | Https

record login =
  lg_run_id :: string
  lg_token :: string
  lg_version :: u8

record login_resp =
  lr_ok :: bool
  lr_error :: "string option"
  lr_session_id :: "string option"
  lr_work_conn_tls :: "bool option"
  lr_work_conn_token :: "string option"

record new_proxy =
  np_proxy_name :: string
  np_type :: proxy_type
  np_remote_port :: "u16 option"
  np_custom_domains :: "string list option"

record new_proxy_resp =
  nr_proxy_name :: string
  nr_ok :: bool
  nr_error :: "string option"

record req_work_conn =
  rw_proxy_name :: string
  rw_work_id :: u64

record start_work_conn =
  sw_proxy_name :: string
  sw_work_id :: u64
  sw_work_conn_token :: "string option"

datatype message =
    Login login
  | LoginResp login_resp
  | NewProxy new_proxy
  | NewProxyResp new_proxy_resp
  | Heartbeat (hb_ts: u64)
  | HeartbeatResp (hr_ts: u64)
  | ReqWorkConn req_work_conn
  | StartWorkConn start_work_conn
  | Close (close_reason: "string option")

fun message_type :: "message \<Rightarrow> u8" where
  "message_type (Login _) = MSG_LOGIN"
| "message_type (LoginResp _) = MSG_LOGIN_RESP"
| "message_type (NewProxy _) = MSG_NEW_PROXY"
| "message_type (NewProxyResp _) = MSG_NEW_PROXY_RESP"
| "message_type (Heartbeat _) = MSG_HEARTBEAT"
| "message_type (HeartbeatResp _) = MSG_HEARTBEAT_RESP"
| "message_type (ReqWorkConn _) = MSG_REQ_WORK_CONN"
| "message_type (StartWorkConn _) = MSG_START_WORK_CONN"
| "message_type (Close _) = MSG_CLOSE"

section \<open>Frames\<close>

type_synonym 'a ser = "'a \<Rightarrow> (string, bytes) result"
type_synonym 'a de = "bytes \<Rightarrow> (string, 'a) result"

record json =
  ser_login :: "login ser"
  de_login :: "login de"
  ser_login_resp :: "login_resp ser"
  de_login_resp :: "login_resp de"
  ser_new_proxy :: "new_proxy ser"
  de_new_proxy :: "new_proxy de"
  ser_new_proxy_resp :: "new_proxy_resp ser"
  de_new_proxy_resp :: "new_proxy_resp de"
  ser_heartbeat :: "u64 ser"
  de_heartbeat :: "u64 de"
  ser_heartbeat_resp :: "u64 ser"
  de_heartbeat_resp :: "u64 de"
  ser_req_work_conn :: "req_work_conn ser"
  de_req_work_conn :: "req_work_conn de"
  ser_start_work_conn :: "start_work_conn ser"
  de_start_work_conn :: "start_work_conn de"
  ser_close :: "string option ser"
  de_close :: "string option de"

definition json_err :: "(string, 'a) result \<Rightarrow> (error, 'a) result" where
  "json_err r = (case r of Inl e \<Rightarrow> Inl (Json e) | Inr a \<Rightarrow> Inr a)"

lemma json_err_simps [simp]: "json_err (Inl e) = Inl (Json e)" "json_err (Inr a) = Inr a"
  by (simp_all add: json_err_def)

fun message_payload :: "json \<Rightarrow> message \<Rightarrow> (error, bytes) result" where
  "message_payload j (Login m) = json_err (ser_login j m)"
| "message_payload j (LoginResp m) = json_err (ser_login_resp j m)"
| "message_payload j (NewProxy m) = json_err (ser_new_proxy j m)"
| "message_payload j (NewProxyResp m) = json_err (ser_new_proxy_resp j m)"
| "message_payload j (Heartbeat m) = json_err (ser_heartbeat j m)"
| "message_payload j (HeartbeatResp m) = json_err (ser_heartbeat_resp j m)"
| "message_payload j (ReqWorkConn m) = json_err (ser_req_work_conn j m)"
| "message_payload j (StartWorkConn m) = json_err (ser_start_work_conn j m)"
| "message_payload j (Close m) = json_err (ser_close j m)"

definition to_frame :: "json \<Rightarrow> message \<Rightarrow> (error, frame) result" where
  "to_frame j m =
     rbind (message_payload j m) (\<lambda>payload.
       Inr (frame_new PROTOCOL_VERSION (message_type m) payload))"

definition from_frame :: "json \<Rightarrow> frame \<Rightarrow> (error, message) result" where
  "from_frame j f =
     (let t = f_msg_type f; p = f_payload f in
      if t = MSG_LOGIN then map_sum id Login (json_err (de_login j p))
      else if t = MSG_LOGIN_RESP then map_sum id LoginResp (json_err (de_login_resp j p))
      else if t = MSG_NEW_PROXY then map_sum id NewProxy (json_err (de_new_proxy j p))
      else if t = MSG_NEW_PROXY_RESP then map_sum id NewProxyResp (json_err (de_new_proxy_resp j p))
      else if t = MSG_HEARTBEAT then map_sum id Heartbeat (json_err (de_heartbeat j p))
      else if t = MSG_HEARTBEAT_RESP then map_sum id HeartbeatResp (json_err (de_heartbeat_resp j p))
      else if t = MSG_REQ_WORK_CONN then map_sum id ReqWorkConn (json_err (de_req_work_conn j p))
      else if t = MSG_START_WORK_CONN
           then map_sum id StartWorkConn (json_err (de_start_work_conn j p))
      else if t = MSG_CLOSE then map_sum id Close (json_err (de_close j p))
      else Inl (Protocol (UnknownMsgType t)))"

text \<open>What the code relies on for a message \<open>m\<close>: its struct's parser inverts its serialiser.\<close>

fun json_inverse :: "json \<Rightarrow> message \<Rightarrow> bool" where
  "json_inverse j (Login m) = (\<forall>b. ser_login j m = Inr b \<longrightarrow> de_login j b = Inr m)"
| "json_inverse j (LoginResp m) = (\<forall>b. ser_login_resp j m = Inr b \<longrightarrow> de_login_resp j b = Inr m)"
| "json_inverse j (NewProxy m) = (\<forall>b. ser_new_proxy j m = Inr b \<longrightarrow> de_new_proxy j b = Inr m)"
| "json_inverse j (NewProxyResp m) =
     (\<forall>b. ser_new_proxy_resp j m = Inr b \<longrightarrow> de_new_proxy_resp j b = Inr m)"
| "json_inverse j (Heartbeat m) = (\<forall>b. ser_heartbeat j m = Inr b \<longrightarrow> de_heartbeat j b = Inr m)"
| "json_inverse j (HeartbeatResp m) =
     (\<forall>b. ser_heartbeat_resp j m = Inr b \<longrightarrow> de_heartbeat_resp j b = Inr m)"
| "json_inverse j (ReqWorkConn m) =
     (\<forall>b. ser_req_work_conn j m = Inr b \<longrightarrow> de_req_work_conn j b = Inr m)"
| "json_inverse j (StartWorkConn m) =
     (\<forall>b. ser_start_work_conn j m = Inr b \<longrightarrow> de_start_work_conn j b = Inr m)"
| "json_inverse j (Close m) = (\<forall>b. ser_close j m = Inr b \<longrightarrow> de_close j b = Inr m)"

lemma from_to_frame:
  assumes "json_inverse j m" and "to_frame j m = Inr f"
  shows "from_frame j f = Inr m"
  using assms
  by (cases m)
    (auto simp: to_frame_def from_frame_def frame_new_def rbind_Inr_iff msg_type_defs json_err_def
      split: sum.splits)

lemma to_frame_type: "to_frame j m = Inr f \<Longrightarrow>
    f_msg_type f = message_type m \<and> f_version f = PROTOCOL_VERSION"
  by (auto simp: to_frame_def rbind_Inr_iff frame_new_def)

section \<open>Registration error codes\<close>

datatype proxy_error =
    InvalidType | InvalidField | NameExists | TooManyProxies | PortNotAllowed | PortOccupied
  | DomainConflict | Internal

fun as_str :: "proxy_error \<Rightarrow> string" where
  "as_str InvalidType = ''invalid type''"
| "as_str InvalidField = ''invalid field''"
| "as_str NameExists = ''proxy_name exists''"
| "as_str TooManyProxies = ''too many proxies''"
| "as_str PortNotAllowed = ''port not allowed''"
| "as_str PortOccupied = ''port occupied''"
| "as_str DomainConflict = ''domain conflict''"
| "as_str Internal = ''internal error''"

definition is_retryable :: "proxy_error \<Rightarrow> bool" where
  "is_retryable e = (e \<in> {PortOccupied, DomainConflict})"

definition is_persistently_retryable :: "proxy_error \<Rightarrow> bool" where
  "is_persistently_retryable e = (e \<in> {PortNotAllowed, Internal})"

definition from_code :: "string \<Rightarrow> proxy_error option" where
  "from_code code =
     find (\<lambda>e. as_str e = code)
       [InvalidType, InvalidField, NameExists, TooManyProxies, PortNotAllowed, PortOccupied,
        DomainConflict, Internal]"

lemma from_code_as_str [simp]: "from_code (as_str e) = Some e"
  by (cases e) (simp_all add: from_code_def)

lemma from_code_Some: "from_code s = Some e \<Longrightarrow> as_str e = s"
  unfolding from_code_def find_Some_iff by blast

section \<open>Properties\<close>

definition unsupported :: "'a \<Rightarrow> (string, 'b) result" where
  "unsupported x = Inl ''unsupported''"

definition ts_ser :: "u64 ser" where
  \<comment> \<open>the text \<open>serde_json\<close> writes for a heartbeat\<close>
  "ts_ser ts = Inr (map of_char (''{\"ts\":'' @ show_nat (unat ts) @ ''}''))"

definition ts_de :: "u64 de" where
  "ts_de b =
     (case parse_uint (2 ^ 64 - 1) (map byte_char (drop 6 (butlast b))) of
        None \<Rightarrow> Inl ''invalid'' | Some n \<Rightarrow> Inr (of_nat n))"

definition demo_json :: json where
  \<comment> \<open>a concrete codec for heartbeats\<close>
  "demo_json =
     \<lparr>ser_login = unsupported, de_login = unsupported, ser_login_resp = unsupported,
      de_login_resp = unsupported, ser_new_proxy = unsupported, de_new_proxy = unsupported,
      ser_new_proxy_resp = unsupported, de_new_proxy_resp = unsupported, ser_heartbeat = ts_ser,
      de_heartbeat = ts_de, ser_heartbeat_resp = ts_ser, de_heartbeat_resp = ts_de,
      ser_req_work_conn = unsupported, de_req_work_conn = unsupported,
      ser_start_work_conn = unsupported, de_start_work_conn = unsupported,
      ser_close = unsupported, de_close = unsupported\<rparr>"

text \<open>
  A control message arrives as it was sent: whenever a message can be put on the wire
  (its payload serialises and is within the frame limit), decoding the bytes, with anything
  behind them, gives a frame that parses back to the same message, and the bytes behind it
  are left alone.
\<close>

theorem message_survives_wire:
  assumes "json_inverse j m"
    and "to_frame j m = Inr f" and "encode f [] = Inr b"
  shows "\<exists>f'. decode (b @ rest) = Inr (Some (f', rest)) \<and> from_frame j f' = Inr m"
proof -
  from assms(2) have "f_version f = PROTOCOL_VERSION" by (simp add: to_frame_type)
  with assms(3) have ok: "frame_ok f" by (auto simp: frame_ok_def encode_def split: if_splits)
  with assms(3) have "b = wire f" by (simp add: encode_wire)
  with ok have "decode (b @ rest) = Inr (Some (f, rest))" by (simp add: decode_wire)
  with from_to_frame [OF assms(1,2)] show ?thesis by blast
qed

lemma ts_de_ser: "ts_ser ts = Inr b \<Longrightarrow> ts_de b = Inr ts"
proof -
  assume "ts_ser ts = Inr b"
  then have "map byte_char (drop 6 (butlast b)) = show_nat (unat ts)"
    by (auto simp: ts_ser_def comp_def butlast_append)
  moreover have "unat ts \<le> 2 ^ 64 - 1"
    by (rule unat_u64_le)
  ultimately show ?thesis by (simp add: ts_de_def parse_uint_show)
qed

lemma demo_json_heartbeat: "json_inverse demo_json (Heartbeat ts)"
  by (simp add: demo_json_def ts_de_ser)

theorem message_survives_wire_witness:
  "\<exists>f'. decode ([2, 5, 0, 0, 0, 8, 123, 34, 116, 115, 34, 58, 55, 125] @ [1])
      = Inr (Some (f', [1])) \<and> from_frame demo_json f' = Inr (Heartbeat 7)"
proof (rule message_survives_wire)
  let ?f = "frame_new PROTOCOL_VERSION MSG_HEARTBEAT [123, 34, 116, 115, 34, 58, 55, 125]"
  show "json_inverse demo_json (Heartbeat 7)" by (rule demo_json_heartbeat)
  show "to_frame demo_json (Heartbeat 7) = Inr ?f"
    by (simp add: to_frame_def demo_json_def ts_ser_def show_nat.simps digit_char_def
        of_char_char_of_u8)
  show "encode ?f [] = Inr [2, 5, 0, 0, 0, 8, 123, 34, 116, 115, 34, 58, 55, 125]"
    by (simp add: encode_def frame_new_def FRAME_MAX_PAYLOAD_def to_be_bytes_def
        PROTOCOL_VERSION_def MSG_HEARTBEAT_def)
qed

text \<open>
  The registration error codes are a faithful wire format: every code parses back to its
  error, no other text parses to it, and the two retry classes are disjoint and contain exactly
  the run-time conflicts and the errors that a change on the server can cure.
\<close>

theorem proxy_error_codes:
  "(from_code s = Some e \<longleftrightarrow> s = as_str e) \<and>
   \<not> (is_retryable e \<and> is_persistently_retryable e) \<and>
   (is_retryable e \<or> is_persistently_retryable e \<longleftrightarrow>
     e \<notin> {InvalidType, InvalidField, NameExists, TooManyProxies})"
proof (intro conjI)
  show "from_code s = Some e \<longleftrightarrow> s = as_str e"
    using from_code_Some [of s e] by auto
qed (cases e; simp add: is_retryable_def is_persistently_retryable_def)+

end
