(* ===== verification/UdpFrame.thy ===== *)
theory UdpFrame
  imports Errors Framing
begin

text \<open>
  UDP datagrams on a work connection (\<open>rfrp-common/src/util/udp.rs\<close>): a 4-byte big-endian
  length and the data. The stream is the list of chunks that successive reads deliver, so the
  reassembly across arbitrary read boundaries is part of the model; the empty list is end of
  file. Writes append to the bytes already on the connection.
\<close>

section \<open>Writing\<close>

definition append_udp_frame :: "bytes \<Rightarrow> bytes \<Rightarrow> (io_error, bytes) result" where
  "append_udp_frame scratch data =
     (if MAX_UDP_PACKET_SIZE < length data then Inl (io_err InvalidData)
      else Inr (scratch @ to_be_bytes (of_nat (length data)) @ data))"

definition write_udp_frame_buffered :: "bytes \<Rightarrow> bytes \<Rightarrow> (io_error, bytes) result" where
  \<comment> \<open>\<open>scratch.clear()\<close>, one append, one write\<close>
  "write_udp_frame_buffered w data = rbind (append_udp_frame [] data) (\<lambda>scratch. Inr (w @ scratch))"

fun append_frames :: "bytes \<Rightarrow> bytes list \<Rightarrow> (io_error, bytes) result" where
  "append_frames scratch [] = Inr scratch"
| "append_frames scratch (d # ds) =
     rbind (append_udp_frame scratch d) (\<lambda>scratch. append_frames scratch ds)"

definition write_udp_frames_buffered :: "bytes \<Rightarrow> bytes list \<Rightarrow> (io_error, bytes) result" where
  "write_udp_frames_buffered w data = rbind (append_frames [] data) (\<lambda>scratch. Inr (w @ scratch))"

section \<open>Reading one datagram\<close>

fun read_some :: "nat \<Rightarrow> bytes list \<Rightarrow> bytes \<times> bytes list" where
  \<comment> \<open>one \<open>read\<close> into a buffer with room for \<open>n\<close> bytes\<close>
  "read_some n [] = ([], [])"
| "read_some n (c # cs) = (if length c \<le> n then (c, cs) else (take n c, drop n c # cs))"

lemma read_some_length: "read_some n s = (d, s') \<Longrightarrow> length d \<le> n"
  by (cases s) (auto split: if_splits)

lemma read_some_concat: "read_some n s = (d, s') \<Longrightarrow> d @ concat s' = concat s"
  by (cases s) (auto split: if_splits)

function fill_header :: "bytes \<Rightarrow> bytes list \<Rightarrow> (io_error, (bytes \<times> bytes list) option) result" where
  "fill_header hdr s =
     (if 4 \<le> length hdr then Inr (Some (hdr, s))
      else let (d, s') = read_some (4 - length hdr) s in
           if d = [] then (if hdr = [] then Inr None else Inl (io_err UnexpectedEof))
           else fill_header (hdr @ d) s')"
  by pat_completeness auto
termination
  by (relation "measure (\<lambda>(hdr, s). 4 - length hdr)") (auto simp: neq_Nil_conv)

declare fill_header.simps [simp del]

function read_exact_chunks :: "nat \<Rightarrow> bytes \<Rightarrow> bytes list \<Rightarrow> (io_error, bytes \<times> bytes list) result" where
  \<comment> \<open>\<open>read_exact\<close> of the remaining \<open>n\<close> bytes behind those in \<open>acc\<close>\<close>
  "read_exact_chunks n acc s =
     (if n = 0 then Inr (acc, s)
      else let (d, s') = read_some n s in
           if d = [] then Inl (io_err UnexpectedEof)
           else read_exact_chunks (n - length d) (acc @ d) s')"
  by pat_completeness auto
termination
  by (relation "measure (\<lambda>(n, acc, s). n)") (auto simp: neq_Nil_conv)

declare read_exact_chunks.simps [simp del]

definition read_udp_frame_into ::
  "bytes list \<Rightarrow> (io_error, (bytes \<times> bytes list) option) result" where
  "read_udp_frame_into s =
     rbind (fill_header [] s) (\<lambda>h. case h of
       None \<Rightarrow> Inr None
     | Some (len_buf, s) \<Rightarrow>
         let len = unat (from_be_bytes (len_buf ! 0) (len_buf ! 1) (len_buf ! 2) (len_buf ! 3)) in
         if MAX_UDP_PACKET_SIZE < len then Inl (io_err InvalidData)
         else rbind (read_exact_chunks len [] s) (\<lambda>r. Inr (Some r)))"

section \<open>Reading in batches\<close>

definition udp_decode :: "bytes \<Rightarrow> (io_error, (bytes \<times> bytes) option) result" where
  \<comment> \<open>one round of the parsing loop of \<open>read_batch\<close>\<close>
  "udp_decode buf =
     (if length buf < 4 then Inr None
      else
        let len = unat (from_be_bytes (buf ! 0) (buf ! 1) (buf ! 2) (buf ! 3)) in
        if MAX_UDP_PACKET_SIZE < len then Inl (io_err InvalidData)
        else if length buf < 4 + len then Inr None
        else Inr (Some (take len (drop 4 buf), drop len (drop 4 buf))))"

datatype chunk = Data bytes | ReadErr io_error

fun read_batch ::
  "nat \<Rightarrow> bytes \<Rightarrow> chunk list \<Rightarrow> (io_error, bytes list) result \<times> bytes \<times> chunk list" where
  "read_batch limit buf s =
     (case drain udp_decode limit buf of
        (out, buf', Some e) \<Rightarrow> (Inl e, buf', s)
      | (out, buf', None) \<Rightarrow>
          if out \<noteq> [] then (Inr out, buf', s)
          else (case s of
              [] \<Rightarrow> (if buf' = [] then Inr [] else Inl (io_err UnexpectedEof), buf', [])
            | ReadErr e # s' \<Rightarrow> (Inl e, buf', s')
            | Data d # s' \<Rightarrow>
                if d = [] then
                  (if buf' = [] then Inr [] else Inl (io_err UnexpectedEof), buf', s')
                else read_batch limit (buf' @ d) s'))"

declare read_batch.simps [simp del]

section \<open>The framing contract\<close>

definition udp_wire :: "bytes \<Rightarrow> bytes" where
  "udp_wire d = to_be_bytes (of_nat (length d)) @ d"

definition udp_ok :: "bytes \<Rightarrow> bool" where
  "udp_ok d \<longleftrightarrow> length d \<le> MAX_UDP_PACKET_SIZE"

lemma udp_wire_header:
  assumes "udp_ok d"
  obtains a b c e where "udp_wire d = a # b # c # e # d"
    "unat (from_be_bytes a b c e) = length d"
proof -
  obtain a b c e where t: "to_be_bytes (of_nat (length d)) = [a, b, c, e]"
    by (simp add: to_be_bytes_def)
  have "length d < 4294967296"
    using assms by (simp add: udp_ok_def MAX_UDP_PACKET_SIZE_def)
  with from_to_be_bytes [OF t] have "unat (from_be_bytes a b c e) = length d"
    by (simp add: unat_of_nat)
  with t show thesis by (intro that [of a b c e]) (simp_all add: udp_wire_def)
qed

lemma udp_decode_short: "length b < 4 \<Longrightarrow> udp_decode b = Inr None"
  by (simp add: udp_decode_def)

lemma udp_decode_Cons:
  "udp_decode (a # b # c # e # p) =
     (let len = unat (from_be_bytes a b c e) in
      if MAX_UDP_PACKET_SIZE < len then Inl (io_err InvalidData)
      else if length p < len then Inr None
      else Inr (Some (take len p, drop len p)))"
  by (simp add: udp_decode_def Let_def)

lemma four_bytes:
  assumes "\<not> length xs < 4"
  obtains a b c e p where "xs = a # b # c # e # p"
  using assms by (auto simp: not_less numeral_eq_Suc Suc_le_length_iff)

lemma udp_decode_wire:
  assumes "udp_ok d"
  shows "udp_decode (udp_wire d @ r) = Inr (Some (d, r))"
proof -
  from assms obtain a b c e where "udp_wire d = a # b # c # e # d"
    "unat (from_be_bytes a b c e) = length d" by (rule udp_wire_header)
  with assms show ?thesis by (simp add: udp_decode_Cons udp_ok_def Let_def)
qed

lemma udp_decode_canon:
  assumes "udp_decode b = Inr (Some (d, r))"
  shows "b = udp_wire d @ r \<and> udp_ok d"
proof -
  have "\<not> length b < 4" using assms by (auto simp: udp_decode_short)
  then obtain x y z w p where b: "b = x # y # z # w # p" by (rule four_bytes)
  have "udp_ok d" "p = d @ r" and "unat (from_be_bytes x y z w) = length d"
    using assms unfolding b udp_decode_Cons by (auto simp: Let_def udp_ok_def split: if_splits)
  moreover from this have "to_be_bytes (of_nat (length d)) = [x, y, z, w]"
    by (metis to_from_be_bytes of_nat_unat ucast_id)
  ultimately show ?thesis using b by (simp add: udp_wire_def)
qed

lemma udp_decode_fail:
  assumes "udp_decode b = Inl e"
  shows "udp_decode (b @ s) = Inl e"
proof -
  have "\<not> length b < 4" using assms by (auto simp: udp_decode_short)
  then obtain x y z w p where b: "b = x # y # z # w # p" by (rule four_bytes)
  show ?thesis
    using assms unfolding b append_Cons udp_decode_Cons by (auto simp: Let_def split: if_splits)
qed

interpretation uf: framing udp_wire udp_decode udp_ok
proof unfold_locales
  fix d b r t e
  show "udp_ok d \<Longrightarrow> udp_decode (udp_wire d @ r) = Inr (Some (d, r))" by (rule udp_decode_wire)
  show "udp_decode b = Inr (Some (d, r)) \<Longrightarrow> b = udp_wire d @ r \<and> udp_ok d"
    by (rule udp_decode_canon)
  show "udp_decode b = Inl e \<Longrightarrow> udp_decode (b @ t) = Inl e" by (rule udp_decode_fail)
  show "udp_decode [] = Inr None" by (simp add: udp_decode_def)
qed

lemma append_frames_wire:
  "append_frames s ds =
     (if list_all udp_ok ds then Inr (s @ concat (map udp_wire ds)) else Inl (io_err InvalidData))"
  by (induction ds arbitrary: s) (auto simp: append_udp_frame_def udp_ok_def udp_wire_def)

section \<open>Reading one datagram is independent of the read boundaries\<close>

lemma fill_header_ok:
  assumes "[] \<notin> set s" "length hdr \<le> 4" "4 \<le> length (hdr @ concat s)"
  shows "\<exists>s'. fill_header hdr s = Inr (Some (take 4 (hdr @ concat s), s')) \<and>
    concat s' = drop 4 (hdr @ concat s) \<and> [] \<notin> set s'"
  using assms
proof (induction hdr s rule: fill_header.induct)
  case (1 hdr s)
  show ?case
  proof (cases "4 \<le> length hdr")
    case True
    with 1(2-) show ?thesis by (subst fill_header.simps) simp
  next
    case False
    with 1(4) obtain c cs where s: "s = c # cs" by (cases s) auto
    obtain d s' where r: "read_some (4 - length hdr) s = (d, s')" by fastforce
    with s False 1(2) have d: "d \<noteq> []" "[] \<notin> set s'" by (auto split: if_splits)
    have len: "length (hdr @ d) \<le> 4" using read_some_length [OF r] False by simp
    have cc: "d @ concat s' = concat s" by (rule read_some_concat [OF r])
    have "\<exists>s''. fill_header (hdr @ d) s' = Inr (Some (take 4 ((hdr @ d) @ concat s'), s'')) \<and>
        concat s'' = drop 4 ((hdr @ d) @ concat s') \<and> [] \<notin> set s''"
      using 1(1) [OF False r [symmetric] refl d(1) d(2) len] 1(4) cc by simp
    with False r d cc show ?thesis by (subst fill_header.simps) simp
  qed
qed

lemma read_exact_chunks_ok:
  assumes "[] \<notin> set s" "n \<le> length (concat s)"
  shows "\<exists>s'. read_exact_chunks n acc s = Inr (acc @ take n (concat s), s') \<and>
    concat s' = drop n (concat s) \<and> [] \<notin> set s'"
  using assms
proof (induction n acc s rule: read_exact_chunks.induct)
  case (1 n acc s)
  show ?case
  proof (cases "n = 0")
    case True
    with 1(2-) show ?thesis by (subst read_exact_chunks.simps) simp
  next
    case False
    with 1(3) obtain c cs where s: "s = c # cs" by (cases s) auto
    obtain d s' where r: "read_some n s = (d, s')" by fastforce
    with s False 1(2) have d: "d \<noteq> []" "[] \<notin> set s'" by (auto split: if_splits)
    have len: "length d \<le> n" by (rule read_some_length [OF r])
    have cc: "concat s = d @ concat s'" by (simp add: read_some_concat [OF r])
    have "\<exists>s''. read_exact_chunks (n - length d) (acc @ d) s' =
        Inr ((acc @ d) @ take (n - length d) (concat s'), s'') \<and>
        concat s'' = drop (n - length d) (concat s') \<and> [] \<notin> set s''"
      using 1(1) [OF False r [symmetric] refl d(1) d(2)] 1(3) cc by simp
    with False r d cc len show ?thesis by (subst read_exact_chunks.simps) simp
  qed
qed

section \<open>Batches reassemble the stream\<close>

fun chunk_bytes :: "chunk \<Rightarrow> bytes" where
  "chunk_bytes (Data d) = d"
| "chunk_bytes (ReadErr e) = []"

definition live :: "chunk \<Rightarrow> bool" where
  \<comment> \<open>a read that delivers at least one byte\<close>
  "live c \<longleftrightarrow> chunk_bytes c \<noteq> []"

lemma read_batch_step:
  assumes "0 < limit" "list_all live s" "list_all udp_ok ds"
    and "buf @ concat (map chunk_bytes s) = concat (map udp_wire ds)"
  shows "\<exists>k b' s'. read_batch limit buf s = (Inr (take k ds), b', s') \<and>
    k \<le> limit \<and> k \<le> length ds \<and> (k = 0 \<longrightarrow> ds = []) \<and> list_all live s' \<and>
    b' @ concat (map chunk_bytes s') = concat (map udp_wire (drop k ds))"
  using assms(2,4)
proof (induction s arbitrary: buf)
  case Nil
  obtain xs r e where d: "drain udp_decode limit buf = (xs, r, e)" by (metis surj_pair)
  from uf.drain_prefix [OF d, of "[]" ds] Nil assms(3)
  have p: "e = None" "xs = take (length xs) ds" "r = concat (map udp_wire (drop (length xs) ds))"
    "length xs \<le> length ds" by auto
  have k: "length xs \<le> limit" using drain_length_le [OF d] .
  show ?case
  proof (cases "xs = []")
    case True
    with d p Nil uf.drain_progress [of limit ds r e] assms(1,3) have "ds = []" by simp
    with d p True k show ?thesis by (auto simp: read_batch.simps)
  next
    case False
    with d p k show ?thesis
      by (intro exI [of _ "length xs"]) (auto simp: read_batch.simps)
  qed
next
  case (Cons c s)
  obtain xs r e where d: "drain udp_decode limit buf = (xs, r, e)" by (metis surj_pair)
  from uf.drain_prefix [OF d _ assms(3)] Cons.prems
  have p: "e = None" "xs = take (length xs) ds"
    "r @ concat (map chunk_bytes (c # s)) = concat (map udp_wire (drop (length xs) ds))"
    "length xs \<le> length ds" by blast+
  have k: "length xs \<le> limit" using drain_length_le [OF d] .
  show ?case
  proof (cases "xs = []")
    case True
    from Cons.prems obtain b where c: "c = Data b" "b \<noteq> []"
      by (cases c) (auto simp: live_def)
    from True p(3) have "r @ concat (map chunk_bytes (c # s)) = concat (map udp_wire ds)" by simp
    with c have "(r @ b) @ concat (map chunk_bytes s) = concat (map udp_wire ds)" by simp
    with Cons have "\<exists>k b' s'. read_batch limit (r @ b) s = (Inr (take k ds), b', s') \<and>
        k \<le> limit \<and> k \<le> length ds \<and> (k = 0 \<longrightarrow> ds = []) \<and> list_all live s' \<and>
        b' @ concat (map chunk_bytes s') = concat (map udp_wire (drop k ds))" by simp
    with d p True c show ?thesis by (simp add: read_batch.simps [of limit buf])
  next
    case False
    with d p k Cons.prems show ?thesis
      by (intro exI [of _ "length xs"]) (auto simp: read_batch.simps [of limit buf])
  qed
qed

fun read_batches ::
  "nat \<Rightarrow> nat \<Rightarrow> bytes \<Rightarrow> chunk list \<Rightarrow> (io_error, bytes list list) result" where
  \<comment> \<open>the receivers' loop: batches until end of file; at most \<open>fuel\<close> calls\<close>
  "read_batches 0 limit buf s = Inr []"
| "read_batches (Suc fuel) limit buf s =
     (case read_batch limit buf s of
        (Inl e, _, _) \<Rightarrow> Inl e
      | (Inr [], _, _) \<Rightarrow> Inr []
      | (Inr (d # ds), b', s') \<Rightarrow>
          rbind (read_batches fuel limit b' s') (\<lambda>bs. Inr ((d # ds) # bs)))"

lemma read_batches_all:
  assumes "0 < limit" "list_all live s" "list_all udp_ok ds"
    and "buf @ concat (map chunk_bytes s) = concat (map udp_wire ds)"
    and "length ds < fuel"
  shows "\<exists>bs. read_batches fuel limit buf s = Inr bs \<and> concat bs = ds \<and>
    list_all (\<lambda>b. b \<noteq> [] \<and> length b \<le> limit) bs"
  using assms(2-)
proof (induction fuel arbitrary: ds buf s)
  case 0
  then show ?case by simp
next
  case (Suc fuel)
  obtain k b' s' where r: "read_batch limit buf s = (Inr (take k ds), b', s')"
    and k: "k \<le> limit" "k \<le> length ds" "k = 0 \<longrightarrow> ds = []" and l: "list_all live s'"
    and rest: "b' @ concat (map chunk_bytes s') = concat (map udp_wire (drop k ds))"
    using read_batch_step [OF assms(1) Suc.prems(1,2,3)] by blast
  show ?case
  proof (cases "take k ds")
    case Nil
    with k r show ?thesis by auto
  next
    case (Cons x xs)
    then have "0 < k" by (cases k) auto
    with Suc.prems(4) k(2) have "length (drop k ds) < fuel" by simp
    moreover have "list_all udp_ok (drop k ds)"
      using Suc.prems(2) by (metis append_take_drop_id list_all_append)
    ultimately obtain bs where "read_batches fuel limit b' s' = Inr bs" "concat bs = drop k ds"
      "list_all (\<lambda>b. b \<noteq> [] \<and> length b \<le> limit) bs"
      using Suc.IH [OF l _ rest] by blast
    moreover have "length (take k ds) \<le> limit" using k by simp
    ultimately show ?thesis
      using r Cons append_take_drop_id [of k ds] by auto
  qed
qed

section \<open>Properties\<close>

text \<open>
  C23 --- Datagrams keep their boundaries over a byte stream. If a batch of datagrams is written
  in one go and the bytes then arrive in arbitrary non-empty pieces, the batched reader returns
  exactly those datagrams in order, in non-empty batches of at most the requested size, and
  then reports a clean end of file; enough calls are one more than the number of datagrams.
\<close>

theorem udp_batches_reassemble:
  assumes "write_udp_frames_buffered [] ds = Inr w"
    and "concat (map chunk_bytes s) = w" and "list_all live s" and "0 < limit"
  shows "\<exists>bs. read_batches (Suc (length ds)) limit [] s = Inr bs \<and> concat bs = ds \<and>
    list_all (\<lambda>b. b \<noteq> [] \<and> length b \<le> limit) bs"
proof -
  from assms(1) have "list_all udp_ok ds" "w = concat (map udp_wire ds)"
    by (auto simp: write_udp_frames_buffered_def append_frames_wire split: if_splits)
  with assms(2-) show ?thesis by (intro read_batches_all) simp_all
qed

theorem udp_batches_reassemble_witness:
  "\<exists>bs. read_batches (Suc (length [[7, 8], [9 :: u8]])) 32 []
      [Data [0, 0], Data [0, 2, 7], Data [8, 0, 0, 0, 1, 9]] = Inr bs \<and>
    concat bs = [[7, 8], [9]] \<and> list_all (\<lambda>b. b \<noteq> [] \<and> length b \<le> 32) bs"
  by (rule udp_batches_reassemble)
    (simp_all add: write_udp_frames_buffered_def append_udp_frame_def MAX_UDP_PACKET_SIZE_def
      to_be_bytes_def live_def)

text \<open>
  The frame-by-frame reader agrees with the writers: whatever the read boundaries, it
  returns the first datagram and leaves the bytes after it in the stream.
\<close>

theorem read_udp_frame_roundtrip:
  assumes "write_udp_frame_buffered [] d = Inr w"
    and "concat s = w @ rest" and "[] \<notin> set s"
  shows "\<exists>s'. read_udp_frame_into s = Inr (Some (d, s')) \<and> concat s' = rest"
proof -
  from assms(1) have ok: "udp_ok d" and w: "w = udp_wire d"
    by (auto simp: write_udp_frame_buffered_def append_udp_frame_def udp_ok_def udp_wire_def
        split: if_splits)
  from ok obtain a b c e where h: "udp_wire d = a # b # c # e # d"
    "unat (from_be_bytes a b c e) = length d" by (rule udp_wire_header)
  obtain s1 where f: "fill_header [] s = Inr (Some ([a, b, c, e], s1))"
    "concat s1 = d @ rest" "[] \<notin> set s1"
    using fill_header_ok [OF assms(3), of "[]"] assms(2) w h(1) by auto
  obtain s2 where "read_exact_chunks (length d) [] s1 = Inr (d, s2)" "concat s2 = rest"
    using read_exact_chunks_ok [OF f(3), of "length d" "[]"] f(2) by auto
  with f h(2) ok show ?thesis by (simp add: read_udp_frame_into_def udp_ok_def)
qed

theorem read_udp_frame_roundtrip_witness:
  "\<exists>s'. read_udp_frame_into [[0, 0, 0], [2, 5], [6, 1]] = Inr (Some ([5, 6], s')) \<and>
    concat s' = [1]"
  by (rule read_udp_frame_roundtrip)
    (simp_all add: write_udp_frame_buffered_def append_udp_frame_def MAX_UDP_PACKET_SIZE_def
      to_be_bytes_def)

end
