(* ===== verification/Addr.thy ===== *)
theory Addr
  imports Errors
begin

text \<open>
  Address strings (\<open>rfrp-common/src/util/addr.rs\<close>) and the process-wide keepalive parameters
  (\<open>rfrp-common/src/util/tcp.rs\<close>).
\<close>

section \<open>HOST:PORT\<close>

definition split_host_port :: "string \<Rightarrow> (error, string \<times> u16) result" where
  "split_host_port s0 =
     (let s = trim s0 in
      rbind
        (case strip_prefix ''['' s of
           Some rest \<Rightarrow> ok_or (split_once '']:'' rest) (Config (BadAddress s))
         | None \<Rightarrow> ok_or (rsplit_once CHR '':'' s) (Config (BadAddress s)))
        (\<lambda>(host, port).
          let host = trim host in
          rbind (ensure (host \<noteq> []) (Config (EmptyHost s))) (\<lambda>_.
          rbind (ok_or (parse_u16 port) (Config (BadPort s))) (\<lambda>port.
          rbind (ensure (port \<noteq> 0) (Config (BadPort s))) (\<lambda>_.
            Inr (host, port))))))"

lemma split_host_port_sound:
  "split_host_port s = Inr (h, p) \<Longrightarrow> h \<noteq> [] \<and> p \<noteq> 0"
  by (auto simp: split_host_port_def rbind_Inr_iff Let_def split: option.splits)

lemma contains_str_split:
  assumes "c \<notin> set e" and "contains_str e (a @ c # b)"
  shows "contains_str e a \<or> contains_str e b"
proof -
  from assms(2) obtain x y where xy: "a @ c # b = x @ e @ y" by (auto simp: contains_str_iff)
  then consider u where "a = x @ u" "u @ c # b = e @ y" | u where "a @ u = x" "c # b = u @ e @ y"
    by (auto simp: append_eq_append_conv2)
  then show ?thesis
  proof cases
    case 1
    then consider v where "u = e @ v" | v where "u @ v = e" "c # b = v @ y"
      by (auto simp: append_eq_append_conv2)
    then show ?thesis
    proof cases
      case 1
      with \<open>a = x @ u\<close> show ?thesis by (auto simp: contains_str_iff)
    next
      case (2 v)
      with assms(1) have "v = []" by (cases v) auto
      with 2 have "a = x @ e @ []" using \<open>a = x @ u\<close> by simp
      then show ?thesis unfolding contains_str_iff by blast
    qed
  next
    case 2
    show ?thesis
    proof (cases u)
      case Nil
      with 2 assms(1) have "e = []" by (cases e) auto
      then show ?thesis by (cases a) (auto simp: has_prefix_def)
    next
      case (Cons d ds)
      with 2 show ?thesis by (auto simp: contains_str_iff)
    qed
  qed
qed

lemma contains_str_mono: "has_prefix e s \<Longrightarrow> contains_str e s"
  by (cases s) (auto simp: has_prefix_def)

lemma contains_str_rev: "contains_str (rev e) (rev s) = contains_str e s"
proof -
  have "contains_str e s \<Longrightarrow> contains_str (rev e) (rev s)" for e s
    by (auto simp: contains_str_iff)
      (metis append.assoc rev_append rev_rev_ident)
  from this [of e s] this [of "rev e" "rev s"] show ?thesis by auto
qed

lemma trim_id: "\<not> has_whitespace s \<Longrightarrow> trim s = s"
proof -
  assume n: "\<not> has_whitespace s"
  then have "\<not> contains_str e s" if "e \<in> set ws_encodings" for e
    using that by (auto simp: has_whitespace_def list_ex_iff)
  then have "\<not> has_prefix e s" "\<not> has_prefix (rev e) (rev s)" if "e \<in> set ws_encodings" for e
    using that contains_str_mono contains_str_rev by blast+
  then have "trim_with ws_encodings s = s" "trim_with (map rev ws_encodings) (rev s) = rev s"
    by (auto intro!: trim_with_id simp: list_all_iff)
  then show ?thesis by (simp add: trim_def trim_start_def trim_end_def)
qed

definition no_ws :: "char \<Rightarrow> bool" where
  \<comment> \<open>a byte that occurs in no encoding of white space\<close>
  "no_ws c \<longleftrightarrow> list_all (\<lambda>e. c \<notin> set e) ws_encodings"

lemma ws_encodings_not_Nil: "e \<in> set ws_encodings \<Longrightarrow> e \<noteq> []"
  by (auto simp: ws_encodings_def)

lemma has_whitespace_insert:
  "no_ws c \<Longrightarrow> has_whitespace (a @ c # b) \<Longrightarrow> has_whitespace a \<or> has_whitespace b"
  using contains_str_split [of c _ a b]
  by (auto simp: has_whitespace_def list_ex_iff no_ws_def list_all_iff)

lemma has_whitespace_Nil [simp]: "\<not> has_whitespace []"
  using ws_encodings_not_Nil by (auto simp: has_whitespace_def list_ex_iff)

lemma has_whitespace_no_ws: "list_all no_ws s \<Longrightarrow> \<not> has_whitespace s"
proof (induction s)
  case Nil
  then show ?case by simp
next
  case (Cons c s)
  then show ?case using has_whitespace_insert [of c "[]" s] by auto
qed

lemma no_ws_char: "33 \<le> (of_char c :: nat) \<Longrightarrow> (of_char c :: nat) < 128 \<Longrightarrow> no_ws c"
  by (auto simp: no_ws_def ws_encodings_def list_all_iff)

lemma no_ws_colon: "no_ws CHR '':''"
  by (rule no_ws_char) simp_all

lemma no_ws_digit: "is_digit c \<Longrightarrow> no_ws c"
  by (rule no_ws_char) (auto simp: is_digit_def Let_def)

lemma no_ws_show: "list_all no_ws (show_nat n)"
  using show_nat_digits [of n] by (auto simp: list_all_iff intro: no_ws_digit)

lemma colon_not_digit: "CHR '':'' \<notin> set (show_nat n)"
  using show_nat_digits [of n] by (auto simp: list_all_iff is_digit_def)

lemma printed_no_ws:
  "\<not> has_whitespace h \<Longrightarrow> \<not> has_whitespace (h @ CHR '':'' # show_nat n)"
  using has_whitespace_insert [OF no_ws_colon] has_whitespace_no_ws [OF no_ws_show] by blast

lemma split_once_bracket:
  "CHR '']'' \<notin> set h \<Longrightarrow> split_once '']:'' (h @ '']:'' @ r) = Some (h, r)"
  by (induction h) (auto simp: has_prefix_def)

lemma split_host_port_name:
  assumes "\<not> has_whitespace h" and "h \<noteq> []" and "p \<noteq> 0"
    and "CHR '':'' \<notin> set h" and "hd h \<noteq> CHR ''[''"
  shows "split_host_port (h @ CHR '':'' # show_nat (unat p)) = Inr (h, p)"
proof -
  let ?s = "h @ CHR '':'' # show_nat (unat p)"
  from assms(2,5) have "strip_prefix ''['' ?s = None"
    by (cases h) (auto simp: strip_prefix_def has_prefix_def)
  moreover have "rsplit_once CHR '':'' ?s = Some (h, show_nat (unat p))"
    by (rule rsplit_once_char [OF colon_not_digit])
  ultimately show ?thesis
    using assms(1-3)
    by (simp add: split_host_port_def trim_id printed_no_ws parse_u16_show Let_def)
qed

lemma split_host_port_bracketed:
  assumes "\<not> has_whitespace h" and "h \<noteq> []" and "p \<noteq> 0" and "CHR '']'' \<notin> set h"
  shows "split_host_port (''['' @ h @ '']:'' @ show_nat (unat p)) = Inr (h, p)"
proof -
  let ?s = "''['' @ h @ '']:'' @ show_nat (unat p)"
  have "\<not> has_whitespace (''['' @ h @ '']'')"
    using assms(1) has_whitespace_insert [of "CHR ''[''" "[]" "h @ '']''"]
      has_whitespace_insert [of "CHR '']''" h "[]"] no_ws_char by auto
  then have "\<not> has_whitespace ?s" using printed_no_ws [of "''['' @ h @ '']''"] by simp
  then have "trim ?s = ?s" by (rule trim_id)
  moreover have "strip_prefix ''['' ?s = Some (h @ '']:'' @ show_nat (unat p))"
    by (simp add: strip_prefix_def has_prefix_def)
  ultimately show ?thesis
    using assms by (simp add: split_host_port_def trim_id parse_u16_show Let_def
        split_once_bracket [simplified])
qed

section \<open>Keepalive parameters\<close>

record keepalive_config =
  idle :: duration
  ka_interval :: duration

definition keepalive_default :: keepalive_config where
  "keepalive_default =
     \<lparr>idle = from_secs (unat TCP_KEEPALIVE_INTERVAL),
      ka_interval = from_secs (unat TCP_KEEPALIVE_PROBE_INTERVAL)\<rparr>"

definition keepalive_from_secs :: "u64 option \<Rightarrow> keepalive_config" where
  "keepalive_from_secs keepalive_secs =
     (let secs = unwrap_or keepalive_secs TCP_KEEPALIVE_INTERVAL in
      \<lparr>idle = from_secs (unat secs), ka_interval = from_secs (unat TCP_KEEPALIVE_PROBE_INTERVAL)\<rparr>)"

text \<open>The process-wide cell is a \<open>OnceLock\<close>: only the first \<open>init_keepalive\<close> has an effect.\<close>

type_synonym keepalive_cell = "keepalive_config option"

definition init_keepalive :: "keepalive_config \<Rightarrow> keepalive_cell \<Rightarrow> keepalive_cell" where
  "init_keepalive cfg cell = (case cell of None \<Rightarrow> Some cfg | Some c \<Rightarrow> Some c)"

definition keepalive :: "keepalive_cell \<Rightarrow> keepalive_config" where
  "keepalive cell = unwrap_or cell keepalive_default"

datatype sock_opt = Nodelay | Keepalive duration duration

definition configure_tcp_stream :: "keepalive_cell \<Rightarrow> sock_opt list" where
  \<comment> \<open>the socket options set, in order, when no \<open>setsockopt\<close> fails\<close>
  "configure_tcp_stream cell =
     (let cfg = keepalive cell in
      Nodelay # (if idle cfg \<noteq> 0 then [Keepalive (idle cfg) (ka_interval cfg)] else []))"

lemma configure_after_init:
  "configure_tcp_stream (init_keepalive (keepalive_from_secs s) None) =
     (if s = Some 0 then [Nodelay]
      else [Nodelay, Keepalive (from_secs (unat (unwrap_or s TCP_KEEPALIVE_INTERVAL))) (from_secs 5)])"
  by (auto simp: configure_tcp_stream_def init_keepalive_def keepalive_from_secs_def keepalive_def
      Let_def from_secs_def TCP_KEEPALIVE_PROBE_INTERVAL_def TCP_KEEPALIVE_INTERVAL_def
      unwrap_or_def unat_eq_0 split: option.splits)

section \<open>Properties\<close>

text \<open>
  An address printed as \<open>host:port\<close> is read back exactly, for every host without white
  space, colon or leading bracket (names and IPv4) and every port from 1 to 65535; a host in
  brackets may contain colons (IPv6).
\<close>

theorem split_host_port_print:
  assumes "\<not> has_whitespace h" and "h \<noteq> []" and "p \<noteq> 0" and "CHR '']'' \<notin> set h"
  shows "split_host_port (''['' @ h @ '']:'' @ show_nat (unat p)) = Inr (h, p) \<and>
    (CHR '':'' \<notin> set h \<and> hd h \<noteq> CHR ''['' \<longrightarrow>
       split_host_port (h @ CHR '':'' # show_nat (unat p)) = Inr (h, p))"
  using split_host_port_bracketed [OF assms] split_host_port_name [OF assms(1-3)] by blast

theorem split_host_port_print_witness:
  "split_host_port (''['' @ ''a.example'' @ '']:'' @ show_nat (unat (7000 :: u16)))
     = Inr (''a.example'', 7000) \<and>
   split_host_port (''a.example'' @ CHR '':'' # show_nat (unat (7000 :: u16)))
     = Inr (''a.example'', 7000)"
proof -
  have "\<not> has_whitespace ''a.example''"
    by (rule has_whitespace_no_ws) (simp add: no_ws_char)
  from split_host_port_print [OF this, of 7000] show ?thesis by simp
qed

end
