(* ===== verification/Accept.thy ===== *)
theory Accept
  imports Constants
begin

text \<open>
  The retry counter of the accept and receive loops (\<open>rfrp-common/src/util/accept.rs\<close>).
\<close>

definition BACKOFF_MAX_MS :: u64 where "BACKOFF_MAX_MS = 1000"
definition LOG_EVERY :: u32 where "LOG_EVERY = 60"

record accept_retry =
  consecutive :: u32

definition accept_retry_new :: accept_retry where
  "accept_retry_new = \<lparr>consecutive = 0\<rparr>"

definition saturating_succ :: "u32 \<Rightarrow> u32" where
  \<comment> \<open>\<open>saturating_add(1)\<close>\<close>
  "saturating_succ w = (if w = - 1 then - 1 else w + 1)"

definition record_ok :: "accept_retry \<Rightarrow> accept_retry" where
  "record_ok r = r\<lparr>consecutive := 0\<rparr>"

definition record_err :: "accept_retry \<Rightarrow> accept_retry \<times> duration" where
  "record_err r =
     (let r = r\<lparr>consecutive := saturating_succ (consecutive r)\<rparr> in
      (r, from_millis (unat (min ((ucast (consecutive r) :: u64) * 100) BACKOFF_MAX_MS))))"

definition should_log :: "accept_retry \<Rightarrow> bool" where
  "should_log r =
     (let n = consecutive r in
      n = 1 \<or> n mod LOG_EVERY = 0 \<or> n = MAX_CONSECUTIVE_ACCEPT_ERRORS)"

definition is_fatal :: "accept_retry \<Rightarrow> bool" where
  "is_fatal r = (MAX_CONSECUTIVE_ACCEPT_ERRORS \<le> consecutive r)"

section \<open>Behaviour over a run\<close>

definition feed :: "accept_retry \<Rightarrow> bool \<Rightarrow> accept_retry" where
  \<comment> \<open>one turn of a loop: an accepted connection or an error\<close>
  "feed r ok = (if ok then record_ok r else fst (record_err r))"

definition failures :: "bool list \<Rightarrow> nat" where
  \<comment> \<open>failures since the last success\<close>
  "failures evs = length (takeWhile Not (rev evs))"

lemma unat_saturating_succ: "unat (saturating_succ w) = min (Suc (unat w)) (2 ^ 32 - 1)"
proof (cases "w = - 1")
  case True
  then show ?thesis by (simp add: saturating_succ_def unsigned_minus_1_eq_mask mask_eq_exp_minus_1)
next
  case False
  have "unat (-1 :: u32) = 2 ^ 32 - 1" by (simp add: unsigned_minus_1_eq_mask mask_eq_exp_minus_1)
  with False unsigned_word_eqI [of w "- 1"] have "unat w \<noteq> 2 ^ 32 - 1" by metis
  with unat_u32_less [of w] have l: "unat w + unat (1 :: u32) < 2 ^ LENGTH(32)" by simp
  then have "unat (w + 1) = Suc (unat w)" using unat_add_lem [of w 1] by simp
  with l False show ?thesis by (simp add: saturating_succ_def)
qed

lemma failures_snoc: "failures (evs @ [ok]) = (if ok then 0 else Suc (failures evs))"
  by (simp add: failures_def)

lemma consecutive_feed:
  "unat (consecutive (foldl feed accept_retry_new evs)) = min (failures evs) (2 ^ 32 - 1)"
proof (induction evs rule: rev_induct)
  case Nil
  then show ?case by (simp add: accept_retry_new_def failures_def)
next
  case (snoc ok evs)
  then show ?case
    by (simp add: feed_def record_ok_def record_err_def Let_def unat_saturating_succ failures_snoc
        min_def)
qed

lemma backoff_value:
  "snd (record_err r) = from_millis (min (100 * min (Suc (unat (consecutive r))) (2 ^ 32 - 1)) 1000)"
proof -
  define c where "c = saturating_succ (consecutive r)"
  have c: "unat c = min (Suc (unat (consecutive r))) (2 ^ 32 - 1)"
    by (simp add: c_def unat_saturating_succ)
  have u: "unat (ucast c :: u64) = unat c"
    using unat_u32_less [of c] by (simp add: unsigned_ucast_eq take_bit_nat_eq_self)
  have "unat c * 100 < 2 ^ 64" using unat_u32_less [of c] by simp
  then have m: "unat ((ucast c :: u64) * 100) = unat c * 100"
    using u by (subst unat_mult_lem [THEN iffD1]) simp_all
  have "unat (min ((ucast c :: u64) * 100) BACKOFF_MAX_MS) = min (unat c * 100) 1000"
    using m by (auto simp: min_def BACKOFF_MAX_MS_def word_le_nat_alt)
  with c show ?thesis by (simp add: record_err_def Let_def c_def mult.commute)
qed

text \<open>
  The accept loops slow down and recover: after any history of accepts and errors, with
  \<open>n\<close> errors since the last success, the next error asks for a delay of \<open>100 * (n + 1)\<close>
  milliseconds but never more than a second; the loop is judged dead exactly from the 60th
  error in a row; the counter never wraps, however long the failure lasts.
\<close>

theorem accept_retry_behaviour:
  fixes evs :: "bool list"
  defines "r \<equiv> foldl feed accept_retry_new evs"
  shows "snd (record_err r) = min (from_millis (100 * (failures evs + 1))) (from_secs 1) \<and>
    (is_fatal r \<longleftrightarrow> 60 \<le> failures evs)"
proof
  have c: "unat (consecutive r) = min (failures evs) (2 ^ 32 - 1)"
    unfolding r_def by (rule consecutive_feed)
  then show "snd (record_err r) = min (from_millis (100 * (failures evs + 1))) (from_secs 1)"
    by (auto simp: backoff_value from_millis_def from_secs_def min_def)
  show "is_fatal r \<longleftrightarrow> 60 \<le> failures evs"
    using c by (auto simp: is_fatal_def MAX_CONSECUTIVE_ACCEPT_ERRORS_def word_le_nat_alt)
qed

end
