(* ===== verification/RateLimit.thy ===== *)
theory RateLimit
  imports Constants
begin

text \<open>
  The request limiter of the two HTTP endpoints (\<open>rfrp-common/src/util/ratelimit.rs\<close>): per
  source address a counter and the start of its window.
\<close>

definition MAX_ENTRIES :: nat where "MAX_ENTRIES = 4096"

record 'ip rate_limiter =
  rl_inner :: "('ip, u32 \<times> instant) hmap"
  rl_max :: u32
  rl_window :: duration

definition rate_limiter_new :: "u32 \<Rightarrow> duration \<Rightarrow> 'ip rate_limiter" where
  "rate_limiter_new mx window = \<lparr>rl_inner = [], rl_max = mx, rl_window = window\<rparr>"

definition allow :: "'ip \<Rightarrow> instant \<Rightarrow> 'ip rate_limiter \<Rightarrow> bool \<times> 'ip rate_limiter" where
  "allow ip now l =
     (let m = rl_inner l in
      case hm_get m ip of
        Some (count, start) \<Rightarrow>
          if rl_window l \<le> now - start then (True, l\<lparr>rl_inner := hm_insert ip (1, now) m\<rparr>)
          else if count < rl_max l then (True, l\<lparr>rl_inner := hm_insert ip (count + 1, start) m\<rparr>)
          else (False, l)
      | None \<Rightarrow>
          let m = (if MAX_ENTRIES \<le> hm_len m
                   then hm_retain (\<lambda>_ (_, start). now - start < rl_window l) m else m) in
          (True, l\<lparr>rl_inner := hm_insert ip (1, now) m\<rparr>))"

fun requests :: "('ip \<times> instant) list \<Rightarrow> 'ip rate_limiter \<Rightarrow> bool list \<times> 'ip rate_limiter" where
  \<comment> \<open>a sequence of requests and their verdicts\<close>
  "requests [] l = ([], l)"
| "requests ((ip, now) # rs) l =
     (let (a, l) = allow ip now l; (as, l) = requests rs l in (a # as, l))"

definition admitted :: "'ip \<Rightarrow> ('ip \<times> instant) list \<Rightarrow> bool list \<Rightarrow> nat" where
  "admitted ip rs as = length (filter (\<lambda>((i, _), a). i = ip \<and> a) (zip rs as))"

section \<open>The admission bound\<close>

definition limiter_ok :: "'ip rate_limiter \<Rightarrow> bool" where
  "limiter_ok l \<longleftrightarrow> hm_wf (rl_inner l) \<and> 0 < rl_max l \<and>
     (\<forall>ip c s. hm_get (rl_inner l) ip = Some (c, s) \<longrightarrow> 0 < c \<and> c \<le> rl_max l)"

definition budget :: "'ip \<Rightarrow> instant \<Rightarrow> 'ip rate_limiter \<Rightarrow> nat" where
  \<comment> \<open>what may still be admitted before \<open>t + window\<close>, from time \<open>t\<close> on\<close>
  "budget ip t l =
     (case hm_get (rl_inner l) ip of
        None \<Rightarrow> unat (rl_max l)
      | Some (c, s) \<Rightarrow> if t \<le> s then unat (rl_max l) - unat c else 2 * unat (rl_max l) - unat c)"

lemma allow_config [simp]:
  "rl_max (snd (allow ip now l)) = rl_max l" "rl_window (snd (allow ip now l)) = rl_window l"
  by (auto simp: allow_def Let_def split: option.splits)

lemma u32_succ:
  fixes c m :: u32
  assumes "c < m"
  shows "unat (c + 1) = Suc (unat c)" "c + 1 \<le> m"
proof -
  from assms have l: "unat c < unat m" by (simp add: word_less_nat_alt)
  then have "unat c + unat (1 :: u32) < 2 ^ LENGTH(32)" using unat_u32_less [of m] by simp
  then show s: "unat (c + 1) = Suc (unat c)" using unat_add_lem [of c 1] by simp
  with l show "c + 1 \<le> m" by (simp add: word_le_nat_alt)
qed

lemma allow_ok:
  assumes "limiter_ok l"
  shows "limiter_ok (snd (allow ip now l))"
proof (cases "hm_get (rl_inner l) ip")
  case None
  define m where "m = (if MAX_ENTRIES \<le> hm_len (rl_inner l)
      then hm_retain (\<lambda>_ (_, start). now - start < rl_window l) (rl_inner l) else rl_inner l)"
  have wf: "hm_wf m" and sub: "hm_get m i = Some v \<Longrightarrow> hm_get (rl_inner l) i = Some v" for i v
    using assms by (auto simp: m_def limiter_ok_def hm_get_retain split: option.splits if_splits)
  have "1 \<le> rl_max l" using assms by (simp add: limiter_ok_def word_less_nat_alt word_le_nat_alt)
  moreover have "hm_wf (hm_insert ip (1, now) m)" using wf by blast
  moreover have "0 < c \<and> c \<le> rl_max l" if "hm_get m i = Some (c, s)" for i c s
    using sub [OF that] assms by (auto simp: limiter_ok_def)
  moreover have "snd (allow ip now l) = l\<lparr>rl_inner := hm_insert ip (1, now) m\<rparr>"
    using None by (simp add: allow_def m_def Let_def)
  ultimately show ?thesis
    using assms by (auto simp: limiter_ok_def split: if_splits)
next
  case (Some cs)
  have "1 \<le> rl_max l" using assms by (simp add: limiter_ok_def word_less_nat_alt word_le_nat_alt)
  with Some assms u32_succ [of "fst cs" "rl_max l"] show ?thesis
    by (auto simp: allow_def limiter_ok_def word_less_nat_alt Let_def split: if_splits prod.splits)
qed

lemma allow_budget:
  assumes "limiter_ok l" and "t \<le> now" and "now < t + rl_window l"
  shows "budget ip t (snd (allow i now l)) + (if i = ip \<and> fst (allow i now l) then 1 else 0)
      \<le> budget ip t l"
proof (cases "hm_get (rl_inner l) i")
  case None
  have "1 \<le> unat (rl_max l)" using assms by (simp add: limiter_ok_def word_less_nat_alt)
  moreover have "unat c \<le> unat (rl_max l)" if "hm_get (rl_inner l) ip = Some (c, s)" for c s
    using that assms(1) by (auto simp: limiter_ok_def word_le_nat_alt)
  moreover have "hm_wf (rl_inner l)" using assms(1) by (simp add: limiter_ok_def)
  ultimately show ?thesis
    using None assms(2,3)
    by (cases "hm_get (rl_inner l) ip")
      (auto simp: allow_def budget_def hm_get_retain Let_def split: prod.splits)
next
  case (Some cs)
  obtain c s where cs: "cs = (c, s)" by fastforce
  have b: "0 < unat c" "unat c \<le> unat (rl_max l)"
    using Some cs assms(1) by (auto simp: limiter_ok_def word_le_nat_alt word_less_nat_alt)
  show ?thesis
    using Some cs b assms(2,3) u32_succ [of c "rl_max l"]
    by (cases "i = ip")
      (auto simp: allow_def budget_def word_le_nat_alt word_less_nat_alt Let_def
        split: option.splits)
qed

lemma requests_ok: "limiter_ok l \<Longrightarrow> limiter_ok (snd (requests rs l))"
proof (induction rs arbitrary: l)
  case (Cons r rs)
  from Cons.IH [OF allow_ok [OF Cons.prems, of "fst r" "snd r"]] show ?case
    by (cases r) (auto simp: Let_def split: prod.splits)
qed simp

lemma requests_config: "rl_max (snd (requests rs l)) = rl_max l \<and>
    rl_window (snd (requests rs l)) = rl_window l"
proof (induction rs arbitrary: l)
  case (Cons r rs)
  from Cons.IH [of "snd (allow (fst r) (snd r) l)"] show ?case
    by (cases r) (auto simp: Let_def split: prod.splits)
qed simp

lemma admitted_budget:
  assumes "limiter_ok l" and "\<forall>(i, now) \<in> set rs. t \<le> now \<and> now < t + rl_window l"
  shows "admitted ip rs (fst (requests rs l)) \<le> budget ip t l"
  using assms
proof (induction rs arbitrary: l)
  case Nil
  then show ?case by (simp add: admitted_def)
next
  case (Cons r rs)
  obtain i now where r: "r = (i, now)" by fastforce
  let ?l = "snd (allow i now l)"
  have "admitted ip rs (fst (requests rs ?l)) \<le> budget ip t ?l"
    using Cons.prems r by (intro Cons.IH) (auto simp: allow_ok)
  moreover have "budget ip t ?l + (if i = ip \<and> fst (allow i now l) then 1 else 0) \<le> budget ip t l"
    using Cons.prems r by (intro allow_budget) auto
  ultimately show ?case
    using r by (auto simp: admitted_def Let_def split: prod.splits)
qed

lemma budget_le: "limiter_ok l \<Longrightarrow> budget ip t l \<le> 2 * unat (rl_max l) - 1"
proof -
  assume ok: "limiter_ok l"
  then have "0 < unat (rl_max l)" by (simp add: limiter_ok_def word_less_nat_alt)
  moreover have "0 < unat c" if "hm_get (rl_inner l) ip = Some (c, s)" for c s
    using that ok by (auto simp: limiter_ok_def word_less_nat_alt)
  ultimately show ?thesis
    by (cases "hm_get (rl_inner l) ip") (fastforce simp: budget_def split: if_splits)+
qed

section \<open>Properties\<close>

text \<open>
  C25 --- The limiter bounds every source: after any history of requests, and with the requests
  of any other sources interleaved, at most \<open>2 * max - 1\<close> requests of one address pass in any
  period of one window length. (The window is fixed, not sliding, hence not \<open>max\<close>.) Clearing
  expired entries from a full table never gives an address more than that.
\<close>

theorem rate_limit_bound:
  assumes "0 < mx"
    and "l = snd (requests history (rate_limiter_new mx window))"
    and "\<forall>(i, now) \<in> set rs. t \<le> now \<and> now < t + window"
  shows "admitted ip rs (fst (requests rs l)) \<le> 2 * unat mx - 1"
proof -
  have "limiter_ok (rate_limiter_new mx window :: 'a rate_limiter)"
    using assms(1) by (simp add: limiter_ok_def rate_limiter_new_def)
  then have ok: "limiter_ok l" and c: "rl_max l = mx" "rl_window l = window"
    using assms(2) requests_config [of history "rate_limiter_new mx window :: 'a rate_limiter"]
    by (auto simp: requests_ok rate_limiter_new_def)
  have "admitted ip rs (fst (requests rs l)) \<le> budget ip t l"
    using assms(3) c by (intro admitted_budget [OF ok]) simp
  also have "\<dots> \<le> 2 * unat mx - 1" using budget_le [OF ok, of ip t] c by simp
  finally show ?thesis .
qed

theorem rate_limit_bound_witness:
  "admitted (1 :: nat) [(1, 59), (1, 59), (1, 60), (1, 61), (1, 62), (1, 63)]
     (fst (requests [(1 :: nat, 59), (1, 59), (1, 60), (1, 61), (1, 62), (1, 63)]
        (snd (requests [(1, 0)] (rate_limiter_new 3 60))))) \<le> 2 * unat (3 :: u32) - 1 \<and>
   admitted (1 :: nat) [(1, 59), (1, 59), (1, 60), (1, 61), (1, 62), (1, 63)]
     (fst (requests [(1 :: nat, 59), (1, 59), (1, 60), (1, 61), (1, 62), (1, 63)]
        (snd (requests [(1, 0)] (rate_limiter_new 3 60))))) = 5"
proof
  show "admitted (1 :: nat) [(1, 59), (1, 59), (1, 60), (1, 61), (1, 62), (1, 63)]
     (fst (requests [(1 :: nat, 59), (1, 59), (1, 60), (1, 61), (1, 62), (1, 63)]
        (snd (requests [(1, 0)] (rate_limiter_new 3 60))))) \<le> 2 * unat (3 :: u32) - 1"
    by (rule rate_limit_bound [where history = "[(1, 0)]" and window = 60 and t = 59]) simp_all
  show "admitted (1 :: nat) [(1, 59), (1, 59), (1, 60), (1, 61), (1, 62), (1, 63)]
     (fst (requests [(1 :: nat, 59), (1, 59), (1, 60), (1, 61), (1, 62), (1, 63)]
        (snd (requests [(1, 0)] (rate_limiter_new 3 60))))) = 5"
    by (simp add: allow_def rate_limiter_new_def admitted_def hm_get_def hm_insert_def
        MAX_ENTRIES_def hm_len_def)
qed

end
