(* ===== verification/Counting.thy ===== *)
theory Counting
  imports Constants
begin

text \<open>
  Traffic counters (\<open>rfrp-common/src/util/counting.rs\<close>). The counters are shared atomics: the
  global pair and, per proxy, an extra set; the store \<open>shared\<close> holds them, an extra set by its
  address. A \<open>CountingStream\<close> accumulates locally and adds to the store in batches. The second
  half runs any number of streams over one store, with their reads, writes and drops
  interleaved.
\<close>

definition FLUSH_THRESHOLD :: u64 where "FLUSH_THRESHOLD = 256 * 1024"
definition FLUSH_INTERVAL :: duration where "FLUSH_INTERVAL = from_secs 1"
definition TIME_CHECK_EVERY_OPS :: u32 where "TIME_CHECK_EVERY_OPS = 32"

record counters =
  ct_read :: u64
  ct_write :: u64
  ct_active :: int

record shared =
  sh_main :: counters
  sh_extra :: "nat \<Rightarrow> counters"

record counting_stream =
  cs_extra :: "nat option"
  cs_pending_read :: u64
  cs_pending_write :: u64
  cs_last_flush :: instant
  cs_ops :: u32

definition add_read :: "u64 \<Rightarrow> counters \<Rightarrow> counters" where
  "add_read n c = c\<lparr>ct_read := ct_read c + n\<rparr>"

definition add_write :: "u64 \<Rightarrow> counters \<Rightarrow> counters" where
  "add_write n c = c\<lparr>ct_write := ct_write c + n\<rparr>"

definition add_active :: "int \<Rightarrow> counters \<Rightarrow> counters" where
  "add_active n c = c\<lparr>ct_active := ct_active c + n\<rparr>"

definition on_counters ::
  "(counters \<Rightarrow> counters) \<Rightarrow> nat option \<Rightarrow> shared \<Rightarrow> shared" where
  \<comment> \<open>the main counters and, when there are any, the extra ones\<close>
  "on_counters f ex sh =
     (let sh = sh\<lparr>sh_main := f (sh_main sh)\<rparr> in
      case ex of
        None \<Rightarrow> sh
      | Some a \<Rightarrow> sh\<lparr>sh_extra := (sh_extra sh)(a := f (sh_extra sh a))\<rparr>)"

definition counting_new :: "instant \<Rightarrow> counting_stream" where
  "counting_new now =
     \<lparr>cs_extra = None, cs_pending_read = 0, cs_pending_write = 0, cs_last_flush = now, cs_ops = 0\<rparr>"

definition with_extra ::
  "nat \<Rightarrow> counting_stream \<Rightarrow> shared \<Rightarrow> counting_stream \<times> shared" where
  "with_extra a s sh =
     (s\<lparr>cs_extra := Some a\<rparr>,
      sh\<lparr>sh_extra := (sh_extra sh)(a := add_active 1 (sh_extra sh a))\<rparr>)"

definition flush ::
  "instant \<Rightarrow> counting_stream \<Rightarrow> shared \<Rightarrow> counting_stream \<times> shared" where
  "flush now s sh =
     (let sh = (if 0 < cs_pending_read s
                then on_counters (add_read (cs_pending_read s)) (cs_extra s) sh else sh);
          s = (if 0 < cs_pending_read s then s\<lparr>cs_pending_read := 0\<rparr> else s);
          sh = (if 0 < cs_pending_write s
                then on_counters (add_write (cs_pending_write s)) (cs_extra s) sh else sh);
          s = (if 0 < cs_pending_write s then s\<lparr>cs_pending_write := 0\<rparr> else s)
      in (s\<lparr>cs_last_flush := now, cs_ops := 0\<rparr>, sh))"

definition maybe_flush ::
  "instant \<Rightarrow> counting_stream \<Rightarrow> shared \<Rightarrow> counting_stream \<times> shared" where
  "maybe_flush now s sh =
     (if cs_pending_read s = 0 \<and> cs_pending_write s = 0 then (s, sh)
      else if FLUSH_THRESHOLD \<le> cs_pending_read s \<or> FLUSH_THRESHOLD \<le> cs_pending_write s
        then flush now s sh
      else
        let s = s\<lparr>cs_ops := (if cs_ops s = - 1 then - 1 else cs_ops s + 1)\<rparr> in
        if TIME_CHECK_EVERY_OPS \<le> cs_ops s
        then (let s = s\<lparr>cs_ops := 0\<rparr> in
              if FLUSH_INTERVAL \<le> now - cs_last_flush s then flush now s sh else (s, sh))
        else (s, sh))"

definition drop_stream :: "instant \<Rightarrow> counting_stream \<Rightarrow> shared \<Rightarrow> shared" where
  "drop_stream now s sh =
     (let (s, sh) = flush now s sh in on_counters (add_active (- 1)) (cs_extra s) sh)"

definition poll_read ::
  "instant \<Rightarrow> u64 option \<Rightarrow> counting_stream \<Rightarrow> shared \<Rightarrow> counting_stream \<times> shared" where
  \<comment> \<open>\<open>Some n\<close>: the inner read is ready with \<open>n\<close> bytes; \<open>None\<close>: pending or an error\<close>
  "poll_read now r s sh =
     (case r of
        Some n \<Rightarrow> maybe_flush now (s\<lparr>cs_pending_read := cs_pending_read s + n\<rparr>) sh
      | None \<Rightarrow> (s, sh))"

definition poll_write ::
  "instant \<Rightarrow> u64 option \<Rightarrow> counting_stream \<Rightarrow> shared \<Rightarrow> counting_stream \<times> shared" where
  "poll_write now r s sh =
     (case r of
        Some n \<Rightarrow> maybe_flush now (s\<lparr>cs_pending_write := cs_pending_write s + n\<rparr>) sh
      | None \<Rightarrow> (s, sh))"

section \<open>Many streams over one store\<close>

record net =
  net_streams :: "(nat, counting_stream) hmap"
  net_shared :: shared

datatype net_event =
    Open nat "nat option" instant
  | Read nat "u64 option" instant
  | Write nat "u64 option" instant
  | Drop nat instant

fun net_step :: "net_event \<Rightarrow> net \<Rightarrow> net" where
  \<comment> \<open>the caller counts the connection before it wraps the stream\<close>
  "net_step (Open i ex now) n =
     (if hm_has (net_streams n) i then n
      else
        let sh = net_shared n;
            sh = sh\<lparr>sh_main := add_active 1 (sh_main sh)\<rparr>;
            (s, sh) = (case ex of None \<Rightarrow> (counting_new now, sh)
                                | Some a \<Rightarrow> with_extra a (counting_new now) sh)
        in \<lparr>net_streams = hm_insert i s (net_streams n), net_shared = sh\<rparr>)"
| "net_step (Read i r now) n =
     (case hm_get (net_streams n) i of
        None \<Rightarrow> n
      | Some s \<Rightarrow>
          let (s, sh) = poll_read now r s (net_shared n) in
          \<lparr>net_streams = hm_insert i s (net_streams n), net_shared = sh\<rparr>)"
| "net_step (Write i r now) n =
     (case hm_get (net_streams n) i of
        None \<Rightarrow> n
      | Some s \<Rightarrow>
          let (s, sh) = poll_write now r s (net_shared n) in
          \<lparr>net_streams = hm_insert i s (net_streams n), net_shared = sh\<rparr>)"
| "net_step (Drop i now) n =
     (case hm_get (net_streams n) i of
        None \<Rightarrow> n
      | Some s \<Rightarrow>
          \<lparr>net_streams = hm_remove i (net_streams n),
           net_shared = drop_stream now s (net_shared n)\<rparr>)"

text \<open>A counter set is the main one (\<open>None\<close>) or the extra one at an address.\<close>

definition counter_at :: "nat option \<Rightarrow> shared \<Rightarrow> counters" where
  "counter_at k sh = (case k of None \<Rightarrow> sh_main sh | Some a \<Rightarrow> sh_extra sh a)"

definition feeds :: "nat option \<Rightarrow> counting_stream \<Rightarrow> bool" where
  "feeds k s \<longleftrightarrow> k = None \<or> cs_extra s = k"

definition level_read :: "nat option \<Rightarrow> net \<Rightarrow> u64" where
  "level_read k n = ct_read (counter_at k (net_shared n)) +
     hm_sum (\<lambda>s. if feeds k s then cs_pending_read s else 0) (net_streams n)"

definition level_write :: "nat option \<Rightarrow> net \<Rightarrow> u64" where
  "level_write k n = ct_write (counter_at k (net_shared n)) +
     hm_sum (\<lambda>s. if feeds k s then cs_pending_write s else 0) (net_streams n)"

definition level_active :: "nat option \<Rightarrow> net \<Rightarrow> int" where
  "level_active k n = ct_active (counter_at k (net_shared n)) -
     hm_sum (\<lambda>s. if feeds k s then 1 else 0) (net_streams n)"

fun moved :: "nat option \<Rightarrow> net_event \<Rightarrow> net \<Rightarrow> u64 \<times> u64" where
  \<comment> \<open>the bytes an event really moves on a stream that feeds the counter set \<open>k\<close>\<close>
  "moved k (Read i (Some b) _) n =
     (case hm_get (net_streams n) i of None \<Rightarrow> (0, 0) | Some s \<Rightarrow> (if feeds k s then b else 0, 0))"
| "moved k (Write i (Some b) _) n =
     (case hm_get (net_streams n) i of None \<Rightarrow> (0, 0) | Some s \<Rightarrow> (0, if feeds k s then b else 0))"
| "moved k _ n = (0, 0)"

fun run_net :: "net_event list \<Rightarrow> net \<Rightarrow> net" where
  "run_net [] n = n"
| "run_net (e # es) n = run_net es (net_step e n)"

fun total_moved :: "nat option \<Rightarrow> net_event list \<Rightarrow> net \<Rightarrow> u64 \<times> u64" where
  "total_moved k [] n = (0, 0)"
| "total_moved k (e # es) n =
     (let (a, b) = moved k e n; (c, d) = total_moved k es (net_step e n) in (a + c, b + d))"

section \<open>Conservation\<close>

lemma counter_at_on:
  "counter_at k (on_counters f ex sh) =
     (if k = None \<or> k = ex then f (counter_at k sh) else counter_at k sh)"
  by (cases k; cases ex) (auto simp: counter_at_def on_counters_def Let_def)

lemma flush_effect:
  "counter_at k (snd (flush now s sh)) =
     (if feeds k s then add_write (cs_pending_write s) (add_read (cs_pending_read s) (counter_at k sh))
      else counter_at k sh)"
  "cs_extra (fst (flush now s sh)) = cs_extra s"
  "cs_pending_read (fst (flush now s sh)) = 0" "cs_pending_write (fst (flush now s sh)) = 0"
proof -
  have z: "\<not> 0 < w \<longleftrightarrow> w = 0" for w :: u64 by (simp add: word_less_nat_alt unat_eq_0)
  show "counter_at k (snd (flush now s sh)) =
     (if feeds k s then add_write (cs_pending_write s) (add_read (cs_pending_read s) (counter_at k sh))
      else counter_at k sh)"
    by (auto simp: flush_def Let_def counter_at_on feeds_def add_read_def add_write_def z)
  show "cs_extra (fst (flush now s sh)) = cs_extra s"
    "cs_pending_read (fst (flush now s sh)) = 0" "cs_pending_write (fst (flush now s sh)) = 0"
    by (auto simp: flush_def Let_def z)
qed

definition settled :: "nat option \<Rightarrow> counting_stream \<Rightarrow> shared \<Rightarrow> u64 \<times> u64 \<times> int" where
  \<comment> \<open>what a counter set and one stream hold together\<close>
  "settled k s sh =
     (ct_read (counter_at k sh) + (if feeds k s then cs_pending_read s else 0),
      ct_write (counter_at k sh) + (if feeds k s then cs_pending_write s else 0),
      ct_active (counter_at k sh))"

lemma flush_settled: "settled k (fst (flush now s sh)) (snd (flush now s sh)) = settled k s sh"
  by (auto simp: settled_def flush_effect feeds_def add_read_def add_write_def)

lemma maybe_flush_settled:
  "settled k (fst (maybe_flush now s sh)) (snd (maybe_flush now s sh)) = settled k s sh"
  "cs_extra (fst (maybe_flush now s sh)) = cs_extra s"
  by (auto simp: maybe_flush_def Let_def flush_settled flush_effect)
    (auto simp: settled_def feeds_def)

lemma maybe_flush_bound:
  "cs_pending_read (fst (maybe_flush now s sh)) < FLUSH_THRESHOLD \<and>
   cs_pending_write (fst (maybe_flush now s sh)) < FLUSH_THRESHOLD"
  by (auto simp: maybe_flush_def Let_def flush_effect not_le FLUSH_THRESHOLD_def)

lemma level_insert:
  assumes "hm_get (net_streams n) i = Some s"
    and "n' = \<lparr>net_streams = hm_insert i s' (net_streams n), net_shared = sh'\<rparr>"
    and "cs_extra s' = cs_extra s"
    and "settled k s' sh' = settled k sm (net_shared n)" and "cs_extra sm = cs_extra s"
    and "cs_pending_read sm = cs_pending_read s + a"
    and "cs_pending_write sm = cs_pending_write s + b"
  shows "level_read k n' = level_read k n + (if feeds k s then a else 0)"
    "level_write k n' = level_write k n + (if feeds k s then b else 0)"
    "level_active k n' = level_active k n"
proof -
  have f: "feeds k s' = feeds k s" "feeds k sm = feeds k s"
    using assms(3,5) by (simp_all add: feeds_def)
  show "level_read k n' = level_read k n + (if feeds k s then a else 0)"
    using assms(4,6) f
    by (auto simp: level_read_def assms(2) settled_def hm_sum_insert hm_sum_split [OF assms(1)]
        algebra_simps split: if_splits)
  show "level_write k n' = level_write k n + (if feeds k s then b else 0)"
    using assms(4,7) f
    by (auto simp: level_write_def assms(2) settled_def hm_sum_insert hm_sum_split [OF assms(1)]
        algebra_simps split: if_splits)
  show "level_active k n' = level_active k n"
    using assms(4) f
    by (auto simp: level_active_def assms(2) settled_def hm_sum_insert hm_sum_split [OF assms(1)])
qed

definition level_moves :: "nat option \<Rightarrow> net_event \<Rightarrow> net \<Rightarrow> bool" where
  "level_moves k e n \<longleftrightarrow>
     level_read k (net_step e n) = level_read k n + fst (moved k e n) \<and>
     level_write k (net_step e n) = level_write k n + snd (moved k e n) \<and>
     level_active k (net_step e n) = level_active k n"

lemma moves_read: "level_moves k (Read i r now) n"
proof (cases "hm_get (net_streams n) i")
  case None
  then show ?thesis by (cases r) (simp_all add: level_moves_def)
next
  case (Some s)
  show ?thesis
  proof (cases r)
    case None
    with Some level_insert [OF Some refl, where sm = s and k = k and a = 0 and b = 0
        and s' = s and sh' = "net_shared n"] show ?thesis
      by (simp add: level_moves_def poll_read_def)
  next
    case (Some b)
    let ?s1 = "s\<lparr>cs_pending_read := cs_pending_read s + b\<rparr>"
    from level_insert [OF \<open>hm_get (net_streams n) i = _\<close> refl, where sm = ?s1 and k = k and a = b
        and b = 0 and s' = "fst (maybe_flush now ?s1 (net_shared n))"
        and sh' = "snd (maybe_flush now ?s1 (net_shared n))"]
      Some \<open>hm_get (net_streams n) i = _\<close>
    show ?thesis
      by (simp add: level_moves_def poll_read_def maybe_flush_settled case_prod_beta)
  qed
qed

lemma moves_write: "level_moves k (Write i r now) n"
proof (cases "hm_get (net_streams n) i")
  case None
  then show ?thesis by (cases r) (simp_all add: level_moves_def)
next
  case (Some s)
  show ?thesis
  proof (cases r)
    case None
    with Some level_insert [OF Some refl, where sm = s and k = k and a = 0 and b = 0
        and s' = s and sh' = "net_shared n"] show ?thesis
      by (simp add: level_moves_def poll_write_def)
  next
    case (Some b)
    let ?s1 = "s\<lparr>cs_pending_write := cs_pending_write s + b\<rparr>"
    from level_insert [OF \<open>hm_get (net_streams n) i = _\<close> refl, where sm = ?s1 and k = k and a = 0
        and b = b and s' = "fst (maybe_flush now ?s1 (net_shared n))"
        and sh' = "snd (maybe_flush now ?s1 (net_shared n))"]
      Some \<open>hm_get (net_streams n) i = _\<close>
    show ?thesis
      by (simp add: level_moves_def poll_write_def maybe_flush_settled case_prod_beta)
  qed
qed

lemma moves_open: "level_moves k (Open i ex now) n"
proof (cases "hm_get (net_streams n) i")
  case None
  note a = hm_sum_absent [OF None, where 'c = u64] and b = hm_sum_absent [OF None, where 'c = int]
  from None show ?thesis
    by (cases ex; cases k)
      (auto simp: level_moves_def hm_has_def Let_def level_read_def level_write_def level_active_def
        hm_sum_insert a b counting_new_def with_extra_def counter_at_def feeds_def add_active_def)
qed (simp add: level_moves_def hm_has_def)

lemma moves_drop: "level_moves k (Drop i now) n"
proof (cases "hm_get (net_streams n) i")
  case (Some s)
  then show ?thesis
    by (auto simp: level_moves_def level_read_def level_write_def level_active_def drop_stream_def
        hm_sum_split [OF Some] case_prod_beta counter_at_on flush_effect feeds_def
        add_read_def add_write_def add_active_def algebra_simps)
qed (simp add: level_moves_def)

lemma step_moves: "level_moves k e n"
  by (cases e) (simp_all add: moves_open moves_read moves_write moves_drop)

lemma run_moves:
  "level_read k (run_net es n) = level_read k n + fst (total_moved k es n) \<and>
   level_write k (run_net es n) = level_write k n + snd (total_moved k es n) \<and>
   level_active k (run_net es n) = level_active k n"
proof (induction es arbitrary: n)
  case (Cons e es)
  from step_moves [of k e n] Cons.IH [of "net_step e n"] show ?case
    by (simp add: level_moves_def case_prod_beta add.assoc)
qed simp

definition unreported_small :: "counting_stream \<Rightarrow> bool" where
  "unreported_small s \<longleftrightarrow>
     cs_pending_read s < FLUSH_THRESHOLD \<and> cs_pending_write s < FLUSH_THRESHOLD"

lemma step_small:
  "list_all unreported_small (hm_values (net_streams n)) \<Longrightarrow>
   list_all unreported_small (hm_values (net_streams (net_step e n)))"
  using maybe_flush_bound
  by (cases e)
    (auto simp: Let_def case_prod_beta counting_new_def with_extra_def unreported_small_def
      FLUSH_THRESHOLD_def poll_read_def poll_write_def intro!: hm_all_insert hm_all_remove
      dest: hm_all_get split: option.split)

lemma run_small:
  "list_all unreported_small (hm_values (net_streams n)) \<Longrightarrow>
   list_all unreported_small (hm_values (net_streams (run_net es n)))"
  by (induction es arbitrary: n) (simp_all add: step_small)

section \<open>Properties\<close>

definition no_counts :: counters where
  "no_counts = \<lparr>ct_read = 0, ct_write = 0, ct_active = 0\<rparr>"

definition net_start :: net where
  "net_start = \<lparr>net_streams = [], net_shared = \<lparr>sh_main = no_counts, sh_extra = (\<lambda>_. no_counts)\<rparr>\<rparr>"

text \<open>
  C20 --- No byte is lost or counted twice. Whatever streams are opened, read, written and dropped
  in whatever order, every shared counter (the global one and each proxy's) plus what its open
  streams have not reported yet is exactly the number of bytes moved (modulo \<open>2 ^ 64\<close>, as the
  atomics wrap), the active count is the number of open streams that feed it, and each stream
  holds back less than the flush threshold in either direction.
\<close>

theorem traffic_conserved:
  fixes evs :: "net_event list"
  defines "n \<equiv> run_net evs net_start"
  shows "ct_read (counter_at k (net_shared n)) +
      hm_sum (\<lambda>s. if feeds k s then cs_pending_read s else 0) (net_streams n)
        = fst (total_moved k evs net_start) \<and>
    ct_write (counter_at k (net_shared n)) +
      hm_sum (\<lambda>s. if feeds k s then cs_pending_write s else 0) (net_streams n)
        = snd (total_moved k evs net_start) \<and>
    ct_active (counter_at k (net_shared n)) =
      hm_sum (\<lambda>s. if feeds k s then 1 else 0) (net_streams n) \<and>
    list_all (\<lambda>s. cs_pending_read s < FLUSH_THRESHOLD \<and> cs_pending_write s < FLUSH_THRESHOLD)
      (hm_values (net_streams n))"
proof -
  have "level_read k net_start = 0" "level_write k net_start = 0" "level_active k net_start = 0"
    by (auto simp: level_read_def level_write_def level_active_def net_start_def no_counts_def
        counter_at_def split: option.splits)
  with run_moves [of k evs net_start] show ?thesis
    using run_small [of net_start evs] unfolding unreported_small_def [abs_def]
    by (simp add: n_def level_read_def level_write_def level_active_def net_start_def)
qed

end
