(* ===== verification/Http.thy ===== *)
theory Http
  imports Errors
begin

text \<open>
  The HTTP helpers of the two status endpoints (\<open>rfrp-common/src/util/http.rs\<close>). Byte buffers
  are \<open>string\<close>s here, one \<open>char\<close> per byte. The header parser \<open>httparse\<close> is a parameter: given
  the header limit and the bytes it returns the parsed parts of a complete request, or \<open>None\<close>.
  A connection is the script of its reads: how long each one takes and what it delivers.
\<close>

definition MAX_REQUEST_HEAD :: nat where "MAX_REQUEST_HEAD = 8192"

definition CRLF :: string where "CRLF = [CHR 0x0D, CHR 0x0A]"

section \<open>Parsing the request head\<close>

record parsed_request =
  pr_method :: "string option"
  pr_path :: "string option"
  pr_headers :: "(string \<times> string) list"

type_synonym httparse = "nat \<Rightarrow> string \<Rightarrow> parsed_request option"

record request_head =
  rq_method :: string
  rq_path :: string
  rq_content_length :: nat
  rq_accept_html :: bool
  rq_authorization :: "string option"
  rq_cookie :: "string option"

definition request_head_default :: request_head where
  "request_head_default =
     \<lparr>rq_method = ''GET'', rq_path = ''/'', rq_content_length = 0, rq_accept_html = False,
      rq_authorization = None, rq_cookie = None\<rparr>"

definition apply_header :: "request_head \<Rightarrow> string \<times> string \<Rightarrow> request_head" where
  "apply_header out h =
     (let name = fst h; value = trim (if utf8_valid (snd h) then snd h else []) in
      if eq_ignore_ascii_case name ''content-length''
      then out\<lparr>rq_content_length := unwrap_or (parse_uint (2 ^ 64 - 1) value) 0\<rparr>
      else if eq_ignore_ascii_case name ''accept''
      then out\<lparr>rq_accept_html := contains_str ''text/html'' (to_ascii_lowercase value)\<rparr>
      else if eq_ignore_ascii_case name ''authorization''
      then out\<lparr>rq_authorization := Some value\<rparr>
      else if eq_ignore_ascii_case name ''cookie'' then out\<lparr>rq_cookie := Some value\<rparr>
      else out)"

definition parse_request_head :: "httparse \<Rightarrow> string \<Rightarrow> request_head" where
  "parse_request_head httparse head =
     (case httparse 32 head of
        None \<Rightarrow> request_head_default
      | Some req \<Rightarrow>
          let out = request_head_default;
              out = (case pr_method req of None \<Rightarrow> out | Some m \<Rightarrow> out\<lparr>rq_method := m\<rparr>);
              out = (case pr_path req of None \<Rightarrow> out | Some p \<Rightarrow> out\<lparr>rq_path := p\<rparr>)
          in foldl apply_header out (pr_headers req))"

section \<open>Escaping\<close>

definition escape_char :: "char \<Rightarrow> string" where
  "escape_char c =
     (if c = CHR ''&'' then ''&amp;''
      else if c = CHR ''<'' then ''&lt;''
      else if c = CHR ''>'' then ''&gt;''
      else if c = CHR 0x22 then ''&quot;''
      else if c = CHR 0x27 then ''&#39;''
      else [c])"

definition html_escape :: "string \<Rightarrow> string" where
  "html_escape value = concat (map escape_char value)"

fun html_unescape :: "nat \<Rightarrow> string \<Rightarrow> string" where
  \<comment> \<open>what a browser shows for the five entities; \<open>n\<close> counts the bytes of an entity to skip\<close>
  "html_unescape n [] = []"
| "html_unescape (Suc n) (c # s) = html_unescape n s"
| "html_unescape 0 (c # s) =
     (if has_prefix ''&amp;'' (c # s) then CHR ''&'' # html_unescape 4 s
      else if has_prefix ''&lt;'' (c # s) then CHR ''<'' # html_unescape 3 s
      else if has_prefix ''&gt;'' (c # s) then CHR ''>'' # html_unescape 3 s
      else if has_prefix ''&quot;'' (c # s) then CHR 0x22 # html_unescape 5 s
      else if has_prefix ''&#39;'' (c # s) then CHR 0x27 # html_unescape 4 s
      else c # html_unescape 0 s)"

lemma unescape_escape_char: "html_unescape 0 (escape_char c @ s) = c # html_unescape 0 s"
  by (auto simp: escape_char_def has_prefix_def eval_nat_numeral)

lemma unescape_escape: "html_unescape 0 (html_escape s) = s"
  by (induction s) (simp_all add: html_escape_def unescape_escape_char)

lemma escape_char_safe: "set (escape_char c) \<inter> {CHR ''<'', CHR ''>'', CHR 0x22, CHR 0x27} = {}"
  by (auto simp: escape_char_def)

lemma html_escape_chars: "set (html_escape s) \<inter> {CHR ''<'', CHR ''>'', CHR 0x22, CHR 0x27} = {}"
  using escape_char_safe by (fastforce simp: html_escape_def)

section \<open>Reading the head\<close>

datatype read_outcome = Got string | Failed io_error

fun read_request_head ::
  "duration \<Rightarrow> string \<Rightarrow> (duration \<times> read_outcome) list
     \<Rightarrow> (io_error, string option) result \<times> duration" where
  \<comment> \<open>\<open>remaining\<close> until the deadline, the buffer, the reads to come; the result with the time
      that is left. A script that ends is a peer that stays silent.\<close>
  "read_request_head remaining buf [] = (Inr None, 0)"
| "read_request_head remaining buf ((wait, r) # rs) =
     (if remaining = 0 then (Inr None, 0)
      else if remaining < wait then (Inr None, 0)
      else case r of
             Failed e \<Rightarrow> (Inl e, remaining - wait)
           | Got d \<Rightarrow>
               if d = [] then (Inr None, remaining - wait)
               else let buf = buf @ d in
                 if contains_str (CRLF @ CRLF) buf then (Inr (Some buf), remaining - wait)
                 else if MAX_REQUEST_HEAD < length buf then (Inr (Some buf), remaining - wait)
                 else read_request_head (remaining - wait) buf rs)"

lemma read_request_head_sound:
  assumes "read_request_head remaining buf rs = (Inr (Some out), left)"
    and "list_all (\<lambda>(_, r). case r of Got d \<Rightarrow> length d \<le> 1024 | Failed _ \<Rightarrow> True) rs"
    and "length buf \<le> MAX_REQUEST_HEAD"
  shows "(contains_str (CRLF @ CRLF) out \<or> MAX_REQUEST_HEAD < length out) \<and>
    length out \<le> MAX_REQUEST_HEAD + 1024"
  using assms
  by (induction remaining buf rs rule: read_request_head.induct)
    (auto simp: Let_def split: if_splits read_outcome.splits)

section \<open>Writing a response\<close>

definition status_reason :: "nat \<Rightarrow> string" where
  "status_reason status =
     (if status = 200 then ''OK''
      else if status = 302 then ''Found''
      else if status = 400 then ''Bad Request''
      else if status = 401 then ''Unauthorized''
      else if status = 404 then ''Not Found''
      else if status = 429 then ''Too Many Requests''
      else ''OK'')"

definition write_response ::
  "nat \<Rightarrow> string \<Rightarrow> string \<Rightarrow> string option \<Rightarrow> string" where
  "write_response status content_type body extra_header =
     ''HTTP/1.1 '' @ show_nat status @ '' '' @ status_reason status @ CRLF @
     ''Content-Type: '' @ content_type @ CRLF @
     ''Content-Length: '' @ show_nat (length body) @ CRLF @
     (case extra_header of None \<Rightarrow> [] | Some h \<Rightarrow> h @ CRLF) @
     ''Connection: close'' @ CRLF @ CRLF @ body"

section \<open>Properties\<close>

text \<open>
  Escaped text cannot break out of its place in a page: it contains no angle bracket and no
  quote of either kind, and a browser shows exactly the original text (so escaping is also
  injective and no character is lost).
\<close>

theorem html_escape_safe:
  "set (html_escape s) \<inter> {CHR ''<'', CHR ''>'', CHR 0x22, CHR 0x27} = {} \<and>
   html_unescape 0 (html_escape s) = s"
  using html_escape_chars unescape_escape by blast

text \<open>
  Reading a request head is bounded: a returned head is complete or over the limit, and
  never more than one read (1024 bytes) over it.
\<close>

theorem read_request_head_bounded:
  assumes "read_request_head timeout [] rs = (Inr (Some out), left)"
    and "list_all (\<lambda>(_, r). case r of Got d \<Rightarrow> length d \<le> 1024 | Failed _ \<Rightarrow> True) rs"
  shows "(contains_str (CRLF @ CRLF) out \<or> MAX_REQUEST_HEAD < length out) \<and>
    length out \<le> MAX_REQUEST_HEAD + 1024"
  using assms by (rule read_request_head_sound) simp

theorem read_request_head_bounded_witness:
  "(contains_str (CRLF @ CRLF) (''GET / HTTP/1.1'' @ CRLF @ CRLF) \<or>
     MAX_REQUEST_HEAD < length (''GET / HTTP/1.1'' @ CRLF @ CRLF)) \<and>
   length (''GET / HTTP/1.1'' @ CRLF @ CRLF) \<le> MAX_REQUEST_HEAD + 1024"
  by (rule read_request_head_bounded [where timeout = 10 and left = 6 and
        rs = "[(3, Got ''GET / HTTP/1.1''), (1, Got (CRLF @ CRLF))]"])
    (simp_all add: CRLF_def has_prefix_def MAX_REQUEST_HEAD_def)

end
