(* ===== verification/Stream.thy ===== *)
theory Stream
  imports UdpFrame
begin

text \<open>
  The replaying stream of \<open>rfrp-common/src/util/stream.rs\<close>: the vhost listener reads a request
  head off the connection and hands the connection on with those bytes in front.
\<close>

record prepend_stream =
  pp_buf :: bytes
  pp_inner :: "bytes list"

definition prepend_new :: "bytes \<Rightarrow> bytes list \<Rightarrow> prepend_stream" where
  "prepend_new buf inner = \<lparr>pp_buf = buf, pp_inner = inner\<rparr>"

definition prepend_poll_read :: "nat \<Rightarrow> prepend_stream \<Rightarrow> bytes \<times> prepend_stream" where
  \<comment> \<open>\<open>room\<close> is what the caller's buffer still takes; no data is end of file\<close>
  "prepend_poll_read room s =
     (if pp_buf s \<noteq> []
      then let n = min (length (pp_buf s)) room in
        (take n (pp_buf s), s\<lparr>pp_buf := drop n (pp_buf s)\<rparr>)
      else let (d, inner) = read_some room (pp_inner s) in (d, s\<lparr>pp_inner := inner\<rparr>))"

fun prepend_reads :: "nat list \<Rightarrow> prepend_stream \<Rightarrow> bytes list \<times> prepend_stream" where
  "prepend_reads [] s = ([], s)"
| "prepend_reads (n # ns) s =
     (let (d, s) = prepend_poll_read n s; (ds, s) = prepend_reads ns s in (d # ds, s))"

definition contents :: "prepend_stream \<Rightarrow> bytes" where
  "contents s = pp_buf s @ concat (pp_inner s)"

lemma poll_read_contents:
  "prepend_poll_read n s = (d, s') \<Longrightarrow> contents s = d @ contents s'"
  by (auto simp: prepend_poll_read_def contents_def Let_def split: if_splits prod.splits
      dest: read_some_concat)

text \<open>
  Nothing is lost or reordered when a connection is handed on with a replay buffer: after
  any sequence of reads of any sizes, what was read followed by what is left is the replayed
  bytes followed by the connection's own.
\<close>

theorem prepend_replays:
  "let (ds, s) = prepend_reads ns (prepend_new buf inner)
   in concat ds @ contents s = buf @ concat inner"
proof -
  have "concat (fst (prepend_reads ns s)) @ contents (snd (prepend_reads ns s)) = contents s" for s
  proof (induction ns arbitrary: s)
    case (Cons n ns)
    obtain d s' where r: "prepend_poll_read n s = (d, s')" by fastforce
    with Cons.IH [of s'] poll_read_contents [OF r] show ?case by (auto split: prod.splits)
  qed simp
  from this [of "prepend_new buf inner"] show ?thesis
    by (simp add: case_prod_beta contents_def prepend_new_def)
qed

end
