(* ===== verification/SockAddr.thy ===== *)
theory SockAddr
  imports Strings
begin

text \<open>
  \<open>IpAddr\<close> and \<open>SocketAddr\<close> parsing of the Rust standard library, which the configuration and the
  registration code use. A parser takes the rest of the input and returns its value and what
  follows it; \<open>None\<close> means that nothing was consumed (\<open>read_atomically\<close>).
\<close>

datatype ip_addr = V4 "nat list" | V6 "nat list"

record socket_addr =
  sa_ip :: ip_addr
  sa_port :: u16

definition to_digit :: "nat \<Rightarrow> char \<Rightarrow> nat option" where
  "to_digit radix c =
     (let n = of_char c :: nat;
          d = (if 48 \<le> n \<and> n \<le> 57 then Some (n - 48)
               else if 97 \<le> n \<and> n \<le> 122 then Some (n - 87)
               else if 65 \<le> n \<and> n \<le> 90 then Some (n - 55) else None)
      in case d of None \<Rightarrow> None | Some v \<Rightarrow> if v < radix then Some v else None)"

fun read_digits :: "nat \<Rightarrow> nat \<Rightarrow> nat option \<Rightarrow> nat \<Rightarrow> nat \<Rightarrow> string \<Rightarrow> (nat \<times> nat \<times> string) option" where
  \<comment> \<open>radix, maximum, digit limit, accumulator, digits so far\<close>
  "read_digits radix m lim acc cnt [] = Some (acc, cnt, [])"
| "read_digits radix m lim acc cnt (c # cs) =
     (case to_digit radix c of
        None \<Rightarrow> Some (acc, cnt, c # cs)
      | Some d \<Rightarrow>
          if m < acc * radix + d then None
          else if (case lim of None \<Rightarrow> False | Some l \<Rightarrow> l < cnt + 1) then None
          else read_digits radix m lim (acc * radix + d) (cnt + 1) cs)"

definition read_number :: "nat \<Rightarrow> nat option \<Rightarrow> bool \<Rightarrow> nat \<Rightarrow> string \<Rightarrow> (nat \<times> string) option" where
  "read_number radix lim allow_zero_prefix m s =
     (case read_digits radix m lim 0 0 s of
        None \<Rightarrow> None
      | Some (v, cnt, rest) \<Rightarrow>
          if cnt = 0 then None
          else if \<not> allow_zero_prefix \<and> hd s = CHR ''0'' \<and> 1 < cnt then None
          else Some (v, rest))"

definition read_char :: "char \<Rightarrow> string \<Rightarrow> string option" where
  "read_char c s = (case s of x # xs \<Rightarrow> if x = c then Some xs else None | [] \<Rightarrow> None)"

fun read_octets :: "nat \<Rightarrow> string \<Rightarrow> (nat list \<times> string) option" where
  \<comment> \<open>the remaining \<open>n\<close> octets, each after a dot\<close>
  "read_octets 0 s = Some ([], s)"
| "read_octets (Suc n) s =
     (case read_char CHR ''.'' s of
        None \<Rightarrow> None
      | Some s1 \<Rightarrow>
        (case read_number 10 (Some 3) False 255 s1 of
          None \<Rightarrow> None
        | Some (v, s2) \<Rightarrow>
          (case read_octets n s2 of None \<Rightarrow> None | Some (vs, s3) \<Rightarrow> Some (v # vs, s3))))"

definition read_ipv4_addr :: "string \<Rightarrow> (nat list \<times> string) option" where
  "read_ipv4_addr s =
     (case read_number 10 (Some 3) False 255 s of
        None \<Rightarrow> None
      | Some (v, s1) \<Rightarrow>
          (case read_octets 3 s1 of None \<Rightarrow> None | Some (vs, s2) \<Rightarrow> Some (v # vs, s2)))"

definition read_separator ::
  "nat \<Rightarrow> (string \<Rightarrow> ('a \<times> string) option) \<Rightarrow> string \<Rightarrow> ('a \<times> string) option" where
  "read_separator i p s =
     (if i = 0 then p s
      else case read_char CHR '':'' s of None \<Rightarrow> None | Some s1 \<Rightarrow> p s1)"

fun read_groups :: "nat \<Rightarrow> nat \<Rightarrow> nat list \<Rightarrow> string \<Rightarrow> nat list \<times> bool \<times> string" where
  \<comment> \<open>\<open>n\<close> slots left of \<open>length gs + n\<close>; the groups read and whether they end in an IPv4 part\<close>
  "read_groups 0 limit gs s = (gs, False, s)"
| "read_groups (Suc n) limit gs s =
     (let i = length gs in
      case (if i < limit - 1 then read_separator i read_ipv4_addr s else None) of
        Some (o4, s1) \<Rightarrow>
          (gs @ [o4 ! 0 * 256 + o4 ! 1, o4 ! 2 * 256 + o4 ! 3], True, s1)
      | None \<Rightarrow>
          (case read_separator i (read_number 16 (Some 4) True 65535) s of
             Some (g, s1) \<Rightarrow> read_groups n limit (gs @ [g]) s1
           | None \<Rightarrow> (gs, False, s)))"

definition read_ipv6_addr :: "string \<Rightarrow> (nat list \<times> string) option" where
  "read_ipv6_addr s =
     (let (head, v4, s1) = read_groups 8 8 [] s in
      if length head = 8 then Some (head, s1)
      else if v4 then None
      else case read_char CHR '':'' s1 of
        None \<Rightarrow> None
      | Some s2 \<Rightarrow>
        (case read_char CHR '':'' s2 of
          None \<Rightarrow> None
        | Some s3 \<Rightarrow>
          let limit = 8 - (length head + 1);
              (tail, _, s4) = read_groups limit limit [] s3
          in Some (head @ replicate (8 - length head - length tail) 0 @ tail, s4)))"

definition read_port :: "string \<Rightarrow> (u16 \<times> string) option" where
  "read_port s =
     (case read_char CHR '':'' s of
        None \<Rightarrow> None
      | Some s1 \<Rightarrow> map_option (\<lambda>(n, r). (of_nat n, r)) (read_number 10 None True 65535 s1))"

definition read_scope :: "string \<Rightarrow> string" where
  \<comment> \<open>an optional numeric scope id\<close>
  "read_scope s =
     (case read_char CHR ''%'' s of
        None \<Rightarrow> s
      | Some s1 \<Rightarrow>
          (case read_number 10 None True (2 ^ 32 - 1) s1 of None \<Rightarrow> s | Some (_, r) \<Rightarrow> r))"

definition read_socket_addr_v4 :: "string \<Rightarrow> (socket_addr \<times> string) option" where
  "read_socket_addr_v4 s =
     (case read_ipv4_addr s of
        None \<Rightarrow> None
      | Some (a, s1) \<Rightarrow> map_option (\<lambda>(p, r). (\<lparr>sa_ip = V4 a, sa_port = p\<rparr>, r)) (read_port s1))"

definition read_socket_addr_v6 :: "string \<Rightarrow> (socket_addr \<times> string) option" where
  "read_socket_addr_v6 s =
     (case read_char CHR ''['' s of
        None \<Rightarrow> None
      | Some s1 \<Rightarrow>
        (case read_ipv6_addr s1 of
          None \<Rightarrow> None
        | Some (a, s2) \<Rightarrow>
          (case read_char CHR '']'' (read_scope s2) of
            None \<Rightarrow> None
          | Some s3 \<Rightarrow>
              map_option (\<lambda>(p, r). (\<lparr>sa_ip = V6 a, sa_port = p\<rparr>, r)) (read_port s3))))"

definition all_read :: "('a \<times> string) option \<Rightarrow> 'a option" where
  "all_read r = (case r of Some (a, []) \<Rightarrow> Some a | _ \<Rightarrow> None)"

definition parse_socket_addr :: "string \<Rightarrow> socket_addr option" where
  "parse_socket_addr s =
     all_read (case read_socket_addr_v4 s of Some r \<Rightarrow> Some r | None \<Rightarrow> read_socket_addr_v6 s)"

definition parse_ip_addr :: "string \<Rightarrow> ip_addr option" where
  "parse_ip_addr s =
     all_read (case read_ipv4_addr s of
       Some (a, r) \<Rightarrow> Some (V4 a, r)
     | None \<Rightarrow> map_option (\<lambda>(a, r). (V6 a, r)) (read_ipv6_addr s))"

definition is_unspecified :: "ip_addr \<Rightarrow> bool" where
  "is_unspecified ip =
     (case ip of V4 a \<Rightarrow> list_all (\<lambda>x. x = 0) a | V6 a \<Rightarrow> list_all (\<lambda>x. x = 0) a)"

lemmas sock_defs =
  all_read_def read_socket_addr_v4_def read_socket_addr_v6_def read_ipv4_addr_def read_ipv6_addr_def
  read_port_def read_scope_def read_char_def read_number_def read_separator_def to_digit_def Let_def

lemma parse_socket_addr_v4_example:
  "parse_socket_addr ''127.0.0.1:7500'' = Some \<lparr>sa_ip = V4 [127, 0, 0, 1], sa_port = 7500\<rparr>"
  by (simp add: parse_socket_addr_def sock_defs numeral_3_eq_3)

end
