(* ===== verification/Config.thy ===== *)
theory Config
  imports Addr SockAddr
begin

text \<open>
  Configuration shared by both sides (\<open>rfrp-common/src/config/mod.rs\<close>): heartbeat checks, the
  wording of TLS requirements, and path resolution over a file system. The file system is a
  parameter: the record \<open>fs\<close> holds the \<open>std::fs\<close> and \<open>std::path\<close> queries the code makes.
\<close>

section \<open>Logging section\<close>

record log_section =
  lo_level :: "string option"
  lo_output :: "string option"
  lo_format :: "string option"

definition log_default :: log_section where
  "log_default = \<lparr>lo_level = None, lo_output = None, lo_format = None\<rparr>"

section \<open>Heartbeat\<close>

definition check_heartbeat_field :: "string \<Rightarrow> u64 option \<Rightarrow> (error, unit) result" where
  \<comment> \<open>one turn of the loop over the two fields\<close>
  "check_heartbeat_field field val =
     (case val of
        None \<Rightarrow> Inr ()
      | Some v \<Rightarrow>
          ensure (HEARTBEAT_MIN_SECS \<le> v \<and> v \<le> HEARTBEAT_MAX_SECS) (Config (HeartbeatRange field v)))"

definition validate_heartbeat :: "u64 option \<Rightarrow> u64 option \<Rightarrow> (error, unit) result" where
  "validate_heartbeat interval_secs timeout_secs =
     rbind (check_heartbeat_field ''heartbeat_interval_secs'' interval_secs) (\<lambda>_.
     rbind (check_heartbeat_field ''heartbeat_timeout_secs'' timeout_secs) (\<lambda>_.
       let interval = unwrap_or interval_secs HEARTBEAT_INTERVAL;
           timeout = unwrap_or timeout_secs HEARTBEAT_TIMEOUT
       in ensure (\<not> interval \<le> timeout) (Config (HeartbeatOrder timeout interval))))"

lemma validate_heartbeat_ok:
  "validate_heartbeat i t = Inr () \<longleftrightarrow>
     unwrap_or t HEARTBEAT_TIMEOUT < unwrap_or i HEARTBEAT_INTERVAL \<and>
     (\<forall>v \<in> set_option i \<union> set_option t. 1 \<le> v \<and> v \<le> 3600)"
  by (cases i; cases t)
    (auto simp: validate_heartbeat_def check_heartbeat_field_def rbind_Inr_iff Let_def not_le
      HEARTBEAT_MIN_SECS_def HEARTBEAT_MAX_SECS_def)

section \<open>Wording\<close>

definition tls_requirement_reason :: "bool \<Rightarrow> bool \<Rightarrow> string" where
  "tls_requirement_reason tls_enable work_conn_tls =
     (case (tls_enable, work_conn_tls) of
        (True, True) \<Rightarrow> ''tls_enable=true and work_conn_tls=true''
      | (True, False) \<Rightarrow> ''tls_enable=true''
      | (False, True) \<Rightarrow> ''work_conn_tls=true (default)''
      | (False, False) \<Rightarrow> ''TLS is disabled'')"

definition plaintext_hint :: "bool \<Rightarrow> string" where
  "plaintext_hint work_conn_tls =
     (if work_conn_tls then ''; set work_conn_tls=false for plaintext work connections'' else [])"

section \<open>Paths\<close>

record fs =
  fs_read :: "string \<Rightarrow> (io_error, string) result"
  fs_is_file :: "string \<Rightarrow> bool"
  fs_parent :: "string \<Rightarrow> string option"
  fs_is_relative :: "string \<Rightarrow> bool"
  fs_join :: "string \<Rightarrow> string \<Rightarrow> string"
  fs_canonicalize :: "string \<Rightarrow> string option"

definition resolve_opt_path :: "fs \<Rightarrow> string option \<Rightarrow> string \<Rightarrow> string option" where
  "resolve_opt_path fs v base =
     (case v of
        None \<Rightarrow> None
      | Some p \<Rightarrow>
          if fs_is_relative fs p
          then let joined = fs_join fs base p in Some (unwrap_or (fs_canonicalize fs joined) joined)
          else Some p)"

definition ensure_file_exists :: "fs \<Rightarrow> string \<Rightarrow> string \<Rightarrow> (error, unit) result" where
  "ensure_file_exists fs path field = ensure (fs_is_file fs path) (Config (FileNotFound field path))"

definition read_config :: "fs \<Rightarrow> string \<Rightarrow> (error, string) result" where
  \<comment> \<open>\<open>read_to_string\<close> with its failure wrapped\<close>
  "read_config fs path =
     (case fs_read fs path of Inl e \<Rightarrow> Inl (Config (CannotRead path e)) | Inr t \<Rightarrow> Inr t)"

definition check_keepalive :: "u64 option \<Rightarrow> (error, unit) result" where
  "check_keepalive v =
     (case v of None \<Rightarrow> Inr () | Some secs \<Rightarrow> ensure (\<not> 3600 < secs) (Config (KeepaliveRange secs)))"

lemma check_keepalive_ok: "check_keepalive v = Inr () \<longleftrightarrow> (\<forall>s \<in> set_option v. s \<le> 3600)"
  by (cases v) (auto simp: check_keepalive_def not_less)

lemma u16_range: "1 \<le> (w :: u16) \<and> w \<le> 65535 \<longleftrightarrow> w \<noteq> 0"
proof -
  have "w \<le> 65535" using unat_u16_le [of w] by (simp add: word_le_nat_alt)
  moreover have "1 \<le> w \<longleftrightarrow> w \<noteq> 0" by (simp add: word_le_nat_alt unat_eq_0 Suc_le_eq unat_gt_0)
  ultimately show ?thesis by simp
qed

end
