(* ===== verification/Config_Server.thy ===== *)
theory Config_Server
  imports Config
begin

text \<open>
  The server's configuration (\<open>rfrp-common/src/config/server.rs\<close> and \<open>load_server_config\<close>):
  sections with their defaults, the port range parser, and the validation that runs before the
  server starts. TOML parsing is a parameter of \<open>load_server_config\<close>.
\<close>

section \<open>Sections\<close>

record server_section =
  bind_addr :: string
  bind_port :: u16
  sv_token :: string
  sv_tls_enable :: bool
  tls_cert :: "string option"
  tls_key :: "string option"
  sv_work_conn_tls :: bool
  sv_tcp_keepalive_secs :: "u64 option"
  sv_heartbeat_interval_secs :: "u64 option"
  sv_heartbeat_timeout_secs :: "u64 option"
  udp_session_timeout_secs :: "u64 option"
  grace_secs :: "u64 option"

definition server_section_default :: server_section where
  "server_section_default =
     \<lparr>bind_addr = ''0.0.0.0'', bind_port = 7000, sv_token = [], sv_tls_enable = False,
      tls_cert = None, tls_key = None, sv_work_conn_tls = True, sv_tcp_keepalive_secs = None,
      sv_heartbeat_interval_secs = None, sv_heartbeat_timeout_secs = None,
      udp_session_timeout_secs = None, grace_secs = None\<rparr>"

definition sv_heartbeat_interval :: "server_section \<Rightarrow> duration" where
  "sv_heartbeat_interval s =
     from_secs (unat (unwrap_or (sv_heartbeat_interval_secs s) HEARTBEAT_INTERVAL))"

definition sv_heartbeat_timeout :: "server_section \<Rightarrow> duration" where
  "sv_heartbeat_timeout s =
     from_secs (unat (unwrap_or (sv_heartbeat_timeout_secs s) HEARTBEAT_TIMEOUT))"

definition udp_session_timeout :: "server_section \<Rightarrow> duration" where
  "udp_session_timeout s =
     from_secs (unat (unwrap_or (udp_session_timeout_secs s) UDP_SESSION_TIMEOUT))"

definition grace :: "server_section \<Rightarrow> duration" where
  "grace s = from_secs (unat (unwrap_or (grace_secs s) GRACEFUL_SHUTDOWN_TIMEOUT))"

record dashboard_section =
  da_addr :: string
  da_user :: string
  da_password :: string

definition validate_dashboard :: "dashboard_section \<Rightarrow> (error, unit) result" where
  "validate_dashboard d =
     rbind (ok_or (parse_socket_addr (da_addr d)) (Config (BadDashboardAddr (da_addr d)))) (\<lambda>_.
     rbind (ensure (da_user d \<noteq> []) (Config EmptyDashboardUser)) (\<lambda>_.
       ensure (\<not> length (da_password d) < 6) (Config ShortDashboardPassword)))"

section \<open>Port ranges\<close>

record proxy_section =
  allow_ports :: string
  vhost_http_port :: "u16 option"
  vhost_https_port :: "u16 option"
  vhost_tls_cert :: "string option"
  vhost_tls_key :: "string option"

definition proxy_section_default :: proxy_section where
  "proxy_section_default =
     \<lparr>allow_ports = [], vhost_http_port = None, vhost_https_port = None, vhost_tls_cert = None,
      vhost_tls_key = None\<rparr>"

definition parse_port_item :: "string \<Rightarrow> (error, (u16 \<times> u16) option) result" where
  \<comment> \<open>one turn of the loop over the comma-separated parts\<close>
  "parse_port_item part0 =
     (let part = trim part0 in
      if part = [] then Inr None
      else case split_once ''-'' part of
        Some (s, e) \<Rightarrow>
          rbind (ok_or (parse_u16 (trim s)) (Config (PortRangeStart s))) (\<lambda>s.
          rbind (ok_or (parse_u16 (trim e)) (Config (PortRangeEnd e))) (\<lambda>e.
          rbind (ensure (\<not> e < s) (Config (PortRangeOrder part))) (\<lambda>_.
            Inr (Some (s, e)))))
      | None \<Rightarrow>
          rbind (ok_or (parse_u16 part) (Config (BadPortItem part))) (\<lambda>p. Inr (Some (p, p))))"

fun parse_port_items :: "string list \<Rightarrow> (error, (u16 \<times> u16) list) result" where
  "parse_port_items [] = Inr []"
| "parse_port_items (part # ps) =
     rbind (parse_port_item part) (\<lambda>r.
     rbind (parse_port_items ps) (\<lambda>rs.
       Inr (case r of None \<Rightarrow> rs | Some x \<Rightarrow> x # rs)))"

definition parse_allow_ports :: "proxy_section \<Rightarrow> (error, (u16 \<times> u16) list) result" where
  "parse_allow_ports p =
     (let trimmed = trim (allow_ports p) in
      if trimmed = [] then Inr [] else parse_port_items (split_char CHR '','' trimmed))"

definition is_port_allowed :: "proxy_section \<Rightarrow> u16 \<Rightarrow> (error, bool) result" where
  "is_port_allowed p port =
     rbind (parse_allow_ports p) (\<lambda>ranges.
       if ranges = [] then Inr True
       else Inr (list_ex (\<lambda>(s, e). s \<le> port \<and> port \<le> e) ranges))"

section \<open>The whole configuration\<close>

record server_config =
  sc_server :: server_section
  sc_dashboard :: "dashboard_section option"
  sc_proxy :: proxy_section
  sc_log :: log_section

definition check_server_tls :: "fs \<Rightarrow> server_section \<Rightarrow> (error, unit) result" where
  "check_server_tls fs s =
     (if sv_tls_enable s \<or> sv_work_conn_tls s
      then
        let missing_tls = Config (MissingTls (sv_tls_enable s) (sv_work_conn_tls s)) in
        rbind (ok_or (tls_cert s) missing_tls) (\<lambda>cert.
        rbind (ok_or (tls_key s) missing_tls) (\<lambda>key.
        rbind (ensure_file_exists fs cert ''tls_cert'') (\<lambda>_.
          ensure_file_exists fs key ''tls_key'')))
      else Inr ())"

definition check_udp_timeout :: "u64 option \<Rightarrow> (error, unit) result" where
  "check_udp_timeout v =
     (case v of
        None \<Rightarrow> Inr ()
      | Some secs \<Rightarrow>
          ensure (UDP_SESSION_TIMEOUT_MIN_SECS \<le> secs \<and> secs \<le> UDP_SESSION_TIMEOUT_MAX_SECS)
            (Config (UdpTimeoutRange secs)))"

definition check_grace :: "u64 option \<Rightarrow> (error, unit) result" where
  "check_grace v =
     (case v of
        None \<Rightarrow> Inr ()
      | Some secs \<Rightarrow>
          ensure (\<not> GRACEFUL_SHUTDOWN_TIMEOUT_MAX_SECS < secs) (Config (GraceRange secs)))"

definition check_vhost_port :: "u16 option \<Rightarrow> (error, unit) result" where
  "check_vhost_port v =
     (case v of
        None \<Rightarrow> Inr ()
      | Some p \<Rightarrow> ensure (1 \<le> p \<and> p \<le> 65535) (Config (VhostPortRange p)))"

definition check_vhost_https :: "fs \<Rightarrow> proxy_section \<Rightarrow> (error, unit) result" where
  "check_vhost_https fs p =
     (if vhost_https_port p \<noteq> None
      then
        rbind (ok_or (vhost_tls_cert p) (Config VhostHttpsNeedsCert)) (\<lambda>cert.
        rbind (ok_or (vhost_tls_key p) (Config VhostHttpsNeedsCert)) (\<lambda>key.
        rbind (ensure_file_exists fs cert ''vhost_tls_cert'') (\<lambda>_.
          ensure_file_exists fs key ''vhost_tls_key'')))
      else Inr ())"

definition check_dashboard ::
  "dashboard_section option \<Rightarrow> server_section \<Rightarrow> proxy_section \<Rightarrow> (error, unit) result" where
  "check_dashboard dash s p =
     (case dash of
        None \<Rightarrow> Inr ()
      | Some d \<Rightarrow>
          rbind (validate_dashboard d) (\<lambda>_.
          rbind (ok_or (parse_socket_addr (da_addr d)) (Config (BadDashboardAddr (da_addr d)))) (\<lambda>daddr.
            let dport = sa_port daddr in
            rbind (ensure (dport \<noteq> bind_port s) (Config (DashboardPortClash ''bind_port''))) (\<lambda>_.
            rbind (ensure (vhost_http_port p \<noteq> Some dport)
                     (Config (DashboardPortClash ''vhost_http_port''))) (\<lambda>_.
              ensure (vhost_https_port p \<noteq> Some dport)
                (Config (DashboardPortClash ''vhost_https_port'')))))))"

definition validate_server :: "fs \<Rightarrow> server_config \<Rightarrow> (error, unit) result" where
  "validate_server fs c =
     (let s = sc_server c; p = sc_proxy c in
      rbind (ensure (1 \<le> bind_port s \<and> bind_port s \<le> 65535) (Config (BindPortRange (bind_port s)))) (\<lambda>_.
      rbind (ensure (sv_token s \<noteq> []) (Config EmptyToken)) (\<lambda>_.
      rbind (check_server_tls fs s) (\<lambda>_.
      rbind (check_keepalive (sv_tcp_keepalive_secs s)) (\<lambda>_.
      rbind (check_udp_timeout (udp_session_timeout_secs s)) (\<lambda>_.
      rbind (check_grace (grace_secs s)) (\<lambda>_.
      rbind (validate_heartbeat (sv_heartbeat_interval_secs s) (sv_heartbeat_timeout_secs s)) (\<lambda>_.
      rbind (parse_allow_ports p) (\<lambda>_.
      rbind (check_vhost_port (vhost_http_port p)) (\<lambda>_.
      rbind (check_vhost_port (vhost_https_port p)) (\<lambda>_.
      rbind (check_vhost_https fs p) (\<lambda>_.
        check_dashboard (sc_dashboard c) s p))))))))))))"

definition load_server_config ::
  "fs \<Rightarrow> (string \<Rightarrow> (string, server_config) result) \<Rightarrow> string \<Rightarrow> (error, server_config) result" where
  "load_server_config fs toml path =
     rbind (read_config fs path) (\<lambda>text.
     rbind (case toml text of Inl e \<Rightarrow> Inl (Toml e) | Inr c \<Rightarrow> Inr c) (\<lambda>cfg.
       let base = unwrap_or (fs_parent fs path) ''.'';
           s = sc_server cfg;
           s = s\<lparr>tls_cert := resolve_opt_path fs (tls_cert s) base\<rparr>;
           s = s\<lparr>tls_key := resolve_opt_path fs (tls_key s) base\<rparr>;
           p = sc_proxy cfg;
           p = p\<lparr>vhost_tls_cert := resolve_opt_path fs (vhost_tls_cert p) base\<rparr>;
           p = p\<lparr>vhost_tls_key := resolve_opt_path fs (vhost_tls_key p) base\<rparr>;
           cfg = cfg\<lparr>sc_server := s, sc_proxy := p\<rparr>
       in rbind (validate_server fs cfg) (\<lambda>_. Inr cfg)))"

section \<open>What a validated configuration satisfies\<close>

lemma parse_port_items_ordered:
  "parse_port_items ps = Inr rs \<Longrightarrow> list_all (\<lambda>(s, e). s \<le> e) rs"
  by (induction ps arbitrary: rs)
    (auto simp: rbind_Inr_iff parse_port_item_def Let_def not_less split: if_splits option.splits)

lemma parse_allow_ports_ordered:
  "parse_allow_ports p = Inr rs \<Longrightarrow> list_all (\<lambda>(s, e). s \<le> e) rs"
  by (auto simp: parse_allow_ports_def Let_def parse_port_items_ordered split: if_splits)

definition files_given :: "fs \<Rightarrow> string option \<Rightarrow> string option \<Rightarrow> bool" where
  "files_given fs a b \<longleftrightarrow>
     (case (a, b) of (Some x, Some y) \<Rightarrow> fs_is_file fs x \<and> fs_is_file fs y | _ \<Rightarrow> False)"

lemma check_server_tls_ok:
  "check_server_tls fs s = Inr () \<longleftrightarrow>
     (sv_tls_enable s \<or> sv_work_conn_tls s \<longrightarrow> files_given fs (tls_cert s) (tls_key s))"
  by (auto simp: check_server_tls_def files_given_def rbind_Inr_iff ensure_file_exists_def Let_def
      split: option.splits)

lemma check_vhost_https_ok:
  "check_vhost_https fs p = Inr () \<longleftrightarrow>
     (vhost_https_port p \<noteq> None \<longrightarrow> files_given fs (vhost_tls_cert p) (vhost_tls_key p))"
  by (auto simp: check_vhost_https_def files_given_def rbind_Inr_iff ensure_file_exists_def
      split: option.splits)

definition dashboard_ok :: "dashboard_section \<Rightarrow> server_section \<Rightarrow> proxy_section \<Rightarrow> bool" where
  "dashboard_ok d s p \<longleftrightarrow>
     da_user d \<noteq> [] \<and> 6 \<le> length (da_password d) \<and>
     (case parse_socket_addr (da_addr d) of
        None \<Rightarrow> False
      | Some a \<Rightarrow> sa_port a \<noteq> bind_port s \<and> vhost_http_port p \<noteq> Some (sa_port a) \<and>
          vhost_https_port p \<noteq> Some (sa_port a))"

lemma check_dashboard_ok:
  "check_dashboard dash s p = Inr () \<longleftrightarrow> (\<forall>d \<in> set_option dash. dashboard_ok d s p)"
  by (cases dash)
    (auto simp: check_dashboard_def dashboard_ok_def validate_dashboard_def rbind_Inr_iff Let_def
      split: option.splits)

definition server_config_ok :: "fs \<Rightarrow> server_config \<Rightarrow> bool" where
  \<comment> \<open>the contract of \<open>validate\<close>, field by field\<close>
  "server_config_ok fs c \<longleftrightarrow>
     (let s = sc_server c; p = sc_proxy c in
      bind_port s \<noteq> 0 \<and> sv_token s \<noteq> [] \<and>
      (sv_tls_enable s \<or> sv_work_conn_tls s \<longrightarrow> files_given fs (tls_cert s) (tls_key s)) \<and>
      (\<forall>v \<in> set_option (sv_tcp_keepalive_secs s). v \<le> 3600) \<and>
      (\<forall>v \<in> set_option (udp_session_timeout_secs s). 1 \<le> v \<and> v \<le> 86400) \<and>
      (\<forall>v \<in> set_option (grace_secs s). v \<le> 3600) \<and>
      unwrap_or (sv_heartbeat_timeout_secs s) 10 < unwrap_or (sv_heartbeat_interval_secs s) 30 \<and>
      (\<forall>v \<in> set_option (sv_heartbeat_interval_secs s) \<union> set_option (sv_heartbeat_timeout_secs s).
         1 \<le> v \<and> v \<le> 3600) \<and>
      (\<exists>rs. parse_allow_ports p = Inr rs) \<and>
      vhost_http_port p \<noteq> Some 0 \<and> vhost_https_port p \<noteq> Some 0 \<and>
      (vhost_https_port p \<noteq> None \<longrightarrow> files_given fs (vhost_tls_cert p) (vhost_tls_key p)) \<and>
      (\<forall>d \<in> set_option (sc_dashboard c). dashboard_ok d s p))"

lemma check_vhost_port_ok: "check_vhost_port v = Inr () \<longleftrightarrow> v \<noteq> Some 0"
  by (cases v) (auto simp: check_vhost_port_def u16_range)

lemma check_udp_timeout_ok:
  "check_udp_timeout v = Inr () \<longleftrightarrow> (\<forall>s \<in> set_option v. 1 \<le> s \<and> s \<le> 86400)"
  by (cases v)
    (auto simp: check_udp_timeout_def UDP_SESSION_TIMEOUT_MIN_SECS_def
      UDP_SESSION_TIMEOUT_MAX_SECS_def)

lemma check_grace_ok: "check_grace v = Inr () \<longleftrightarrow> (\<forall>s \<in> set_option v. s \<le> 3600)"
  by (cases v) (auto simp: check_grace_def GRACEFUL_SHUTDOWN_TIMEOUT_MAX_SECS_def not_less)

lemma validate_server_ok: "validate_server fs c = Inr () \<longleftrightarrow> server_config_ok fs c"
  by (simp add: validate_server_def server_config_ok_def rbind_Inr_iff Let_def u16_range
      check_server_tls_ok check_keepalive_ok check_udp_timeout_ok check_grace_ok
      validate_heartbeat_ok HEARTBEAT_TIMEOUT_def HEARTBEAT_INTERVAL_def check_vhost_port_ok
      check_vhost_https_ok check_dashboard_ok)

lemma load_server_config_ok:
  "load_server_config fs toml path = Inr c \<Longrightarrow> server_config_ok fs c"
  by (auto simp: load_server_config_def rbind_Inr_iff Let_def validate_server_ok)

section \<open>Printed port lists\<close>

definition show_range :: "u16 \<times> u16 \<Rightarrow> string" where
  "show_range r = show_nat (unat (fst r)) @ CHR ''-'' # show_nat (unat (snd r))"

fun show_ranges :: "(u16 \<times> u16) list \<Rightarrow> string" where
  "show_ranges [] = []"
| "show_ranges [r] = show_range r"
| "show_ranges (r # rs) = show_range r @ CHR '','' # show_ranges rs"

lemma show_nat_no: "\<not> is_digit c \<Longrightarrow> c \<notin> set (show_nat n)"
  using show_nat_digits [of n] by (auto simp: list_all_iff)

lemma show_range_no_ws: "list_all no_ws (show_range r)"
  by (simp add: show_range_def no_ws_show no_ws_char)

lemma show_ranges_no_ws: "list_all no_ws (show_ranges rs)"
  by (induction rs rule: show_ranges.induct) (simp_all add: show_range_no_ws no_ws_char)

lemma trim_no_ws: "list_all no_ws s \<Longrightarrow> trim s = s"
  by (simp add: trim_id has_whitespace_no_ws)

lemma show_range_no_comma: "CHR '','' \<notin> set (show_range r)"
  by (simp add: show_range_def show_nat_no is_digit_def)

lemma split_ranges: "rs \<noteq> [] \<Longrightarrow> split_char CHR '','' (show_ranges rs) = map show_range rs"
  by (induction rs rule: show_ranges.induct)
    (simp_all add: split_char_none split_char_append show_range_no_comma)

lemma parse_shown_range:
  assumes "fst r \<le> snd r"
  shows "parse_port_item (show_range r) = Inr (Some r)"
proof -
  have "split_once ''-'' (show_range r) = Some (show_nat (unat (fst r)), show_nat (unat (snd r)))"
    unfolding show_range_def by (rule split_once_char) (simp add: show_nat_no is_digit_def)
  moreover have "show_range r \<noteq> []" by (simp add: show_range_def)
  ultimately show ?thesis
    using assms
    by (simp add: parse_port_item_def trim_no_ws show_range_no_ws no_ws_show parse_u16_show not_less)
qed

lemma parse_shown_ranges:
  "list_all (\<lambda>(s, e). s \<le> e) rs \<Longrightarrow> parse_port_items (map show_range rs) = Inr rs"
  by (induction rs) (auto simp: parse_shown_range)

lemma show_ranges_not_Nil: "rs \<noteq> [] \<Longrightarrow> show_ranges rs \<noteq> []"
  by (induction rs rule: show_ranges.induct) (simp_all add: show_range_def)

lemma empty_parts_unrestricted: "parse_allow_ports (proxy_section_default\<lparr>allow_ports := '',''\<rparr>) = Inr []"
  by (simp add: parse_allow_ports_def trim_no_ws no_ws_char parse_port_item_def
      trim_id [OF has_whitespace_Nil])

section \<open>Properties\<close>


text \<open>
  A port list written as ranges allows exactly the ports of its ranges, both ends included.
\<close>

theorem port_ranges_decide:
  assumes "rs \<noteq> []" and "list_all (\<lambda>(s, e). s \<le> e) rs" and "allow_ports p = show_ranges rs"
  shows "is_port_allowed p port = Inr (\<exists>(s, e) \<in> set rs. s \<le> port \<and> port \<le> e)"
proof -
  from assms(1,2) have "parse_allow_ports p = Inr rs"
    by (simp add: parse_allow_ports_def assms(3) trim_no_ws show_ranges_no_ws show_ranges_not_Nil
        split_ranges parse_shown_ranges)
  with assms(1) show ?thesis by (simp add: is_port_allowed_def list_ex_iff)
qed

theorem port_ranges_decide_witness:
  "is_port_allowed (proxy_section_default\<lparr>allow_ports := show_ranges [(80, 80), (6000, 7000)]\<rparr>) 6500
     = Inr (\<exists>(s, e) \<in> set [(80 :: u16, 80 :: u16), (6000, 7000)]. s \<le> (6500 :: u16) \<and> (6500 :: u16) \<le> e)"
  by (rule port_ranges_decide) simp_all

end
