(* ===== verification/Config_Client.thy ===== *)
theory Config_Client
  imports Config Msg
begin

text \<open>
  The client's configuration (\<open>rfrp-common/src/config/client.rs\<close> and \<open>load_client_config\<close>):
  sections, domain names, the check of one proxy entry, normalisation and validation.
\<close>

section \<open>Domain names\<close>

definition valid_label :: "string \<Rightarrow> bool" where
  "valid_label label \<longleftrightarrow>
     label \<noteq> [] \<and> length label \<le> 63 \<and> hd label \<noteq> CHR ''-'' \<and> last label \<noteq> CHR ''-'' \<and>
     list_all (\<lambda>c. is_alphanumeric c \<or> c = CHR ''-'') label"

definition is_valid_domain :: "string \<Rightarrow> bool" where
  "is_valid_domain domain =
     (if domain = [] \<or> MAX_DOMAIN_LEN < length domain then False
      else list_all valid_label (split_char CHR ''.'' domain))"

section \<open>Sections\<close>

record client_section =
  server_addr :: string
  server_port :: u16
  cl_token :: string
  cl_tls_enable :: bool
  tls_server_name :: "string option"
  tls_ca :: "string option"
  cl_work_conn_tls :: bool
  run_id_file :: "string option"
  cl_tcp_keepalive_secs :: "u64 option"
  cl_heartbeat_interval_secs :: "u64 option"
  cl_heartbeat_timeout_secs :: "u64 option"
  status_addr :: "string option"

definition cl_heartbeat_interval :: "client_section \<Rightarrow> duration" where
  "cl_heartbeat_interval s =
     from_secs (unat (unwrap_or (cl_heartbeat_interval_secs s) HEARTBEAT_INTERVAL))"

definition cl_heartbeat_timeout :: "client_section \<Rightarrow> duration" where
  "cl_heartbeat_timeout s =
     from_secs (unat (unwrap_or (cl_heartbeat_timeout_secs s) HEARTBEAT_TIMEOUT))"

datatype resolve_error = LookupFailed string | NoAddress string

definition resolve_server_addr ::
  "(string \<Rightarrow> u16 \<Rightarrow> (string, socket_addr list) result) \<Rightarrow> client_section
     \<Rightarrow> (resolve_error, socket_addr) result" where
  \<comment> \<open>\<open>lookup\<close> is the resolver\<close>
  "resolve_server_addr lookup s =
     (case parse_ip_addr (server_addr s) of
        Some ip \<Rightarrow> Inr \<lparr>sa_ip = ip, sa_port = server_port s\<rparr>
      | None \<Rightarrow>
          (case lookup (server_addr s) (server_port s) of
             Inl e \<Rightarrow> Inl (LookupFailed (server_addr s))
           | Inr [] \<Rightarrow> Inl (NoAddress (server_addr s))
           | Inr (a # as) \<Rightarrow> Inr a))"

record client_proxy =
  cp_name :: string
  cp_type :: proxy_type
  local_ip :: string
  local_port :: u16
  cp_remote_port :: "u16 option"
  cp_custom_domains :: "string list option"
  pool_size :: u32

fun check_domains :: "string list \<Rightarrow> (error, unit) result" where
  "check_domains [] = Inr ()"
| "check_domains (d # ds) =
     rbind (ensure (is_valid_domain d) (Config (BadDomain d))) (\<lambda>_. check_domains ds)"

definition validate_proxy :: "client_proxy \<Rightarrow> (error, unit) result" where
  "validate_proxy p =
     rbind (ensure (\<not> (trim (local_ip p) = [] \<or> has_whitespace (local_ip p)))
       (Config (BadLocalIp (local_ip p)))) (\<lambda>_.
     rbind (ensure (1 \<le> local_port p \<and> local_port p \<le> 65535)
       (Config (LocalPortRange (cp_name p)))) (\<lambda>_.
     (case cp_type p of
        Tcp \<Rightarrow> ensure (cp_remote_port p \<noteq> None) (Config (NeedsRemotePort (cp_name p)))
      | Udp \<Rightarrow> ensure (cp_remote_port p \<noteq> None) (Config (NeedsRemotePort (cp_name p)))
      | _ \<Rightarrow>
          rbind (ok_or (cp_custom_domains p) (Config (NeedsDomains (cp_name p)))) (\<lambda>d.
          rbind (ensure (d \<noteq> []) (Config (NoDomains (cp_name p)))) (\<lambda>_.
          rbind (ensure (\<not> MAX_CUSTOM_DOMAINS < length d)
            (Config (TooManyDomains (cp_name p) (length d)))) (\<lambda>_.
            check_domains d))))))"

record client_config =
  cc_client :: client_section
  cc_proxies :: "client_proxy list"
  cc_log :: log_section

definition normalize_proxy :: "(string \<Rightarrow> string) \<Rightarrow> client_proxy \<Rightarrow> client_proxy" where
  "normalize_proxy lower p = p\<lparr>cp_custom_domains := map_option (map lower) (cp_custom_domains p)\<rparr>"

definition normalize :: "(string \<Rightarrow> string) \<Rightarrow> client_config \<Rightarrow> client_config" where
  \<comment> \<open>\<open>lower\<close> is \<open>str::to_lowercase\<close>\<close>
  "normalize lower c = c\<lparr>cc_proxies := map (normalize_proxy lower) (cc_proxies c)\<rparr>"

fun check_proxies ::
  "string list \<Rightarrow> u16 list \<Rightarrow> u16 list \<Rightarrow> client_proxy list \<Rightarrow> (error, unit) result" where
  \<comment> \<open>the names and the TCP and UDP ports seen so far\<close>
  "check_proxies names tcp_ports udp_ports [] = Inr ()"
| "check_proxies names tcp_ports udp_ports (p # ps) =
     rbind (ensure (cp_name p \<noteq> []) (Config EmptyProxyName)) (\<lambda>_.
     rbind (ensure (cp_name p \<notin> set names) (Config (DuplicateProxyName (cp_name p)))) (\<lambda>_.
     let names = cp_name p # names in
     rbind (validate_proxy p) (\<lambda>_.
       case cp_type p of
         Tcp \<Rightarrow>
           (let rp = the (cp_remote_port p) in
            rbind (ensure (rp \<notin> set tcp_ports) (Config (DuplicateRemotePort ''tcp'' rp))) (\<lambda>_.
              check_proxies names (rp # tcp_ports) udp_ports ps))
       | Udp \<Rightarrow>
           (let rp = the (cp_remote_port p) in
            rbind (ensure (rp \<notin> set udp_ports) (Config (DuplicateRemotePort ''udp'' rp))) (\<lambda>_.
              check_proxies names tcp_ports (rp # udp_ports) ps))
       | _ \<Rightarrow> check_proxies names tcp_ports udp_ports ps)))"

definition validate_client :: "fs \<Rightarrow> client_config \<Rightarrow> (error, unit) result" where
  "validate_client fs c =
     (let s = cc_client c in
      rbind (ensure (\<not> (trim (server_addr s) = [] \<or> has_whitespace (server_addr s)))
        (Config (BadServerAddr (server_addr s)))) (\<lambda>_.
      rbind (ensure (server_port s \<noteq> 0) (Config ZeroServerPort)) (\<lambda>_.
      rbind (ensure (cl_token s \<noteq> []) (Config EmptyToken)) (\<lambda>_.
      rbind (check_keepalive (cl_tcp_keepalive_secs s)) (\<lambda>_.
      rbind (validate_heartbeat (cl_heartbeat_interval_secs s) (cl_heartbeat_timeout_secs s)) (\<lambda>_.
      rbind (case status_addr s of
               None \<Rightarrow> Inr ()
             | Some addr \<Rightarrow> ensure (parse_socket_addr addr \<noteq> None) (Config (BadStatusAddr addr))) (\<lambda>_.
      rbind (ensure (\<not> ((cl_tls_enable s \<or> cl_work_conn_tls s) \<and>
                        unwrap_or (map_option (\<lambda>n. n = []) (tls_server_name s)) True))
               (Config (MissingServerName (cl_tls_enable s) (cl_work_conn_tls s)))) (\<lambda>_.
      rbind (case tls_ca s of
               None \<Rightarrow> Inr ()
             | Some ca \<Rightarrow> ensure_file_exists fs ca ''tls_ca'') (\<lambda>_.
        check_proxies [] [] [] (cc_proxies c))))))))))"

definition load_client_config ::
  "fs \<Rightarrow> (string \<Rightarrow> (string, client_config) result) \<Rightarrow> (string \<Rightarrow> string) \<Rightarrow> string
     \<Rightarrow> (error, client_config) result" where
  "load_client_config fs toml lower path =
     rbind (read_config fs path) (\<lambda>text.
     rbind (case toml text of Inl e \<Rightarrow> Inl (Toml e) | Inr c \<Rightarrow> Inr c) (\<lambda>cfg.
       let base = unwrap_or (fs_parent fs path) ''.'';
           s = cc_client cfg;
           cfg = cfg\<lparr>cc_client := s\<lparr>tls_ca := resolve_opt_path fs (tls_ca s) base\<rparr>\<rparr>;
           cfg = normalize lower cfg
       in rbind (validate_client fs cfg) (\<lambda>_. Inr cfg)))"

section \<open>What a validated configuration satisfies\<close>

definition proxy_ok :: "client_proxy \<Rightarrow> bool" where
  "proxy_ok p \<longleftrightarrow>
     trim (local_ip p) \<noteq> [] \<and> \<not> has_whitespace (local_ip p) \<and> local_port p \<noteq> 0 \<and>
     (if cp_type p \<in> {Tcp, Udp} then cp_remote_port p \<noteq> None
      else case cp_custom_domains p of
             None \<Rightarrow> False
           | Some ds \<Rightarrow> ds \<noteq> [] \<and> length ds \<le> 16 \<and> list_all is_valid_domain ds)"

lemma check_domains_ok: "check_domains ds = Inr () \<longleftrightarrow> list_all is_valid_domain ds"
  by (induction ds) (auto simp: rbind_Inr_iff)

lemma validate_proxy_ok: "validate_proxy p = Inr () \<longleftrightarrow> proxy_ok p"
  by (cases "cp_type p"; cases "cp_custom_domains p")
    (auto simp: validate_proxy_def proxy_ok_def rbind_Inr_iff u16_range check_domains_ok
      MAX_CUSTOM_DOMAINS_def)

definition ports_of :: "proxy_type \<Rightarrow> client_proxy list \<Rightarrow> u16 list" where
  "ports_of t ps = map (\<lambda>p. the (cp_remote_port p)) (filter (\<lambda>p. cp_type p = t) ps)"

definition proxies_ok :: "string list \<Rightarrow> u16 list \<Rightarrow> u16 list \<Rightarrow> client_proxy list \<Rightarrow> bool" where
  "proxies_ok ns ts us ps \<longleftrightarrow>
     list_all (\<lambda>p. cp_name p \<noteq> [] \<and> proxy_ok p) ps \<and>
     distinct (map cp_name ps) \<and> set (map cp_name ps) \<inter> set ns = {} \<and>
     distinct (ports_of Tcp ps) \<and> set (ports_of Tcp ps) \<inter> set ts = {} \<and>
     distinct (ports_of Udp ps) \<and> set (ports_of Udp ps) \<inter> set us = {}"

lemma check_proxies_ok: "check_proxies ns ts us ps = Inr () \<longleftrightarrow> proxies_ok ns ts us ps"
proof (induction ps arbitrary: ns ts us)
  case Nil
  then show ?case by (simp add: proxies_ok_def ports_of_def)
next
  case (Cons p ps)
  then show ?case
    by (cases "cp_type p")
      (auto simp: rbind_Inr_iff Let_def validate_proxy_ok proxies_ok_def ports_of_def)
qed

definition client_config_ok :: "fs \<Rightarrow> client_config \<Rightarrow> bool" where
  "client_config_ok fs c \<longleftrightarrow>
     (let s = cc_client c; ps = cc_proxies c in
      trim (server_addr s) \<noteq> [] \<and> \<not> has_whitespace (server_addr s) \<and> server_port s \<noteq> 0 \<and>
      cl_token s \<noteq> [] \<and> (\<forall>v \<in> set_option (cl_tcp_keepalive_secs s). v \<le> 3600) \<and>
      unwrap_or (cl_heartbeat_timeout_secs s) 10 < unwrap_or (cl_heartbeat_interval_secs s) 30 \<and>
      (\<forall>v \<in> set_option (cl_heartbeat_interval_secs s) \<union> set_option (cl_heartbeat_timeout_secs s).
         1 \<le> v \<and> v \<le> 3600) \<and>
      (\<forall>a \<in> set_option (status_addr s). parse_socket_addr a \<noteq> None) \<and>
      (cl_tls_enable s \<or> cl_work_conn_tls s \<longrightarrow> (\<exists>n. tls_server_name s = Some n \<and> n \<noteq> [])) \<and>
      (\<forall>f \<in> set_option (tls_ca s). fs_is_file fs f) \<and>
      list_all (\<lambda>p. cp_name p \<noteq> [] \<and> proxy_ok p) ps \<and>
      distinct (map cp_name ps) \<and> distinct (ports_of Tcp ps) \<and> distinct (ports_of Udp ps))"

lemma status_addr_check:
  "(case a of None \<Rightarrow> Inr () | Some addr \<Rightarrow> ensure (P addr) (e addr)) = Inr () \<longleftrightarrow>
     (\<forall>x \<in> set_option a. P x)"
  by (cases a) simp_all

lemma ca_check:
  "(case a of None \<Rightarrow> Inr () | Some ca \<Rightarrow> ensure_file_exists fs ca f) = Inr () \<longleftrightarrow>
     (\<forall>x \<in> set_option a. fs_is_file fs x)"
  by (cases a) (simp_all add: ensure_file_exists_def)

lemma validate_client_ok: "validate_client fs c = Inr () \<longleftrightarrow> client_config_ok fs c"
  by (cases "tls_server_name (cc_client c)")
    (auto simp: validate_client_def client_config_ok_def rbind_Inr_iff Let_def check_keepalive_ok
      validate_heartbeat_ok HEARTBEAT_TIMEOUT_def HEARTBEAT_INTERVAL_def status_addr_check
      ca_check check_proxies_ok proxies_ok_def)

section \<open>Properties\<close>


end
