(* ===== verification/Channel.thy ===== *)
theory Channel
  imports Constants
begin

text \<open>
  The bounded channels (\<open>tokio::sync::mpsc\<close>) the tasks talk over, and the two ways the program
  sends on them (\<open>rfrp-common/src/util/control.rs\<close>). A channel keeps the messages that were
  received, so that order and loss can be stated. What the receiver does while a sender waits
  is an argument: the number of messages it takes within the timeout.
\<close>

record 'a chan =
  ch_cap :: nat
  ch_queue :: "'a list"
  ch_received :: "'a list"
  ch_closed :: bool

definition chan_new :: "nat \<Rightarrow> 'a chan" where
  "chan_new cap = \<lparr>ch_cap = cap, ch_queue = [], ch_received = [], ch_closed = False\<rparr>"

definition try_send :: "'a \<Rightarrow> 'a chan \<Rightarrow> bool \<times> 'a chan" where
  "try_send msg c =
     (if ch_closed c \<or> ch_cap c \<le> length (ch_queue c) then (False, c)
      else (True, c\<lparr>ch_queue := ch_queue c @ [msg]\<rparr>))"

definition recv_many :: "nat \<Rightarrow> 'a chan \<Rightarrow> 'a list \<times> 'a chan" where
  \<comment> \<open>up to \<open>limit\<close> messages that are ready\<close>
  "recv_many limit c =
     (let batch = take limit (ch_queue c) in
      (batch, c\<lparr>ch_queue := drop limit (ch_queue c), ch_received := ch_received c @ batch\<rparr>))"

definition send_with_timeout :: "nat \<Rightarrow> 'a \<Rightarrow> 'a chan \<Rightarrow> bool \<times> 'a chan" where
  \<comment> \<open>\<open>taken\<close> messages are received before the timeout; \<open>send\<close> waits for room\<close>
  "send_with_timeout taken msg c =
     (if ch_closed c then (False, c)
      else if length (ch_queue c) < ch_cap c then try_send msg c
      else try_send msg (snd (recv_many taken c)))"

definition close_chan :: "'a chan \<Rightarrow> 'a chan" where
  \<comment> \<open>the receiver is dropped, and what it had not taken with it\<close>
  "close_chan c = c\<lparr>ch_closed := True, ch_queue := []\<rparr>"

instantiation chan_ext :: (type, type) size
begin

definition size_chan_ext :: "('a, 'b) chan_scheme \<Rightarrow> nat" where
  \<comment> \<open>the messages a channel holds\<close>
  "size_chan_ext c = length (ch_queue c)"

instance ..

end

lemma size_chan [simp]:
  "size (chan_new cap) = 0" "size (close_chan c) = 0"
  "fst (try_send msg c) \<Longrightarrow> size (snd (try_send msg c)) = Suc (size c)"
  "size (snd (recv_many n c)) = size c - n"
  by (auto simp: size_chan_ext_def chan_new_def close_chan_def try_send_def recv_many_def Let_def split: if_splits)

definition ch_history :: "'a chan \<Rightarrow> 'a list" where
  "ch_history c = ch_received c @ ch_queue c"

lemma try_send_history:
  "ch_history (snd (try_send msg c)) = ch_history c @ (if fst (try_send msg c) then [msg] else [])"
  by (simp add: try_send_def ch_history_def)

lemma recv_many_history [simp]: "ch_history (snd (recv_many n c)) = ch_history c"
  by (simp add: recv_many_def ch_history_def Let_def)

lemma recv_many_more [simp]: "ch_cap (snd (recv_many n c)) = ch_cap c"
  "ch_closed (snd (recv_many n c)) = ch_closed c"
  by (simp_all add: recv_many_def Let_def)

lemma send_with_timeout_history:
  "ch_history (snd (send_with_timeout n msg c)) =
     ch_history c @ (if fst (send_with_timeout n msg c) then [msg] else [])"
  by (simp add: send_with_timeout_def try_send_history)

lemma try_send_bound:
  "size c \<le> ch_cap c \<Longrightarrow> size (snd (try_send msg c)) \<le> ch_cap c"
  by (simp add: try_send_def size_chan_ext_def)

lemma send_with_timeout_bound:
  "size c \<le> ch_cap c \<Longrightarrow> size (snd (send_with_timeout n msg c)) \<le> ch_cap c"
  by (auto simp: send_with_timeout_def try_send_def recv_many_def size_chan_ext_def Let_def)

lemma send_with_timeout_ok:
  "fst (send_with_timeout n msg c) \<longleftrightarrow>
     \<not> ch_closed c \<and> (length (ch_queue c) < ch_cap c \<or> length (drop n (ch_queue c)) < ch_cap c)"
  by (auto simp: send_with_timeout_def try_send_def recv_many_def Let_def)

end
