(* ===== verification/Metrics.thy ===== *)
theory Metrics
  imports Counting
begin

text \<open>
  The server's counters (\<open>rfrps/src/metrics.rs\<close>). The three atomics a \<open>CountingStream\<close> feeds
  (\<open>bytes_up\<close>, \<open>bytes_down\<close>, \<open>active_connections\<close>), of the process and of each proxy, live in the
  store \<open>shared\<close> of \<open>Counting\<close>; \<open>ct_read\<close> is \<open>bytes_up\<close> and \<open>ct_write\<close> is \<open>bytes_down\<close>. A proxy's
  statistics are known by their address.
\<close>

record metrics =
  mt_started :: instant
  mt_rtt_ms :: u64
  mt_accepted_total :: u64
  mt_accept_errors_total :: u64
  mt_udp_dropped_total :: u64
  mt_accepting :: bool
  mt_total_connections :: u64
  mt_shared :: shared
  mt_proxy_connections :: "nat \<Rightarrow> u64"

definition zero_counters :: counters where
  "zero_counters = \<lparr>ct_read = 0, ct_write = 0, ct_active = 0\<rparr>"

definition metrics_new :: "instant \<Rightarrow> metrics" where
  "metrics_new now =
     \<lparr>mt_started = now, mt_rtt_ms = 0, mt_accepted_total = 0, mt_accept_errors_total = 0,
      mt_udp_dropped_total = 0, mt_accepting = True, mt_total_connections = 0,
      mt_shared = \<lparr>sh_main = zero_counters, sh_extra = (\<lambda>_. zero_counters)\<rparr>,
      mt_proxy_connections = (\<lambda>_. 0)\<rparr>"

definition inc_accepted :: "metrics \<Rightarrow> metrics" where
  "inc_accepted m = m\<lparr>mt_accepted_total := mt_accepted_total m + 1, mt_accepting := True\<rparr>"

definition inc_accept_error :: "metrics \<Rightarrow> metrics" where
  "inc_accept_error m =
     m\<lparr>mt_accept_errors_total := mt_accept_errors_total m + 1, mt_accepting := False\<rparr>"

definition inc_udp_dropped :: "metrics \<Rightarrow> metrics" where
  "inc_udp_dropped m = m\<lparr>mt_udp_dropped_total := mt_udp_dropped_total m + 1\<rparr>"

definition set_rtt_ms :: "u64 \<Rightarrow> metrics \<Rightarrow> metrics" where
  "set_rtt_ms ms m = m\<lparr>mt_rtt_ms := ms\<rparr>"

definition uptime_secs :: "instant \<Rightarrow> metrics \<Rightarrow> nat" where
  "uptime_secs now m = (now - mt_started m) div from_secs 1"

definition add_bytes_up :: "nat \<Rightarrow> metrics \<Rightarrow> metrics" where
  "add_bytes_up n m =
     m\<lparr>mt_shared := (mt_shared m)\<lparr>sh_main := add_read (of_nat n) (sh_main (mt_shared m))\<rparr>\<rparr>"

definition add_bytes_down :: "nat \<Rightarrow> metrics \<Rightarrow> metrics" where
  "add_bytes_down n m =
     m\<lparr>mt_shared := (mt_shared m)\<lparr>sh_main := add_write (of_nat n) (sh_main (mt_shared m))\<rparr>\<rparr>"

definition active_connections :: "metrics \<Rightarrow> int" where
  "active_connections m = ct_active (sh_main (mt_shared m))"

end
