(* ===== verification/UdpProxy.thy ===== *)
theory UdpProxy
  imports UdpFrame SockAddr Channel Metrics
begin

text \<open>
  UDP proxies (\<open>rfrps/src/udp.rs\<close>). A proxy maps user addresses to sessions; a datagram of an
  unknown address creates a pending entry, found again by work id (when the work connection
  arrives) and by address (when more datagrams arrive). The per-session queues are bounded
  channels, known by an address in the proxy's channel heap, because a pending entry, a session
  and the task of a work connection share them.

  The first sections are the operations of the source. The last two are the system they form:
  each lock section is one step, and steps of the listener, of the sweeper, of failed requests
  and of work connections interleave freely.
\<close>

section \<open>State\<close>

definition UDP_PACKET_POOL_MAX :: nat where "UDP_PACKET_POOL_MAX = 256"

record pending_udp =
  pu_client :: socket_addr
  pu_chan :: nat
  pu_created :: instant

record udp_session =
  us_chan :: nat
  us_last_active :: instant

record udp_proxy =
  up_sessions :: "(socket_addr, udp_session) hmap"
  up_pending_by_id :: "(u64, pending_udp) hmap"
  up_pending_client :: "(socket_addr, u64) hmap"
  up_packet_pool :: "bytes list"
  up_session_timeout :: duration
  up_pending_timeout :: duration
  up_stop :: bool
  up_chans :: "nat \<Rightarrow> bytes chan"
  up_next_chan :: nat

definition udp_proxy_new :: "duration \<Rightarrow> udp_proxy" where
  "udp_proxy_new session_timeout =
     \<lparr>up_sessions = [], up_pending_by_id = [], up_pending_client = [], up_packet_pool = [],
      up_session_timeout = session_timeout,
      up_pending_timeout = from_secs WORK_CONN_TIMEOUT_RFRPS, up_stop = False,
      up_chans = (\<lambda>_. chan_new UDP_SESSION_QUEUE_DEPTH), up_next_chan = 0\<rparr>"

section \<open>Packet buffers\<close>

definition alloc_udp_packet :: "bytes list \<Rightarrow> bytes \<Rightarrow> bytes list \<times> bytes" where
  "alloc_udp_packet pool data =
     (let (pool, buf) = (if pool = [] then ([], []) else (butlast pool, last pool));
          buf = take 0 buf  \<comment> \<open>\<open>clear\<close>\<close>
      in (pool, buf @ data))"

fun recycle_loop :: "bytes list \<Rightarrow> bytes list \<Rightarrow> bytes list" where
  "recycle_loop pool [] = pool"
| "recycle_loop pool (p # ps) =
     (if UDP_PACKET_POOL_MAX \<le> length pool then pool else recycle_loop (pool @ [p]) ps)"

definition recycle_packets :: "bytes list \<Rightarrow> bytes list \<Rightarrow> bytes list" where
  "recycle_packets pool packets = (if packets = [] then pool else recycle_loop pool packets)"

lemma alloc_udp_packet_data [simp]: "snd (alloc_udp_packet pool data) = data"
  by (simp add: alloc_udp_packet_def Let_def split: prod.split)

lemma recycle_packets_bound:
  "length pool \<le> UDP_PACKET_POOL_MAX \<Longrightarrow> length (recycle_packets pool ps) \<le> UDP_PACKET_POOL_MAX"
proof -
  have "length pool \<le> UDP_PACKET_POOL_MAX \<Longrightarrow> length (recycle_loop pool ps) \<le> UDP_PACKET_POOL_MAX"
    by (induction pool ps rule: recycle_loop.induct) simp_all
  then show "length pool \<le> UDP_PACKET_POOL_MAX \<Longrightarrow> ?thesis" by (simp add: recycle_packets_def)
qed

section \<open>Receiving a datagram\<close>

type_synonym udp_ctx = "udp_proxy \<times> metrics \<times> u64"

definition deliver :: "nat \<Rightarrow> bytes \<Rightarrow> udp_proxy \<times> metrics \<Rightarrow> udp_proxy \<times> metrics" where
  \<comment> \<open>\<open>try_send\<close> of a pooled copy; a full or closed queue drops the datagram and counts it\<close>
  "deliver c data pm =
     (let (p, m) = pm;
          (pool, pkt) = alloc_udp_packet (up_packet_pool p) data;
          (sent, ch) = try_send pkt (up_chans p c);
          p = p\<lparr>up_packet_pool := pool, up_chans := (up_chans p)(c := ch)\<rparr>
      in (p, if sent then m else inc_udp_dropped m))"

definition new_pending ::
  "socket_addr \<Rightarrow> bytes \<Rightarrow> instant \<Rightarrow> udp_ctx \<Rightarrow> udp_ctx \<times> u64 option" where
  "new_pending peer data now ctx =
     (let (p, m, wid) = ctx;
          c = up_next_chan p;
          work_id = wid + 1;
          m = add_bytes_up (length data) m;
          (pool, pkt) = alloc_udp_packet (up_packet_pool p) data;
          ch = snd (try_send pkt (chan_new UDP_SESSION_QUEUE_DEPTH));
          p = p\<lparr>up_packet_pool := pool, up_chans := (up_chans p)(c := ch), up_next_chan := c + 1\<rparr>;
          p = p\<lparr>up_pending_by_id :=
                 hm_insert work_id \<lparr>pu_client = peer, pu_chan = c, pu_created = now\<rparr>
                   (up_pending_by_id p)\<rparr>;
          p = p\<lparr>up_pending_client := hm_insert peer work_id (up_pending_client p)\<rparr>
      in ((p, m, work_id), Some work_id))"

definition handle_datagram ::
  "socket_addr \<Rightarrow> bytes \<Rightarrow> instant \<Rightarrow> udp_ctx \<Rightarrow> udp_ctx \<times> u64 option" where
  \<comment> \<open>with the work id to request, when the datagram is the first of its address\<close>
  "handle_datagram peer data now ctx =
     (let (p, m, wid) = ctx in
      case hm_get (up_sessions p) peer of
        Some s \<Rightarrow>
          let p = p\<lparr>up_sessions := hm_insert peer (s\<lparr>us_last_active := now\<rparr>) (up_sessions p)\<rparr>;
              m = add_bytes_up (length data) m;
              (p, m) = deliver (us_chan s) data (p, m)
          in ((p, m, wid), None)
      | None \<Rightarrow>
          (case hm_get (up_pending_client p) peer of
             Some wk \<Rightarrow>
               (case hm_get (up_pending_by_id p) wk of
                  Some pd \<Rightarrow>
                    let (p, m) = deliver (pu_chan pd) data (p, m) in ((p, m, wid), None)
                | None \<Rightarrow> ((p, m, wid), None))
           | None \<Rightarrow>
               if MAX_PENDING_UDP_SESSIONS \<le> hm_len (up_pending_by_id p)
               then ((p, inc_udp_dropped m, wid), None)
               else new_pending peer data now (p, m, wid)))"

fun drain_socket_batch ::
  "nat \<Rightarrow> (socket_addr \<times> bytes) option list \<Rightarrow> instant \<Rightarrow> udp_ctx \<Rightarrow> udp_ctx \<times> u64 list" where
  \<comment> \<open>up to \<open>n\<close> more datagrams; \<open>None\<close> is \<open>WouldBlock\<close> or an error, which ends the batch\<close>
  "drain_socket_batch (Suc n) (Some (peer, data) # rs) now ctx =
     (let (ctx, r) = handle_datagram peer data now ctx;
          (ctx, ids) = drain_socket_batch n rs now ctx
      in (ctx, (case r of None \<Rightarrow> ids | Some wk \<Rightarrow> wk # ids)))"
| "drain_socket_batch _ _ now ctx = (ctx, [])"

definition receive_turn ::
  "(socket_addr \<times> bytes) \<Rightarrow> (socket_addr \<times> bytes) option list \<Rightarrow> instant \<Rightarrow> udp_ctx
     \<Rightarrow> udp_ctx \<times> u64 list" where
  \<comment> \<open>one turn of \<open>run_udp_listener\<close> with a datagram: it and the rest of the socket's batch\<close>
  "receive_turn d rs now ctx =
     (let (ctx, r) = handle_datagram (fst d) (snd d) now ctx;
          (ctx, ids) = drain_socket_batch (UDP_RECV_BATCH - 1) rs now ctx
      in (ctx, (case r of None \<Rightarrow> ids | Some wk \<Rightarrow> wk # ids)))"

section \<open>Removing entries\<close>

definition take_by_id :: "u64 \<Rightarrow> udp_proxy \<Rightarrow> pending_udp option \<times> udp_proxy" where
  \<comment> \<open>the first lock section of \<open>remove_pending\<close>\<close>
  "take_by_id work_id p =
     (hm_get (up_pending_by_id p) work_id,
      p\<lparr>up_pending_by_id := hm_remove work_id (up_pending_by_id p)\<rparr>)"

definition forget_client :: "u64 \<Rightarrow> pending_udp \<Rightarrow> udp_proxy \<Rightarrow> udp_proxy" where
  \<comment> \<open>the second one: only if the address still maps to this work id\<close>
  "forget_client work_id pd p =
     (if hm_get (up_pending_client p) (pu_client pd) = Some work_id
      then p\<lparr>up_pending_client := hm_remove (pu_client pd) (up_pending_client p)\<rparr>
      else p)"

definition remove_pending :: "u64 \<Rightarrow> udp_proxy \<Rightarrow> pending_udp option \<times> udp_proxy" where
  "remove_pending work_id p =
     (case take_by_id work_id p of
        (None, p) \<Rightarrow> (None, p)
      | (Some pd, p) \<Rightarrow> (Some pd, forget_client work_id pd p))"

definition close_at :: "nat \<Rightarrow> udp_proxy \<Rightarrow> udp_proxy" where
  \<comment> \<open>the receiving end at this address is dropped\<close>
  "close_at c p = p\<lparr>up_chans := (up_chans p)(c := close_chan (up_chans p c))\<rparr>"

definition drop_pending :: "u64 \<Rightarrow> udp_proxy \<Rightarrow> udp_proxy" where
  "drop_pending work_id p =
     (case remove_pending work_id p of
        (None, p) \<Rightarrow> p | (Some pd, p) \<Rightarrow> close_at (pu_chan pd) p)"

definition sweep_sessions :: "instant \<Rightarrow> udp_proxy \<Rightarrow> udp_proxy" where
  "sweep_sessions now p =
     p\<lparr>up_sessions :=
        hm_retain (\<lambda>_ s. now - us_last_active s < up_session_timeout p) (up_sessions p)\<rparr>"

definition expired_pending :: "instant \<Rightarrow> udp_proxy \<Rightarrow> u64 list" where
  "expired_pending now p =
     map fst (filter (\<lambda>(_, pd). up_pending_timeout p \<le> now - pu_created pd) (up_pending_by_id p))"

definition sweep :: "instant \<Rightarrow> udp_proxy \<Rightarrow> udp_proxy" where
  "sweep now p = (let p = sweep_sessions now p in fold drop_pending (expired_pending now p) p)"

section \<open>Work connections\<close>

definition register_session :: "socket_addr \<Rightarrow> nat \<Rightarrow> instant \<Rightarrow> udp_proxy \<Rightarrow> udp_proxy" where
  "register_session client c now p =
     p\<lparr>up_sessions := hm_insert client \<lparr>us_chan = c, us_last_active = now\<rparr> (up_sessions p)\<rparr>"

definition touch_session :: "socket_addr \<Rightarrow> instant \<Rightarrow> udp_proxy \<Rightarrow> udp_proxy" where
  "touch_session client now p =
     p\<lparr>up_sessions := hm_update client (\<lambda>s. s\<lparr>us_last_active := now\<rparr>) (up_sessions p)\<rparr>"

datatype conn_event =
    RxReady bool  \<comment> \<open>datagrams for the client; whether the write succeeds\<close>
  | StreamReady "(io_error, bytes list) result"  \<comment> \<open>\<open>read_batch\<close>\<close>
  | Stopped

definition forward_to_client :: "bytes list \<Rightarrow> metrics \<Rightarrow> metrics" where
  "forward_to_client frames m = fold (\<lambda>d. add_bytes_down (length d)) frames m"

definition conn_turn ::
  "socket_addr \<Rightarrow> nat \<Rightarrow> instant \<Rightarrow> conn_event \<Rightarrow> udp_proxy \<times> metrics
     \<Rightarrow> (udp_proxy \<times> metrics) \<times> bytes list \<times> bytes list \<times> bool" where
  \<comment> \<open>one turn of the loop of \<open>handle_udp_work_conn\<close>: the datagrams written to the work
      connection and those sent to the user, and whether the loop goes on\<close>
  "conn_turn client c now ev pm =
     (let (p, m) = pm in
      case ev of
        RxReady write_ok \<Rightarrow>
          let (batch, ch) = recv_many UDP_WRITE_BATCH (up_chans p c);
              p = p\<lparr>up_chans := (up_chans p)(c := ch)\<rparr>
          in if batch = [] then ((p, m), [], [], False)
             else let p = touch_session client now p in
               if \<not> write_ok then ((p, m), [], [], False)
               else ((p\<lparr>up_packet_pool := recycle_packets (up_packet_pool p) batch\<rparr>, m), batch, [], True)
      | StreamReady (Inl e) \<Rightarrow> ((p, m), [], [], False)
      | StreamReady (Inr down) \<Rightarrow>
          if down = [] then ((p, m), [], [], False)
          else ((touch_session client now p, forward_to_client down m), [], down, True)
      | Stopped \<Rightarrow> ((p, m), [], [], False))"

fun conn_loop ::
  "socket_addr \<Rightarrow> nat \<Rightarrow> (instant \<times> conn_event) list \<Rightarrow> udp_proxy \<times> metrics
     \<Rightarrow> (udp_proxy \<times> metrics) \<times> bytes list \<times> bytes list" where
  "conn_loop client c [] pm = (pm, [], [])"
| "conn_loop client c ((now, ev) # evs) pm =
     (let (pm, up, down, go) = conn_turn client c now ev pm in
      if go then let (pm, up', down') = conn_loop client c evs pm in (pm, up @ up', down @ down')
      else (pm, up, down))"

definition conn_end :: "socket_addr \<Rightarrow> nat \<Rightarrow> udp_proxy \<Rightarrow> udp_proxy" where
  \<comment> \<open>after the loop: the session of the address is removed and the receiver dropped\<close>
  "conn_end client c p =
     close_at c (p\<lparr>up_sessions := hm_remove client (up_sessions p)\<rparr>)"

definition handle_udp_work_conn ::
  "u64 \<Rightarrow> instant \<Rightarrow> (instant \<times> conn_event) list \<Rightarrow> udp_proxy \<times> metrics
     \<Rightarrow> (udp_proxy \<times> metrics) \<times> bytes list \<times> bytes list" where
  "handle_udp_work_conn work_id now evs pm =
     (case remove_pending work_id (fst pm) of
        (None, p) \<Rightarrow> ((p, snd pm), [], [])
      | (Some pd, p) \<Rightarrow>
          let p = register_session (pu_client pd) (pu_chan pd) now p;
              ((p, m), up, down) = conn_loop (pu_client pd) (pu_chan pd) evs (p, snd pm)
          in ((conn_end (pu_client pd) (pu_chan pd) p, m), up, down))"

section \<open>The system of tasks\<close>

record udp_sys =
  y_proxy :: udp_proxy
  y_metrics :: metrics
  y_work_id :: u64
  y_removing :: "(u64 \<times> pending_udp) list"  \<comment> \<open>tasks between the two halves of \<open>remove_pending\<close>\<close>
  y_conns :: "(socket_addr \<times> nat) list"  \<comment> \<open>work connections in their loop\<close>

text \<open>
  The work id counter is shared with the rest of the server; a step needs an id only while the
  64-bit counter has not wrapped.
\<close>

inductive udp_table_step :: "udp_sys \<Rightarrow> udp_sys \<Rightarrow> bool" where
  \<comment> \<open>steps on the tables alone\<close>
  OtherId: "y_work_id s \<noteq> - 1 \<Longrightarrow> udp_table_step s (s\<lparr>y_work_id := y_work_id s + 1\<rparr>)"
| SweepSessions: "udp_table_step s (s\<lparr>y_proxy := sweep_sessions now (y_proxy s)\<rparr>)"
| Take: "take_by_id wk (y_proxy s) = (Some pd, p) \<Longrightarrow>
     udp_table_step s (s\<lparr>y_proxy := p, y_removing := (wk, pd) # y_removing s\<rparr>)"
| Expire: "(wk, pd) \<in> set (y_removing s) \<Longrightarrow>
     udp_table_step s (s\<lparr>y_proxy := close_at (pu_chan pd) (forget_client wk pd (y_proxy s)),
                         y_removing := remove1 (wk, pd) (y_removing s)\<rparr>)"
| Pair: "(wk, pd) \<in> set (y_removing s) \<Longrightarrow>
     udp_table_step s (s\<lparr>y_proxy := register_session (pu_client pd) (pu_chan pd) now
                                      (forget_client wk pd (y_proxy s)),
                         y_removing := remove1 (wk, pd) (y_removing s),
                         y_conns := (pu_client pd, pu_chan pd) # y_conns s\<rparr>)"

inductive udp_step :: "udp_sys \<Rightarrow> udp_sys \<Rightarrow> bool" where
  Datagram: "y_work_id s \<noteq> - 1 \<Longrightarrow>
     handle_datagram peer data now (y_proxy s, y_metrics s, y_work_id s) = ((p, m, w), r) \<Longrightarrow>
     udp_step s (s\<lparr>y_proxy := p, y_metrics := m, y_work_id := w\<rparr>)"
| Tables: "udp_table_step s s' \<Longrightarrow> udp_step s s'"
| Turn: "(client, c) \<in> set (y_conns s) \<Longrightarrow>
     conn_turn client c now ev (y_proxy s, y_metrics s) = ((p, m), up, down, True) \<Longrightarrow>
     udp_step s (s\<lparr>y_proxy := p, y_metrics := m\<rparr>)"
| ConnEnd: "(client, c) \<in> set (y_conns s) \<Longrightarrow>
     conn_turn client c now ev (y_proxy s, y_metrics s) = ((p, m), up, down, False) \<Longrightarrow>
     udp_step s (s\<lparr>y_proxy := conn_end client c p, y_metrics := m,
                   y_conns := remove1 (client, c) (y_conns s)\<rparr>)"

definition pend_inv ::
  "(u64, pending_udp) hmap \<Rightarrow> (socket_addr, u64) hmap \<Rightarrow> u64 \<Rightarrow> (u64 \<times> pending_udp) list \<Rightarrow> bool" where
  "pend_inv bi bc wid rem \<longleftrightarrow>
     hm_wf bi \<and> hm_len bi \<le> MAX_PENDING_UDP_SESSIONS \<and>
     (\<forall>wk pd. hm_get bi wk = Some pd \<longrightarrow> hm_get bc (pu_client pd) = Some wk \<and> wk \<le> wid) \<and>
     (\<forall>a wk. hm_get bc a = Some wk \<longrightarrow>
        (\<exists>pd. pu_client pd = a \<and> (hm_get bi wk = Some pd \<or> (wk, pd) \<in> set rem))) \<and>
     (\<forall>wk pd. (wk, pd) \<in> set rem \<longrightarrow> hm_get bi wk = None \<and> wk \<le> wid)"

definition udp_inv :: "udp_sys \<Rightarrow> bool" where
  "udp_inv s \<longleftrightarrow>
     pend_inv (up_pending_by_id (y_proxy s)) (up_pending_client (y_proxy s)) (y_work_id s)
       (y_removing s)"

definition tables :: "udp_proxy \<Rightarrow> (u64, pending_udp) hmap \<times> (socket_addr, u64) hmap" where
  "tables p = (up_pending_by_id p, up_pending_client p)"

lemma deliver_tables [simp]: "tables (fst (deliver c data pm)) = tables (fst pm)"
  by (simp add: deliver_def tables_def Let_def case_prod_beta)

lemma tables_frame [simp]:
  "tables (sweep_sessions now p) = tables p" "tables (register_session cl c now p) = tables p"
  "tables (touch_session cl now p) = tables p" "tables (conn_end cl c p) = tables p"
  "tables (close_at c p) = tables p"
  by (simp_all add: tables_def sweep_sessions_def register_session_def touch_session_def
      conn_end_def close_at_def)

lemma conn_turn_tables: "tables (fst (fst (conn_turn cl c now ev pm))) = tables (fst pm)"
  by (cases ev; cases pm)
    (auto simp: conn_turn_def Let_def case_prod_beta tables_def touch_session_def split: sum.split)

lemma word_succ:
  fixes w :: u64
  assumes "w \<noteq> - 1"
  shows "w < w + 1"
proof -
  have "unat w \<noteq> unat (- 1 :: u64)" using assms unsigned_word_eqI by blast
  then have "unat w \<noteq> 2 ^ 64 - 1" by (simp add: unsigned_minus_1_eq_mask mask_eq_exp_minus_1)
  moreover have "unat w \<le> 2 ^ 64 - 1" by (rule unat_u64_le)
  ultimately have "unat w + unat (1 :: u64) < 2 ^ LENGTH(64)" by simp
  then have "unat (w + 1) = Suc (unat w)" using unat_add_lem [of w 1] by simp
  then show ?thesis by (simp add: word_less_nat_alt)
qed

lemma pend_inv_succ: "w \<noteq> - 1 \<Longrightarrow> pend_inv bi bc w rem \<Longrightarrow> pend_inv bi bc (w + 1) rem"
  using word_succ [of w] unfolding pend_inv_def by (meson order_trans less_imp_le)

lemma pend_invI:
  assumes "hm_wf bi" and "hm_len bi \<le> MAX_PENDING_UDP_SESSIONS"
    and "\<And>wk pd. hm_get bi wk = Some pd \<Longrightarrow> hm_get bc (pu_client pd) = Some wk"
    and "\<And>wk pd. hm_get bi wk = Some pd \<Longrightarrow> wk \<le> wid"
    and "\<And>a wk. hm_get bc a = Some wk \<Longrightarrow>
      \<exists>pd. pu_client pd = a \<and> (hm_get bi wk = Some pd \<or> (wk, pd) \<in> set rem)"
    and "\<And>wk pd. (wk, pd) \<in> set rem \<Longrightarrow> hm_get bi wk = None"
    and "\<And>wk pd. (wk, pd) \<in> set rem \<Longrightarrow> wk \<le> wid"
  shows "pend_inv bi bc wid rem"
  using assms unfolding pend_inv_def by blast

lemma pend_invD:
  assumes "pend_inv bi bc wid rem"
  shows "hm_wf bi" "hm_len bi \<le> MAX_PENDING_UDP_SESSIONS"
    "hm_get bi wk = Some pd \<Longrightarrow> hm_get bc (pu_client pd) = Some wk"
    "hm_get bi wk = Some pd \<Longrightarrow> wk \<le> wid"
    "hm_get bc a = Some wk \<Longrightarrow>
      \<exists>pd. pu_client pd = a \<and> (hm_get bi wk = Some pd \<or> (wk, pd) \<in> set rem)"
    "(wk, pd) \<in> set rem \<Longrightarrow> hm_get bi wk = None"
    "(wk, pd) \<in> set rem \<Longrightarrow> wk \<le> wid"
  using assms unfolding pend_inv_def by blast+

lemma pend_inv_insert:
  assumes inv: "pend_inv bi bc w rem" and w: "w \<noteq> - 1"
    and new: "hm_get bc (pu_client pd) = None" "hm_len bi < MAX_PENDING_UDP_SESSIONS"
  shows "pend_inv (hm_insert (w + 1) pd bi) (hm_insert (pu_client pd) (w + 1) bc) (w + 1) rem"
proof (rule pend_invI)
  note lt = word_succ [OF w] and d = pend_invD [OF inv]
  have le: "k \<le> w + 1" if "k \<le> w" for k using that lt by (meson order_trans less_imp_le)
  have fresh: "hm_get bi (w + 1) = None"
    using d(4) [of "w + 1"] lt by (metis not_None_eq not_le)
  have frem: "(w + 1, q) \<notin> set rem" for q
    using d(7) [of "w + 1" q] lt by (meson not_le)
  show "hm_wf (hm_insert (w + 1) pd bi)" using d(1) by blast
  show "hm_len (hm_insert (w + 1) pd bi) \<le> MAX_PENDING_UDP_SESSIONS"
    using fresh new(2) by (simp add: hm_len_insert [OF d(1)] hm_has_def)
  fix wk q
  {
    assume g: "hm_get (hm_insert (w + 1) pd bi) wk = Some q"
    show "wk \<le> w + 1" using g d(4) [of wk q] le by (auto split: if_splits)
    show "hm_get (hm_insert (pu_client pd) (w + 1) bc) (pu_client q) = Some wk"
      using g d(3) [of wk q] new(1) by (auto split: if_splits)
  next
    fix a
    assume "hm_get (hm_insert (pu_client pd) (w + 1) bc) a = Some wk"
    then show "\<exists>q. pu_client q = a \<and>
        (hm_get (hm_insert (w + 1) pd bi) wk = Some q \<or> (wk, q) \<in> set rem)"
      using d(5) [of a wk] fresh frem by (cases "a = pu_client pd") fastforce+
  next
    assume r: "(wk, q) \<in> set rem"
    show "hm_get (hm_insert (w + 1) pd bi) wk = None" using r d(6) [OF r] frem by auto
    show "wk \<le> w + 1" using le d(7) [OF r] by blast
  }
qed

lemma pend_inv_take:
  assumes inv: "pend_inv bi bc w rem" and pd: "hm_get bi wk = Some pd"
  shows "pend_inv (hm_remove wk bi) bc w ((wk, pd) # rem)"
proof (rule pend_invI)
  note d = pend_invD [OF inv]
  show "hm_wf (hm_remove wk bi)" using d(1) by blast
  show "hm_len (hm_remove wk bi) \<le> MAX_PENDING_UDP_SESSIONS"
    using d(2) by (auto simp: hm_len_remove [OF d(1)] intro: le_trans [OF diff_le_self])
  fix k q
  {
    assume g: "hm_get (hm_remove wk bi) k = Some q"
    then have "hm_get bi k = Some q" by (auto split: if_splits)
    then show "hm_get bc (pu_client q) = Some k" "k \<le> w" using d(3,4) by blast+
  next
    fix a
    assume "hm_get bc a = Some k"
    then show "\<exists>q. pu_client q = a \<and> (hm_get (hm_remove wk bi) k = Some q \<or> (k, q) \<in> set ((wk, pd) # rem))"
      using d(5) [of a k] pd by auto
  next
    assume r: "(k, q) \<in> set ((wk, pd) # rem)"
    then show "hm_get (hm_remove wk bi) k = None" "k \<le> w"
      using d(4) [OF pd] d(6,7) [of k q] by auto
  }
qed

lemma pend_inv_forget:
  assumes inv: "pend_inv bi bc w rem" and mem: "(wk, pd) \<in> set rem"
  shows "pend_inv bi (if hm_get bc (pu_client pd) = Some wk then hm_remove (pu_client pd) bc else bc) w
    (remove1 (wk, pd) rem)"
proof -
  let ?bc = "if hm_get bc (pu_client pd) = Some wk then hm_remove (pu_client pd) bc else bc"
  let ?rem = "remove1 (wk, pd) rem"
  have sub: "x \<in> set rem" if "x \<in> set ?rem" for x using that set_remove1_subset by fastforce
  have gone: "hm_get bi wk = None" using inv mem by (auto simp: pend_inv_def)
  have bc: "hm_get ?bc a = Some k \<longleftrightarrow> hm_get bc a = Some k \<and> \<not> (a = pu_client pd \<and> k = wk)" for a k
    by auto
  have "\<exists>q. pu_client q = a \<and> (hm_get bi k = Some q \<or> (k, q) \<in> set ?rem)"
    if "hm_get ?bc a = Some k" for a k
  proof -
    from that bc have b: "hm_get bc a = Some k" and n: "\<not> (a = pu_client pd \<and> k = wk)" by blast+
    from b inv obtain q where q: "pu_client q = a" "hm_get bi k = Some q \<or> (k, q) \<in> set rem"
      unfolding pend_inv_def by blast
    from n q(1) have "(k, q) \<noteq> (wk, pd)" by auto
    with q(2) have "hm_get bi k = Some q \<or> (k, q) \<in> set ?rem" by (simp add: in_set_remove1)
    with q(1) show ?thesis by blast
  qed
  moreover have "hm_get ?bc (pu_client q) = Some k \<and> k \<le> w" if "hm_get bi k = Some q" for k q
    using that inv gone bc unfolding pend_inv_def by auto
  moreover have "hm_get bi k = None \<and> k \<le> w" if "(k, q) \<in> set ?rem" for k q
    using sub [OF that] inv unfolding pend_inv_def by blast
  ultimately show ?thesis using inv unfolding pend_inv_def by blast
qed

lemma new_pending_tables:
  "new_pending peer data now (p, m, w) = ((p', m', w'), r) \<Longrightarrow>
   w' = w + 1 \<and> (\<exists>pd. pu_client pd = peer \<and>
     tables p' = (hm_insert (w + 1) pd (up_pending_by_id p),
                  hm_insert peer (w + 1) (up_pending_client p)))"
  by (auto simp: new_pending_def Let_def case_prod_beta tables_def
      intro!: exI [of _ "\<lparr>pu_client = peer, pu_chan = up_next_chan p, pu_created = now\<rparr>"])

lemma handle_datagram_tables:
  assumes "handle_datagram peer data now (p, m, w) = ((p', m', w'), r)"
  shows "(tables p' = tables p \<and> w' = w) \<or>
    (w' = w + 1 \<and> hm_get (up_pending_client p) peer = None \<and>
     hm_len (up_pending_by_id p) < MAX_PENDING_UDP_SESSIONS \<and>
     (\<exists>pd. pu_client pd = peer \<and>
       tables p' = (hm_insert (w + 1) pd (up_pending_by_id p),
                    hm_insert peer (w + 1) (up_pending_client p))))"
proof (cases "hm_get (up_sessions p) peer")
  case (Some s)
  let ?p = "p\<lparr>up_sessions := hm_insert peer (s\<lparr>us_last_active := now\<rparr>) (up_sessions p)\<rparr>"
  from Some assms have "p' = fst (deliver (us_chan s) data (?p, add_bytes_up (length data) m))" "w' = w"
    by (auto simp: handle_datagram_def Let_def case_prod_beta)
  then have "tables p' = tables ?p" "w' = w" by simp_all
  then show ?thesis by (simp add: tables_def)
next
  case None
  note s = None
  show ?thesis
  proof (cases "hm_get (up_pending_client p) peer")
    case (Some wk)
    show ?thesis
    proof (cases "hm_get (up_pending_by_id p) wk")
      case (Some pd)
      with s \<open>hm_get (up_pending_client p) peer = _\<close> assms
      have "p' = fst (deliver (pu_chan pd) data (p, m))" "w' = w"
        by (auto simp: handle_datagram_def Let_def case_prod_beta)
      then show ?thesis by simp
    qed (use s Some assms in \<open>auto simp: handle_datagram_def Let_def\<close>)
  next
    case None
    show ?thesis
    proof (cases "MAX_PENDING_UDP_SESSIONS \<le> hm_len (up_pending_by_id p)")
      case False
      with s None assms have "new_pending peer data now (p, m, w) = ((p', m', w'), r)"
        by (simp add: handle_datagram_def Let_def)
      from new_pending_tables [OF this] None False show ?thesis by auto
    qed (use s None assms in \<open>auto simp: handle_datagram_def Let_def\<close>)
  qed
qed

lemma udp_table_keeps: "udp_table_step s t \<Longrightarrow> udp_inv s \<Longrightarrow> udp_inv t"
proof (induction rule: udp_table_step.induct)
  case (Take wk s pd p)
  then show ?case by (auto simp: udp_inv_def take_by_id_def intro: pend_inv_take)
next
  case (Expire wk pd s)
  then have "pend_inv (up_pending_by_id (y_proxy s))
      (if hm_get (up_pending_client (y_proxy s)) (pu_client pd) = Some wk
       then hm_remove (pu_client pd) (up_pending_client (y_proxy s))
       else up_pending_client (y_proxy s)) (y_work_id s) (remove1 (wk, pd) (y_removing s))"
    by (intro pend_inv_forget) (simp_all add: udp_inv_def)
  then show ?case by (simp add: udp_inv_def forget_client_def close_at_def split: if_splits)
next
  case (Pair wk pd s now)
  then have "pend_inv (up_pending_by_id (y_proxy s))
      (if hm_get (up_pending_client (y_proxy s)) (pu_client pd) = Some wk
       then hm_remove (pu_client pd) (up_pending_client (y_proxy s))
       else up_pending_client (y_proxy s)) (y_work_id s) (remove1 (wk, pd) (y_removing s))"
    by (intro pend_inv_forget) (simp_all add: udp_inv_def)
  then show ?case by (simp add: udp_inv_def forget_client_def register_session_def split: if_splits)
qed (simp_all add: udp_inv_def pend_inv_succ sweep_sessions_def)

lemma udp_step_keeps: "udp_step s t \<Longrightarrow> udp_inv s \<Longrightarrow> udp_inv t"
proof (induction rule: udp_step.induct)
  case (Datagram s peer data now p m w r)
  from handle_datagram_tables [OF Datagram(2)] show ?case
    using Datagram(1,3) by (auto simp: udp_inv_def tables_def intro: pend_inv_insert)
next
  case (Tables s s')
  then show ?case by (rule udp_table_keeps)
next
  case (Turn client c s now ev p m up down)
  then show ?case
    using conn_turn_tables [of client c now ev "(y_proxy s, y_metrics s)"]
    by (simp add: udp_inv_def tables_def)
next
  case (ConnEnd client c s now ev p m up down)
  then show ?case
    using conn_turn_tables [of client c now ev "(y_proxy s, y_metrics s)"]
    by (simp add: udp_inv_def tables_def conn_end_def close_at_def)
qed

interpretation us: step_invariant udp_step udp_inv
  by unfold_locales (rule udp_step_keeps)

definition udp_start :: "duration \<Rightarrow> metrics \<Rightarrow> u64 \<Rightarrow> udp_sys" where
  "udp_start session_timeout m w =
     \<lparr>y_proxy = udp_proxy_new session_timeout, y_metrics = m, y_work_id = w, y_removing = [],
      y_conns = []\<rparr>"

lemma udp_start_inv: "udp_inv (udp_start t m w)"
  by (simp add: udp_inv_def pend_inv_def udp_start_def udp_proxy_new_def)

lemma udp_reachable_inv: "udp_step\<^sup>*\<^sup>* (udp_start t m w) s \<Longrightarrow> udp_inv s"
  using us.run_keeps udp_start_inv by blast

section \<open>What happens to a datagram\<close>

definition queue_of :: "socket_addr \<Rightarrow> udp_proxy \<Rightarrow> nat option" where
  "queue_of peer p =
     (case hm_get (up_sessions p) peer of
        Some s \<Rightarrow> Some (us_chan s)
      | None \<Rightarrow>
          (case hm_get (up_pending_client p) peer of
             Some wk \<Rightarrow> map_option pu_chan (hm_get (up_pending_by_id p) wk)
           | None \<Rightarrow> None))"

definition dropped :: "metrics \<Rightarrow> u64" where
  "dropped m = mt_udp_dropped_total m"

definition fate :: "socket_addr \<Rightarrow> bytes \<Rightarrow> udp_proxy \<times> metrics \<Rightarrow> udp_proxy \<times> metrics \<Rightarrow> bool \<Rightarrow> bool" where
  \<comment> \<open>dropped and counted, or at the end of the queue of its address, nothing else changed\<close>
  "fate peer data old new first \<longleftrightarrow>
     (dropped (snd new) = dropped (snd old) + 1 \<and> up_chans (fst new) = up_chans (fst old)) \<or>
     (dropped (snd new) = dropped (snd old) \<and>
      (\<exists>c. queue_of peer (fst new) = Some c \<and>
         ch_history (up_chans (fst new) c) =
           (if first then [] else ch_history (up_chans (fst old) c)) @ [data] \<and>
         (\<forall>d \<in> - {c}. up_chans (fst new) d = up_chans (fst old) d)))"

lemma dropped_simps [simp]:
  "dropped (add_bytes_up n m) = dropped m" "dropped (inc_udp_dropped m) = dropped m + 1"
  by (simp_all add: dropped_def add_bytes_up_def inc_udp_dropped_def)

lemma deliver_fate:
  assumes "queue_of peer p = Some c"
  shows "fate peer data (p, m) (deliver c data (p, m)) False"
proof -
  have q: "queue_of peer (fst (deliver c data (p, m))) = Some c"
    using assms by (auto simp: deliver_def queue_of_def Let_def case_prod_beta split: option.splits)
  show ?thesis
  proof (cases "fst (try_send data (up_chans p c))")
    case True
    then have "ch_history (up_chans (fst (deliver c data (p, m))) c) = ch_history (up_chans p c) @ [data]"
      using try_send_history [of data "up_chans p c"]
      by (simp add: deliver_def Let_def case_prod_beta)
    moreover have "\<forall>d \<in> - {c}. up_chans (fst (deliver c data (p, m))) d = up_chans p d"
      by (simp add: deliver_def Let_def case_prod_beta)
    moreover have "dropped (snd (deliver c data (p, m))) = dropped m"
      using True by (simp add: deliver_def Let_def case_prod_beta)
    ultimately show ?thesis using q unfolding fate_def by auto
  next
    case False
    then have "snd (try_send data (up_chans p c)) = up_chans p c"
      by (auto simp: try_send_def split: if_splits)
    with False show ?thesis
      by (simp add: fate_def deliver_def Let_def case_prod_beta)
  qed
qed

lemma fate_cong:
  "fate peer data (p, m) new f \<Longrightarrow> up_chans p' = up_chans p \<Longrightarrow> dropped m' = dropped m \<Longrightarrow>
   fate peer data (p', m') new f"
  unfolding fate_def fst_conv snd_conv by (simp only:)

lemma new_pending_fate:
  assumes "new_pending peer data now (p, m, w) = ((p', m', w'), r)"
    and "hm_get (up_sessions p) peer = None"
  shows "fate peer data (p, m) (p', m') True"
  using assms
  by (auto simp: new_pending_def Let_def case_prod_beta fate_def queue_of_def try_send_def
      chan_new_def ch_history_def UDP_SESSION_QUEUE_DEPTH_def)

lemma handle_datagram_fate:
  assumes inv: "pend_inv (up_pending_by_id p) (up_pending_client p) w []"
    and h: "handle_datagram peer data now (p, m, w) = ((p', m', w'), r)"
  shows "fate peer data (p, m) (p', m') (r \<noteq> None)"
proof (cases "hm_get (up_sessions p) peer")
  case (Some s)
  let ?p = "p\<lparr>up_sessions := hm_insert peer (s\<lparr>us_last_active := now\<rparr>) (up_sessions p)\<rparr>"
  have "queue_of peer ?p = Some (us_chan s)" by (simp add: queue_of_def)
  from deliver_fate [OF this, of data "add_bytes_up (length data) m"] Some h show ?thesis
    by (auto simp: handle_datagram_def Let_def case_prod_beta elim!: fate_cong)
next
  case None
  note s = None
  show ?thesis
  proof (cases "hm_get (up_pending_client p) peer")
    case (Some wk)
    with pend_invD(5) [OF inv] obtain pd where pd: "hm_get (up_pending_by_id p) wk = Some pd"
      by fastforce
    with s Some have "queue_of peer p = Some (pu_chan pd)" by (simp add: queue_of_def)
    from deliver_fate [OF this, of data m] s Some pd h show ?thesis
      by (auto simp: handle_datagram_def Let_def case_prod_beta)
  next
    case None
    show ?thesis
    proof (cases "MAX_PENDING_UDP_SESSIONS \<le> hm_len (up_pending_by_id p)")
      case True
      with s None h show ?thesis by (auto simp: handle_datagram_def Let_def fate_def)
    next
      case False
      with s None h have n: "new_pending peer data now (p, m, w) = ((p', m', w'), r)"
        by (simp add: handle_datagram_def Let_def)
      then have "r \<noteq> None" by (auto simp: new_pending_def Let_def case_prod_beta)
      with new_pending_fate [OF n s] show ?thesis by simp
    qed
  qed
qed

section \<open>What a sweep removes\<close>

lemma drop_pending_by_id: "up_pending_by_id (drop_pending wk p) = hm_remove wk (up_pending_by_id p)"
  by (auto simp: drop_pending_def remove_pending_def take_by_id_def forget_client_def close_at_def
      split: option.split)

lemma drop_pending_sessions: "up_sessions (drop_pending wk p) = up_sessions p"
  by (auto simp: drop_pending_def remove_pending_def take_by_id_def forget_client_def close_at_def
      split: option.split)

lemma fold_drop_pending:
  "up_pending_by_id (fold drop_pending ks p) = fold hm_remove ks (up_pending_by_id p)"
  "up_sessions (fold drop_pending ks p) = up_sessions p"
  by (induction ks arbitrary: p) (simp_all add: drop_pending_by_id drop_pending_sessions)

lemma expired_pending_iff:
  "hm_wf (up_pending_by_id p) \<Longrightarrow> wk \<in> set (expired_pending now p) \<longleftrightarrow>
     (\<exists>pd. hm_get (up_pending_by_id p) wk = Some pd \<and> up_pending_timeout p \<le> now - pu_created pd)"
  by (auto simp: expired_pending_def hm_in_set [symmetric] intro!: rev_image_eqI)

lemma sweep_exact:
  assumes "hm_wf (up_pending_by_id p)" and "hm_wf (up_sessions p)"
  shows "hm_get (up_pending_by_id (sweep now p)) wk =
      (case hm_get (up_pending_by_id p) wk of
         None \<Rightarrow> None
       | Some pd \<Rightarrow> if now - pu_created pd < up_pending_timeout p then Some pd else None) \<and>
    hm_get (up_sessions (sweep now p)) a =
      (case hm_get (up_sessions p) a of
         None \<Rightarrow> None
       | Some s \<Rightarrow> if now - us_last_active s < up_session_timeout p then Some s else None)"
proof -
  let ?p = "sweep_sessions now p"
  have t: "up_pending_by_id ?p = up_pending_by_id p" "up_pending_timeout ?p = up_pending_timeout p"
    by (simp_all add: sweep_sessions_def)
  have e: "wk \<in> set (expired_pending now ?p) \<longleftrightarrow>
      (\<exists>pd. hm_get (up_pending_by_id p) wk = Some pd \<and> up_pending_timeout p \<le> now - pu_created pd)"
    using expired_pending_iff [of ?p wk now] assms(1) t by simp
  have "hm_get (up_pending_by_id (sweep now p)) wk =
      (if wk \<in> set (expired_pending now ?p) then None else hm_get (up_pending_by_id p) wk)"
    by (simp add: sweep_def Let_def fold_drop_pending t)
  moreover have "up_sessions (sweep now p) = up_sessions ?p"
    by (simp add: sweep_def Let_def fold_drop_pending)
  ultimately show ?thesis
    using e assms(2)
    by (auto simp: sweep_sessions_def hm_get_retain not_le split: option.split)
qed

section \<open>Properties\<close>


definition demo_peer :: socket_addr where
  "demo_peer = \<lparr>sa_ip = V4 [192, 0, 2, 1], sa_port = 53\<rparr>"

definition demo_udp :: udp_sys where
  \<comment> \<open>after one datagram\<close>
  "demo_udp =
     (let s = udp_start 300 (metrics_new 0) 0;
          ((p, m, w), _) = handle_datagram demo_peer [1, 2] 5 (y_proxy s, y_metrics s, y_work_id s)
      in s\<lparr>y_proxy := p, y_metrics := m, y_work_id := w\<rparr>)"

lemma demo_udp_reachable: "udp_step\<^sup>*\<^sup>* (udp_start 300 (metrics_new 0) 0) demo_udp"
proof -
  let ?s = "udp_start 300 (metrics_new 0) 0"
  let ?h = "handle_datagram demo_peer [1, 2] 5 (y_proxy ?s, y_metrics ?s, y_work_id ?s)"
  obtain p m w r where h: "?h = ((p, m, w), r)" by (metis surj_pair)
  have "udp_step ?s (?s\<lparr>y_proxy := p, y_metrics := m, y_work_id := w\<rparr>)"
    by (rule udp_step.Datagram [OF _ h]) (simp add: udp_start_def)
  with h show ?thesis by (simp add: demo_udp_def Let_def)
qed




text \<open>
  A sweep removes exactly the sessions without activity for the session timeout and the
  pending entries as old as the pairing timeout, and keeps every other one as it is.
\<close>

theorem udp_sweep_exact:
  assumes "hm_wf (up_pending_by_id p)" and "hm_wf (up_sessions p)"
  shows "hm_get (up_pending_by_id (sweep now p)) wk =
      (case hm_get (up_pending_by_id p) wk of
         None \<Rightarrow> None
       | Some pd \<Rightarrow> if now - pu_created pd < up_pending_timeout p then Some pd else None) \<and>
    hm_get (up_sessions (sweep now p)) a =
      (case hm_get (up_sessions p) a of
         None \<Rightarrow> None
       | Some s \<Rightarrow> if now - us_last_active s < up_session_timeout p then Some s else None)"
  using assms by (rule sweep_exact)

theorem udp_sweep_exact_witness:
  "hm_get (up_pending_by_id (sweep 7 (udp_proxy_new 300))) 1 = None \<and>
   hm_get (up_sessions (sweep 7 (udp_proxy_new 300))) demo_peer = None"
  using udp_sweep_exact [of "udp_proxy_new 300" 7 1 demo_peer] by (simp add: udp_proxy_new_def)

end
