(* ===== verification/ServerState.thy ===== *)
theory ServerState
  imports Msg UdpProxy
begin

text \<open>
  The server's shared state (\<open>rfrps/src/state.rs\<close>) and the session object
  (\<open>rfrps/src/control/session.rs\<close>). The tables of \<open>ServerState\<close> are maps; what the source shares
  by \<open>Arc\<close> (sessions, UDP proxies, proxy statistics) lives in a heap and is referred to by its
  address, because a session that was replaced stays alive in its own tasks. Listener tasks and
  running bridges, which the source keeps in the scheduler, are listed too: \<open>st_tasks\<close> and
  \<open>st_bridges\<close> (the user's end, the work connection and the bytes to replay in front of it).
  Connections are opaque handles.
\<close>

section \<open>Sessions\<close>

record proxy_entry =
  pe_handle :: nat
  pe_kind :: proxy_type
  pe_remote_port :: "u16 option"
  pe_custom_domains :: "string list"

record session =
  se_run_id :: string
  se_session_id :: string
  se_peer_ip :: ip_addr
  se_work_conn_token :: string
  se_tx :: "message chan"
  se_proxies :: "(string, proxy_entry) hmap"
  se_proxy_domains :: "(string, string) hmap"
  se_stopped :: bool
  se_pools :: "(string, nat list) hmap"

definition CONTROL_QUEUE_DEPTH :: nat where "CONTROL_QUEUE_DEPTH = 256"

definition session_new :: "string \<Rightarrow> string \<Rightarrow> ip_addr \<Rightarrow> string \<Rightarrow> session" where
  "session_new run_id session_id peer_ip work_conn_token =
     \<lparr>se_run_id = run_id, se_session_id = session_id, se_peer_ip = peer_ip,
      se_work_conn_token = work_conn_token, se_tx = chan_new CONTROL_QUEUE_DEPTH,
      se_proxies = [], se_proxy_domains = [], se_stopped = False, se_pools = []\<rparr>"

section \<open>The state\<close>

record user_conn =
  uc_handle :: nat
  uc_count :: counting_stream

record pending_work =
  pw_proxy_name :: string
  pw_session_id :: string
  pw_user :: "user_conn option"
  pw_created :: instant

datatype listener = TcpListener string nat | UdpListener string nat | NoListener

record server_state =
  st_work_id :: u64
  st_pending :: "(u64, pending_work) hmap"
  st_sessions :: "(string, nat) hmap"
  st_heap :: "nat \<Rightarrow> session"
  st_next_session :: nat
  st_proxy_index :: "(string, string) hmap"
  st_domain_index :: "(string, string \<times> string) hmap"
  st_udp :: "(string, nat) hmap"
  st_udp_heap :: "nat \<Rightarrow> udp_proxy"
  st_next_udp :: nat
  st_login_failures :: "(ip_addr, u32 \<times> instant) hmap"
  st_proxy_stats :: "(string, nat) hmap"
  st_next_stats :: nat
  st_metrics :: metrics
  st_max_active :: int
  st_max_sessions :: nat
  st_max_sessions_per_ip :: nat
  st_pending_request_interval_ms :: u64
  st_shutdown :: bool
  st_tasks :: "(nat, listener) hmap"
  st_next_task :: nat
  st_bridges :: "(user_conn \<times> nat \<times> bytes) list"

definition server_state_new :: "instant \<Rightarrow> server_state" where
  "server_state_new now =
     \<lparr>st_work_id = 0, st_pending = [], st_sessions = [],
      st_heap = (\<lambda>_. session_new [] [] (V4 [0, 0, 0, 0]) []), st_next_session = 0,
      st_proxy_index = [], st_domain_index = [], st_udp = [],
      st_udp_heap = (\<lambda>_. udp_proxy_new 0), st_next_udp = 0, st_login_failures = [],
      st_proxy_stats = [], st_next_stats = 0, st_metrics = metrics_new now,
      st_max_active = MAX_ACTIVE_CONNECTIONS, st_max_sessions = MAX_SESSIONS,
      st_max_sessions_per_ip = MAX_SESSIONS_PER_IP,
      st_pending_request_interval_ms = of_nat WORK_CONN_REQUEST_INTERVAL_MS,
      st_shutdown = False, st_tasks = [], st_next_task = 0, st_bridges = []\<rparr>"

definition upd_session :: "nat \<Rightarrow> (session \<Rightarrow> session) \<Rightarrow> server_state \<Rightarrow> server_state" where
  "upd_session a f st = st\<lparr>st_heap := (st_heap st)(a := f (st_heap st a))\<rparr>"

section \<open>Statistics\<close>

definition proxy_stats_for :: "string \<Rightarrow> server_state \<Rightarrow> nat \<times> server_state" where
  \<comment> \<open>\<open>entry(..).or_default()\<close>: new counters start at zero\<close>
  "proxy_stats_for name st =
     (case hm_get (st_proxy_stats st) name of
        Some a \<Rightarrow> (a, st)
      | None \<Rightarrow>
          let a = st_next_stats st in
          (a, st\<lparr>st_proxy_stats := hm_insert name a (st_proxy_stats st), st_next_stats := a + 1\<rparr>))"

definition remove_proxy_stats :: "string list \<Rightarrow> server_state \<Rightarrow> server_state" where
  "remove_proxy_stats names st = st\<lparr>st_proxy_stats := fold hm_remove names (st_proxy_stats st)\<rparr>"

section \<open>Login limits\<close>

definition login_allowed :: "ip_addr \<Rightarrow> instant \<Rightarrow> server_state \<Rightarrow> bool \<times> server_state" where
  "login_allowed ip now st =
     (let m = st_login_failures st; window = from_secs LOGIN_FAILURE_WINDOW in
      case hm_get m ip of
        Some (count, start) \<Rightarrow>
          if now - start < window then (count < LOGIN_FAILURE_LIMIT, st)
          else (True, st\<lparr>st_login_failures := hm_remove ip m\<rparr>)
      | None \<Rightarrow> (True, st))"

definition record_login_failure :: "ip_addr \<Rightarrow> instant \<Rightarrow> server_state \<Rightarrow> server_state" where
  "record_login_failure ip now st =
     (let m = st_login_failures st; window = from_secs LOGIN_FAILURE_WINDOW;
          m = (case hm_get m ip of
                 Some (count, start) \<Rightarrow>
                   if now - start < window then hm_insert ip (count + 1, start) m
                   else hm_insert ip (1, now) m
               | None \<Rightarrow> hm_insert ip (1, now) m);
          m = (if 4096 < hm_len m then hm_retain (\<lambda>_ (_, start). now - start < window) m else m)
      in st\<lparr>st_login_failures := m\<rparr>)"

definition clear_login_failures :: "ip_addr \<Rightarrow> server_state \<Rightarrow> server_state" where
  "clear_login_failures ip st = st\<lparr>st_login_failures := hm_remove ip (st_login_failures st)\<rparr>"

section \<open>Gauges\<close>

record gauges =
  ga_sessions :: nat
  ga_proxies :: nat
  ga_pending_work :: nat
  ga_udp_sessions :: nat
  ga_pooled_work_conns :: nat

definition gauges_of :: "server_state \<Rightarrow> gauges" where
  "gauges_of st =
     (let sessions = map (st_heap st) (hm_values (st_sessions st)) in
      \<lparr>ga_sessions = length sessions,
       ga_proxies = sum_list (map (\<lambda>s. hm_len (se_proxies s)) sessions),
       ga_pending_work = hm_len (st_pending st),
       ga_udp_sessions =
         sum_list (map (\<lambda>a. hm_len (up_sessions (st_udp_heap st a))) (hm_values (st_udp st))),
       ga_pooled_work_conns =
         sum_list (map (\<lambda>s. sum_list (map length (hm_values (se_pools s)))) sessions)\<rparr>)"

section \<open>Work ids and indexes\<close>

definition next_work_id :: "server_state \<Rightarrow> u64 \<times> server_state" where
  "next_work_id st = (st_work_id st + 1, st\<lparr>st_work_id := st_work_id st + 1\<rparr>)"

definition pending_request_interval :: "server_state \<Rightarrow> duration" where
  "pending_request_interval st = from_millis (unat (max (st_pending_request_interval_ms st) 1))"

definition index_proxy :: "string \<Rightarrow> string \<Rightarrow> server_state \<Rightarrow> server_state" where
  "index_proxy proxy_name run_id st =
     st\<lparr>st_proxy_index := hm_insert proxy_name run_id (st_proxy_index st)\<rparr>"

definition unindex_proxies :: "string list \<Rightarrow> server_state \<Rightarrow> server_state" where
  "unindex_proxies names st = st\<lparr>st_proxy_index := fold hm_remove names (st_proxy_index st)\<rparr>"

definition session_for_proxy :: "server_state \<Rightarrow> string \<Rightarrow> nat option" where
  "session_for_proxy st proxy_name =
     (case hm_get (st_proxy_index st) proxy_name of
        None \<Rightarrow> None | Some run_id \<Rightarrow> hm_get (st_sessions st) run_id)"

definition index_domain :: "string \<Rightarrow> string \<Rightarrow> string \<Rightarrow> server_state \<Rightarrow> server_state" where
  "index_domain domain run_id proxy_name st =
     st\<lparr>st_domain_index := hm_insert domain (run_id, proxy_name) (st_domain_index st)\<rparr>"

definition unindex_domains :: "string list \<Rightarrow> server_state \<Rightarrow> server_state" where
  "unindex_domains domains st = st\<lparr>st_domain_index := fold hm_remove domains (st_domain_index st)\<rparr>"

definition session_for_domain :: "server_state \<Rightarrow> string \<Rightarrow> (nat \<times> string) option" where
  "session_for_domain st host =
     (case hm_get (st_domain_index st) host of
        None \<Rightarrow> None
      | Some (run_id, proxy_name) \<Rightarrow>
          map_option (\<lambda>a. (a, proxy_name)) (hm_get (st_sessions st) run_id))"

lemma pending_request_interval_pos: "from_millis 1 \<le> pending_request_interval st"
proof -
  have "1 \<le> unat (max (st_pending_request_interval_ms st) 1)"
    by (metis max.cobounded2 unsigned_1 word_le_nat_alt)
  then show ?thesis by (simp add: pending_request_interval_def from_millis_def)
qed

section \<open>Lock-out\<close>

fun failures_at :: "(ip_addr \<times> instant) list \<Rightarrow> server_state \<Rightarrow> server_state" where
  "failures_at [] st = st"
| "failures_at ((ip, now) # fs) st = failures_at fs (record_login_failure ip now st)"

definition fail_count :: "ip_addr \<Rightarrow> (ip_addr \<times> instant) list \<Rightarrow> nat" where
  "fail_count ip fs = length (filter (\<lambda>(i, _). i = ip) fs)"

definition failures_are :: "ip_addr \<Rightarrow> instant \<Rightarrow> nat \<Rightarrow> server_state \<Rightarrow> bool" where
  \<comment> \<open>\<open>k\<close> failures of \<open>ip\<close> counted since \<open>t\<close>\<close>
  "failures_are ip t k st \<longleftrightarrow>
     hm_wf (st_login_failures st) \<and>
     (if k = 0 then hm_get (st_login_failures st) ip = None
      else \<exists>start \<ge> t. hm_get (st_login_failures st) ip = Some (of_nat k, start))"

lemma record_failure_counts:
  assumes "failures_are ip t k st" and "t \<le> now" and "now < t + from_secs LOGIN_FAILURE_WINDOW"
  shows "failures_are ip t (if i = ip then Suc k else k) (record_login_failure i now st)"
proof -
  let ?w = "from_secs LOGIN_FAILURE_WINDOW"
  define m where "m = (case hm_get (st_login_failures st) i of
      Some (count, start) \<Rightarrow>
        if now - start < ?w then hm_insert i (count + 1, start) (st_login_failures st)
        else hm_insert i (1, now) (st_login_failures st)
    | None \<Rightarrow> hm_insert i (1, now) (st_login_failures st))"
  have wf: "hm_wf m" using assms(1) by (auto simp: m_def failures_are_def split: option.split)
  let ?k = "if i = ip then Suc k else k"
  have young: "now - start < ?w" if "t \<le> start" for start using that assms(2,3) by simp
  have m: "if ?k = 0 then hm_get m ip = None else \<exists>start \<ge> t. hm_get m ip = Some (of_nat ?k, start)"
    using assms(1,2) young
    by (auto simp: m_def failures_are_def add.commute split: if_splits option.split)
  let ?m = "if 4096 < hm_len m then hm_retain (\<lambda>_ (_, start). now - start < ?w) m else m"
  have "if ?k = 0 then hm_get ?m ip = None else \<exists>start \<ge> t. hm_get ?m ip = Some (of_nat ?k, start)"
    using m young by (auto simp: hm_get_retain [OF wf] split: if_splits)
  then show ?thesis
    using wf by (auto simp: failures_are_def record_login_failure_def m_def Let_def)
qed

lemma failures_at_counts:
  assumes "failures_are ip t k st"
    and "\<forall>(i, now) \<in> set fs. t \<le> now \<and> now < t + from_secs LOGIN_FAILURE_WINDOW"
  shows "failures_are ip t (k + fail_count ip fs) (failures_at fs st)"
  using assms
proof (induction fs arbitrary: k st)
  case Nil
  then show ?case by (simp add: fail_count_def)
next
  case (Cons f fs)
  obtain i now where f: "f = (i, now)" by fastforce
  with Cons.prems have "failures_are ip t (if i = ip then Suc k else k) (record_login_failure i now st)"
    by (intro record_failure_counts) auto
  from Cons.IH [OF this] Cons.prems(2) f show ?case
    by (auto simp: fail_count_def split: if_splits)
qed

section \<open>Properties\<close>



end
