(* ===== verification/Listener.thy ===== *)
theory Listener
  imports ServerState Config_Server
begin

text \<open>
  Proxy registration and user connections (\<open>rfrps/src/listener.rs\<close>, with \<open>register_udp_proxy\<close> of
  \<open>rfrps/src/udp.rs\<close>). Registration runs in three parts with an await between them: the checks,
  opening the listener, and the entries in the tables; each is a definition, and
  \<open>register_proxy\<close> is their composition. The result of a bind, what a probe of a pooled
  connection sees, and what a receiver takes from a channel are arguments.
\<close>

section \<open>Registration\<close>

definition port_allowed :: "server_config \<Rightarrow> u16 \<Rightarrow> bool" where
  "port_allowed config port =
     (case is_port_allowed (sc_proxy config) port of Inl e \<Rightarrow> False | Inr b \<Rightarrow> b)"

definition spawn :: "listener \<Rightarrow> server_state \<Rightarrow> nat \<times> server_state" where
  "spawn l st =
     (st_next_task st,
      st\<lparr>st_tasks := hm_insert (st_next_task st) l (st_tasks st), st_next_task := st_next_task st + 1\<rparr>)"

definition bind_failure :: "io_error \<Rightarrow> proxy_error" where
  "bind_failure e = (if io_kind e = AddrInUse then PortOccupied else Internal)"

definition register_udp_proxy ::
  "string \<Rightarrow> nat \<Rightarrow> (io_error, unit) result \<Rightarrow> duration \<Rightarrow> server_state
     \<Rightarrow> (proxy_error, nat \<times> server_state) result" where
  "register_udp_proxy proxy_name session bind session_timeout st =
     (case bind of
        Inl e \<Rightarrow> Inl (bind_failure e)
      | Inr _ \<Rightarrow>
          let u = st_next_udp st;
              st = st\<lparr>st_udp_heap := (st_udp_heap st)(u := udp_proxy_new session_timeout),
                      st_next_udp := u + 1\<rparr>;
              st = st\<lparr>st_udp := hm_insert proxy_name u (st_udp st)\<rparr>
          in Inr (spawn (UdpListener proxy_name session) st))"

definition domains_of :: "(string \<Rightarrow> string) \<Rightarrow> new_proxy \<Rightarrow> string list" where
  "domains_of lower np = map lower (unwrap_or (np_custom_domains np) [])"

definition register_check ::
  "(string \<Rightarrow> string) \<Rightarrow> new_proxy \<Rightarrow> nat \<Rightarrow> server_state \<Rightarrow> (proxy_error, string list) result" where
  "register_check lower np session st =
     (let proxies = se_proxies (st_heap st session) in
      rbind (ensure (\<not> MAX_PROXIES_PER_SESSION \<le> hm_len proxies) TooManyProxies) (\<lambda>_.
      rbind (ensure (\<not> hm_has proxies (np_proxy_name np)) NameExists) (\<lambda>_.
      let domains = domains_of lower np in
      rbind (ensure (\<not> (np_type np \<in> {Http, Https} \<and> domains = [])) InvalidField) (\<lambda>_.
      rbind (ensure (list_all (\<lambda>d. session_for_domain st d = None) domains) DomainConflict) (\<lambda>_.
        Inr domains)))))"

definition register_open ::
  "new_proxy \<Rightarrow> nat \<Rightarrow> server_config \<Rightarrow> (io_error, unit) result \<Rightarrow> server_state
     \<Rightarrow> (proxy_error, nat \<times> server_state) result" where
  "register_open np session config bind st =
     (case np_type np of
        Udp \<Rightarrow>
          rbind (ok_or (np_remote_port np) InvalidField) (\<lambda>remote_port.
          rbind (ensure (port_allowed config remote_port) PortNotAllowed) (\<lambda>_.
            register_udp_proxy (np_proxy_name np) session bind
              (udp_session_timeout (sc_server config)) st))
      | Tcp \<Rightarrow>
          rbind (ok_or (np_remote_port np) InvalidField) (\<lambda>remote_port.
          rbind (ensure (port_allowed config remote_port) PortNotAllowed) (\<lambda>_.
          case bind of
            Inl e \<Rightarrow> Inl (bind_failure e)
          | Inr _ \<Rightarrow> Inr (spawn (TcpListener (np_proxy_name np) session) st)))
      | _ \<Rightarrow> Inr (spawn NoListener st))"

definition register_commit ::
  "new_proxy \<Rightarrow> nat \<Rightarrow> string list \<Rightarrow> nat \<Rightarrow> server_state \<Rightarrow> server_state" where
  "register_commit np session domains handle st =
     (let run_id = se_run_id (st_heap st session); name = np_proxy_name np;
          st = (if domains = [] then st
                else
                  let st = upd_session session (\<lambda>s.
                        s\<lparr>se_proxy_domains := fold (\<lambda>d. hm_insert d name) domains (se_proxy_domains s)\<rparr>) st
                  in fold (\<lambda>d. index_domain d run_id name) domains st);
          st = upd_session session (\<lambda>s.
                 s\<lparr>se_proxies :=
                     hm_insert name
                       \<lparr>pe_handle = handle, pe_kind = np_type np, pe_remote_port = np_remote_port np,
                        pe_custom_domains = domains\<rparr> (se_proxies s)\<rparr>) st
      in index_proxy name run_id st)"

definition register_proxy ::
  "(string \<Rightarrow> string) \<Rightarrow> new_proxy \<Rightarrow> nat \<Rightarrow> server_config \<Rightarrow> (io_error, unit) result
     \<Rightarrow> server_state \<Rightarrow> (proxy_error, server_state) result" where
  "register_proxy lower np session config bind st =
     rbind (register_check lower np session st) (\<lambda>domains.
     rbind (register_open np session config bind st) (\<lambda>(handle, st).
       Inr (register_commit np session domains handle st)))"

section \<open>Pooled work connections\<close>

datatype probe = ProbePending | ProbeData u8 | ProbeEof | ProbeError

definition probe_alive :: "(nat \<Rightarrow> probe) \<Rightarrow> nat \<Rightarrow> (unit, nat \<times> bytes) result" where
  \<comment> \<open>a live connection, with a byte to replay if one was already there\<close>
  "probe_alive probe work =
     (case probe work of
        ProbePending \<Rightarrow> Inr (work, [])
      | ProbeData b \<Rightarrow> Inr (work, [b])
      | ProbeEof \<Rightarrow> Inl ()
      | ProbeError \<Rightarrow> Inl ())"

function pop_live :: "(nat \<Rightarrow> probe) \<Rightarrow> nat list \<Rightarrow> (nat \<times> bytes) option \<times> nat list" where
  "pop_live probe v =
     (if v = [] then (None, [])
      else case probe_alive probe (last v) of
             Inr w \<Rightarrow> (Some w, butlast v)
           | Inl _ \<Rightarrow> pop_live probe (butlast v))"
  by pat_completeness auto
termination
  by (relation "measure (\<lambda>(probe, v). length v)") auto

declare pop_live.simps [simp del]

definition pop_live_pooled ::
  "(nat \<Rightarrow> probe) \<Rightarrow> nat \<Rightarrow> string \<Rightarrow> server_state \<Rightarrow> (nat \<times> bytes) option \<times> server_state" where
  "pop_live_pooled probe session proxy_name st =
     (case hm_get (se_pools (st_heap st session)) proxy_name of
        None \<Rightarrow> (None, st)
      | Some v \<Rightarrow>
          let (w, v) = pop_live probe v in
          (w, upd_session session (\<lambda>s. s\<lparr>se_pools := hm_insert proxy_name v (se_pools s)\<rparr>) st))"

section \<open>User connections\<close>

definition on_metrics :: "(metrics \<Rightarrow> metrics) \<Rightarrow> server_state \<Rightarrow> server_state" where
  "on_metrics f st = st\<lparr>st_metrics := f (st_metrics st)\<rparr>"

definition on_shared :: "(shared \<Rightarrow> shared) \<Rightarrow> server_state \<Rightarrow> server_state" where
  "on_shared f st = on_metrics (\<lambda>m. m\<lparr>mt_shared := f (mt_shared m)\<rparr>) st"

definition drop_user :: "instant \<Rightarrow> user_conn \<Rightarrow> server_state \<Rightarrow> server_state" where
  \<comment> \<open>the counting stream is dropped: a last flush, and one active connection less\<close>
  "drop_user now u st = on_shared (drop_stream now (uc_count u)) st"

definition drop_pending_work :: "instant \<Rightarrow> u64 \<Rightarrow> server_state \<Rightarrow> server_state" where
  \<comment> \<open>\<open>pending.remove(&id)\<close>, with what it held\<close>
  "drop_pending_work now wk st =
     (case hm_get (st_pending st) wk of
        None \<Rightarrow> st
      | Some pw \<Rightarrow>
          let st = st\<lparr>st_pending := hm_remove wk (st_pending st)\<rparr> in
          case pw_user pw of None \<Rightarrow> st | Some u \<Rightarrow> drop_user now u st)"

definition send_to :: "nat \<Rightarrow> (message chan \<Rightarrow> bool \<times> message chan) \<Rightarrow> server_state \<Rightarrow> bool \<times> server_state" where
  "send_to session f st =
     (let (ok, ch) = f (se_tx (st_heap st session)) in
      (ok, upd_session session (\<lambda>s. s\<lparr>se_tx := ch\<rparr>) st))"

definition req_work_conn :: "string \<Rightarrow> u64 \<Rightarrow> message" where
  "req_work_conn proxy_name wk = ReqWorkConn \<lparr>rw_proxy_name = proxy_name, rw_work_id = wk\<rparr>"

definition accept_user :: "string \<Rightarrow> nat \<Rightarrow> instant \<Rightarrow> server_state \<Rightarrow> user_conn \<times> server_state" where
  \<comment> \<open>the counters of an accepted user connection and its counting stream\<close>
  "accept_user proxy_name handle now st =
     (let st = on_shared (\<lambda>sh. sh\<lparr>sh_main := add_active 1 (sh_main sh)\<rparr>) st;
          st = on_metrics (\<lambda>m. m\<lparr>mt_total_connections := mt_total_connections m + 1\<rparr>) st;
          (a, st) = proxy_stats_for proxy_name st;
          st = on_metrics (\<lambda>m. m\<lparr>mt_proxy_connections :=
                 (mt_proxy_connections m)(a := mt_proxy_connections m a + 1)\<rparr>) st;
          (cs, sh) = with_extra a (counting_new now) (mt_shared (st_metrics st));
          st = on_shared (\<lambda>_. sh) st
      in (\<lparr>uc_handle = handle, uc_count = cs\<rparr>, st))"

datatype dispatched = Rejected | Bridged | Waiting u64

definition dispatch_user_connection ::
  "(nat \<Rightarrow> probe) \<Rightarrow> string \<Rightarrow> nat \<Rightarrow> nat \<Rightarrow> instant \<Rightarrow> server_state \<Rightarrow> dispatched \<times> server_state" where
  "dispatch_user_connection probe proxy_name handle session now st =
     (if st_max_active st \<le> active_connections (st_metrics st) then (Rejected, st)
      else
        let (user, st) = accept_user proxy_name handle now st;
            (pooled, st) = pop_live_pooled probe session proxy_name st
        in case pooled of
             Some (work, replay) \<Rightarrow>
               let st = st\<lparr>st_bridges := (user, work, replay) # st_bridges st\<rparr>;
                   (_, st) = send_to session (try_send (req_work_conn proxy_name WORK_ID_POOL_RESERVED)) st
               in (Bridged, st)
           | None \<Rightarrow>
               let (wk, st) = next_work_id st;
                   st = st\<lparr>st_pending :=
                     hm_insert wk
                       \<lparr>pw_proxy_name = proxy_name, pw_session_id = se_session_id (st_heap st session),
                        pw_user = Some user, pw_created = now\<rparr> (st_pending st)\<rparr>
               in (Waiting wk, st))"

text \<open>
  The task of a waiting connection: it asks for a work connection again and again until it has
  one, until the deadline, or until the control channel is gone. One entry of the script is one
  round: what the writer takes while the request waits for room, the time after it, and what
  the rest of the server does to the state during the sleep.
\<close>

fun resend_loop ::
  "string \<Rightarrow> u64 \<Rightarrow> nat \<Rightarrow> instant \<Rightarrow> (nat \<times> instant \<times> (server_state \<Rightarrow> server_state)) list
     \<Rightarrow> server_state \<Rightarrow> nat \<times> duration list \<times> server_state" where
  \<comment> \<open>the number of requests sent, the sleeps, and the state\<close>
  "resend_loop proxy_name wk session deadline [] st = (0, [], st)"
| "resend_loop proxy_name wk session deadline ((taken, now, others) # rounds) st =
     (let (ok, st) = send_to session (send_with_timeout taken (req_work_conn proxy_name wk)) st in
      if \<not> ok then (0, [], drop_pending_work now wk st)
      else if deadline \<le> now then (1, [], st)
      else
        let nap = min (pending_request_interval st) (deadline - now); st = others st in
        if \<not> hm_has (st_pending st) wk then (1, [nap], st)
        else let (n, naps, st) = resend_loop proxy_name wk session deadline rounds st
             in (n + 1, nap # naps, st))"

section \<open>Expiry\<close>

definition expired_ids :: "instant \<Rightarrow> duration \<Rightarrow> server_state \<Rightarrow> u64 list" where
  "expired_ids now timeout st =
     map fst (filter (\<lambda>(_, p). timeout \<le> now - pw_created p) (st_pending st))"

definition sweep_expired_pending :: "instant \<Rightarrow> duration \<Rightarrow> server_state \<Rightarrow> nat \<times> server_state" where
  \<comment> \<open>the users are removed under the lock and closed after it\<close>
  "sweep_expired_pending now timeout st =
     (let ids = expired_ids now timeout st;
          users = List.map_filter (\<lambda>k. Option.bind (hm_get (st_pending st) k) pw_user) ids;
          st = st\<lparr>st_pending := fold hm_remove ids (st_pending st)\<rparr>
      in (length users, fold (drop_user now) users st))"

section \<open>Facts about registration\<close>

lemma fold_index_domain:
  "fold (\<lambda>d. index_domain d r n) ds st =
     st\<lparr>st_domain_index := fold (\<lambda>d. hm_insert d (r, n)) ds (st_domain_index st)\<rparr>"
  by (induction ds arbitrary: st) (simp_all add: index_domain_def)

definition entry_of :: "new_proxy \<Rightarrow> string list \<Rightarrow> nat \<Rightarrow> proxy_entry" where
  "entry_of np domains handle =
     \<lparr>pe_handle = handle, pe_kind = np_type np, pe_remote_port = np_remote_port np,
      pe_custom_domains = domains\<rparr>"

definition committed :: "new_proxy \<Rightarrow> string list \<Rightarrow> nat \<Rightarrow> session \<Rightarrow> session" where
  "committed np domains handle s =
     s\<lparr>se_proxy_domains := fold (\<lambda>d. hm_insert d (np_proxy_name np)) domains (se_proxy_domains s),
       se_proxies := hm_insert (np_proxy_name np) (entry_of np domains handle) (se_proxies s)\<rparr>"

lemma register_commit_eq:
  "register_commit np a domains handle st = st\<lparr>
     st_heap := (st_heap st)(a := committed np domains handle (st_heap st a)),
     st_domain_index :=
       fold (\<lambda>d. hm_insert d (se_run_id (st_heap st a), np_proxy_name np)) domains (st_domain_index st),
     st_proxy_index := hm_insert (np_proxy_name np) (se_run_id (st_heap st a)) (st_proxy_index st)\<rparr>"
  by (rule server_state.equality)
    (simp_all add: register_commit_def Let_def fold_index_domain upd_session_def committed_def
      entry_of_def index_proxy_def)

definition listener_of :: "new_proxy \<Rightarrow> nat \<Rightarrow> listener" where
  "listener_of np a =
     (case np_type np of
        Tcp \<Rightarrow> TcpListener (np_proxy_name np) a
      | Udp \<Rightarrow> UdpListener (np_proxy_name np) a
      | _ \<Rightarrow> NoListener)"

lemma register_open_ok:
  assumes "register_open np a config bind st = Inr (handle, st')"
  shows "handle = st_next_task st \<and>
    (np_type np \<in> {Tcp, Udp} \<longrightarrow>
       (\<exists>p. np_remote_port np = Some p \<and> port_allowed config p \<and> bind = Inr ())) \<and>
    (\<exists>udp heap nu. st' = st\<lparr>st_udp_heap := heap, st_next_udp := nu, st_udp := udp,
       st_tasks := hm_insert handle (listener_of np a) (st_tasks st), st_next_task := handle + 1\<rparr> \<and>
       (np_type np \<noteq> Udp \<longrightarrow> udp = st_udp st) \<and>
       (np_type np = Udp \<longrightarrow> udp = hm_insert (np_proxy_name np) (st_next_udp st) (st_udp st)))"
proof (cases "np_type np")
  case Udp
  then show ?thesis
    using assms
    by (auto simp: register_open_def register_udp_proxy_def rbind_Inr_iff spawn_def listener_of_def
        Let_def split: sum.splits)
next
  case Tcp
  then have "\<exists>p. np_remote_port np = Some p \<and> port_allowed config p \<and> bind = Inr ()"
    "handle = st_next_task st"
    "st' = st\<lparr>st_tasks := hm_insert handle (listener_of np a) (st_tasks st), st_next_task := handle + 1\<rparr>"
    using assms
    by (auto simp: register_open_def rbind_Inr_iff spawn_def listener_of_def split: sum.splits)
  with Tcp show ?thesis
    by (auto intro!: exI [of _ "st_udp st"] exI [of _ "st_udp_heap st"] exI [of _ "st_next_udp st"])
qed (use assms in \<open>auto simp: register_open_def spawn_def listener_of_def
      intro!: exI [of _ "st_udp st"] exI [of _ "st_udp_heap st"] exI [of _ "st_next_udp st"]\<close>)

lemma register_check_ok:
  "register_check lower np a st = Inr domains \<longleftrightarrow>
     domains = domains_of lower np \<and> hm_len (se_proxies (st_heap st a)) < 128 \<and>
     hm_get (se_proxies (st_heap st a)) (np_proxy_name np) = None \<and>
     (np_type np \<in> {Http, Https} \<longrightarrow> domains \<noteq> []) \<and>
     list_all (\<lambda>d. session_for_domain st d = None) domains"
  by (auto simp: register_check_def rbind_Inr_iff Let_def MAX_PROXIES_PER_SESSION_def not_le
      hm_has_def)

section \<open>Facts about the pool\<close>

lemma pop_live_Some:
  "pop_live probe v = (Some w, v') \<Longrightarrow>
     \<exists>dead. v = v' @ fst w # dead \<and> probe_alive probe (fst w) = Inr w \<and>
       list_all (\<lambda>x. probe_alive probe x = Inl ()) dead"
proof (induction probe v rule: pop_live.induct)
  case (1 probe v)
  show ?case
  proof (cases "v = []")
    case True
    with 1(2) show ?thesis by (simp add: pop_live.simps)
  next
    case False
    show ?thesis
    proof (cases "probe_alive probe (last v)")
      case (Inl u)
      with False 1(2) have "pop_live probe (butlast v) = (Some w, v')"
        by (simp add: pop_live.simps [of probe v])
      from 1(1) [OF False Inl this] obtain dead where d: "butlast v = v' @ fst w # dead"
        "probe_alive probe (fst w) = Inr w" "list_all (\<lambda>x. probe_alive probe x = Inl ()) dead"
        by blast
      have "v = v' @ fst w # dead @ [last v]"
        using False d(1) append_butlast_last_id [of v] by simp
      with d Inl show ?thesis by (intro exI [of _ "dead @ [last v]"]) simp
    next
      case (Inr x)
      with False 1(2) have "w = x" "v' = butlast v" by (simp_all add: pop_live.simps [of probe v])
      moreover have "fst x = last v"
        using Inr by (auto simp: probe_alive_def split: probe.splits)
      ultimately show ?thesis
        using Inr False append_butlast_last_id [of v] by (intro exI [of _ "[]"]) simp
    qed
  qed
qed

lemma pop_live_None:
  "pop_live probe v = (None, v') \<Longrightarrow>
     v' = [] \<and> list_all (\<lambda>x. probe_alive probe x = Inl ()) v"
proof (induction probe v rule: pop_live.induct)
  case (1 probe v)
  show ?case
  proof (cases "v = []")
    case False
    then obtain u where u: "probe_alive probe (last v) = Inl u"
      "pop_live probe (butlast v) = (None, v')"
      using 1(2) by (auto simp: pop_live.simps [of probe v] split: sum.splits)
    have "list_all (\<lambda>x. probe_alive probe x = Inl ()) (butlast v @ [last v])"
      using 1(1) [OF False u] u(1) by simp
    with 1(1) [OF False u] False show ?thesis by simp
  qed (use 1(2) in \<open>simp add: pop_live.simps\<close>)
qed

lemma pop_live_length: "length (snd (pop_live probe v)) \<le> length v"
proof (induction probe v rule: pop_live.induct)
  case (1 probe v)
  show ?case
  proof (cases "probe_alive probe (last v)")
    case (Inl u)
    with 1 show ?thesis
      by (subst pop_live.simps) (auto intro: le_trans)
  qed (subst pop_live.simps, simp)
qed

section \<open>Facts about user connections\<close>

definition drop_metrics :: "instant \<Rightarrow> user_conn \<Rightarrow> metrics \<Rightarrow> metrics" where
  "drop_metrics now u m = m\<lparr>mt_shared := drop_stream now (uc_count u) (mt_shared m)\<rparr>"

lemma drop_user_eq: "drop_user now u st = st\<lparr>st_metrics := drop_metrics now u (st_metrics st)\<rparr>"
  by (simp add: drop_user_def on_shared_def on_metrics_def drop_metrics_def)

lemma fold_drop_user:
  "fold (drop_user now) us st = st\<lparr>st_metrics := fold (drop_metrics now) us (st_metrics st)\<rparr>"
  by (induction us arbitrary: st) (simp_all add: drop_user_eq)

lemma drop_stream_active: "ct_active (sh_main (drop_stream now s sh)) = ct_active (sh_main sh) - 1"
proof -
  have "ct_active (counter_at None (drop_stream now s sh)) = ct_active (counter_at None sh) - 1"
    by (simp add: drop_stream_def case_prod_beta counter_at_on flush_effect feeds_def add_active_def
        add_read_def add_write_def)
  then show ?thesis by (simp add: counter_at_def)
qed

lemma drop_metrics_active: "active_connections (drop_metrics now u m) = active_connections m - 1"
  by (simp add: active_connections_def drop_metrics_def drop_stream_active)

lemma fold_drop_active:
  "active_connections (fold (drop_metrics now) us m) = active_connections m - int (length us)"
  by (induction us arbitrary: m) (simp_all add: drop_metrics_active)

lemma accept_user_eq:
  assumes "accept_user name h now st = (user, st')"
  shows "st' = st\<lparr>st_proxy_stats := st_proxy_stats st', st_next_stats := st_next_stats st',
      st_metrics := st_metrics st'\<rparr>"
    and "uc_handle user = h"
    and "active_connections (st_metrics st') = active_connections (st_metrics st) + 1"
proof -
  show "st' = st\<lparr>st_proxy_stats := st_proxy_stats st', st_next_stats := st_next_stats st',
      st_metrics := st_metrics st'\<rparr>"
    by (rule server_state.equality; cases "hm_get (st_proxy_stats st) name";
        use assms in \<open>auto simp: accept_user_def proxy_stats_for_def Let_def on_metrics_def
          on_shared_def with_extra_def\<close>)
  show "uc_handle user = h"
    using assms by (auto simp: accept_user_def Let_def case_prod_beta)
  show "active_connections (st_metrics st') = active_connections (st_metrics st) + 1"
    by (cases "hm_get (st_proxy_stats st) name";
        use assms in \<open>auto simp: accept_user_def proxy_stats_for_def Let_def on_metrics_def
          on_shared_def with_extra_def active_connections_def add_active_def\<close>)
qed

lemma accept_user_frame:
  assumes "accept_user name h now st = (user, st')"
  shows "st_heap st' = st_heap st" "st_pending st' = st_pending st" "st_bridges st' = st_bridges st"
    "st_work_id st' = st_work_id st" "st_sessions st' = st_sessions st"
    "st_next_session st' = st_next_session st" "st_max_active st' = st_max_active st"
  by (cases "hm_get (st_proxy_stats st) name";
      use assms in \<open>auto simp: accept_user_def proxy_stats_for_def Let_def on_metrics_def
        on_shared_def with_extra_def\<close>)+

definition pool_of :: "nat \<Rightarrow> string \<Rightarrow> server_state \<Rightarrow> nat list" where
  "pool_of a name st = unwrap_or (hm_get (se_pools (st_heap st a)) name) []"

lemma pop_live_pooled_eq:
  "pop_live_pooled probe a name st =
     (fst (pop_live probe (pool_of a name st)),
      if hm_get (se_pools (st_heap st a)) name = None then st
      else upd_session a (\<lambda>s. s\<lparr>se_pools :=
             hm_insert name (snd (pop_live probe (pool_of a name st))) (se_pools s)\<rparr>) st)"
  by (auto simp: pop_live_pooled_def pool_of_def pop_live.simps [of probe "[]"] case_prod_beta
      split: option.split)

definition handed_over :: "(nat \<Rightarrow> probe) \<Rightarrow> nat list \<Rightarrow> nat \<times> bytes \<Rightarrow> nat list \<Rightarrow> bool" where
  \<comment> \<open>the last live connection of a pool, the dead ones behind it discarded\<close>
  "handed_over probe pool w rest \<longleftrightarrow>
     (\<exists>dead. pool = rest @ fst w # dead \<and> probe_alive probe (fst w) = Inr w \<and>
        list_all (\<lambda>x. probe_alive probe x = Inl ()) dead)"

lemma send_to_eq:
  "snd (send_to a f st) = upd_session a (\<lambda>s. s\<lparr>se_tx := snd (f (se_tx (st_heap st a)))\<rparr>) st"
  by (simp add: send_to_def case_prod_beta)

lemma dispatch_cases:
  assumes "dispatch_user_connection probe name handle a now st = (r, st')"
  shows "(r = Rejected \<and> st' = st \<and> st_max_active st \<le> active_connections (st_metrics st)) \<or>
    (active_connections (st_metrics st) < st_max_active st \<and>
     active_connections (st_metrics st') = active_connections (st_metrics st) + 1 \<and>
     ((\<exists>user w. r = Bridged \<and> uc_handle user = handle \<and>
         st_bridges st' = (user, w) # st_bridges st \<and> st_pending st' = st_pending st \<and>
         handed_over probe (pool_of a name st) w (pool_of a name st')) \<or>
      (\<exists>user. r = Waiting (st_work_id st + 1) \<and> uc_handle user = handle \<and>
         st_bridges st' = st_bridges st \<and> st_work_id st' = st_work_id st + 1 \<and>
         st_pending st' = hm_insert (st_work_id st + 1)
           \<lparr>pw_proxy_name = name, pw_session_id = se_session_id (st_heap st a), pw_user = Some user,
            pw_created = now\<rparr> (st_pending st) \<and>
         list_all (\<lambda>x. probe_alive probe x = Inl ()) (pool_of a name st) \<and>
         pool_of a name st' = [])))"
proof (cases "st_max_active st \<le> active_connections (st_metrics st)")
  case True
  with assms show ?thesis by (simp add: dispatch_user_connection_def)
next
  case False
  obtain user st1 where u: "accept_user name handle now st = (user, st1)" by fastforce
  note e = accept_user_eq [OF u]
  from e(1) have h: "st_heap st1 = st_heap st" "st_pending st1 = st_pending st"
    "st_bridges st1 = st_bridges st" "st_work_id st1 = st_work_id st"
    by (simp_all add: accept_user_frame [OF u])
  then have p: "pool_of a name st1 = pool_of a name st" by (simp add: pool_of_def)
  obtain w v where l: "pop_live probe (pool_of a name st) = (w, v)" by fastforce
  show ?thesis
  proof (cases w)
    case None
    with l have d: "v = []" "list_all (\<lambda>x. probe_alive probe x = Inl ()) (pool_of a name st)"
      using pop_live_None by blast+
    from assms False u l p None d h e(2,3) show ?thesis
      by (auto simp: dispatch_user_connection_def pop_live_pooled_eq next_work_id_def Let_def
          upd_session_def pool_of_def unwrap_or_def split: option.splits)
  next
    case (Some x)
    obtain wo rp where x: "x = (wo, rp)" by fastforce
    from l [unfolded Some x] have d: "handed_over probe (pool_of a name st) (wo, rp) v"
      unfolding handed_over_def by (rule pop_live_Some)
    then have n: "hm_get (se_pools (st_heap st a)) name \<noteq> None"
      by (auto simp: handed_over_def pool_of_def unwrap_or_def split: option.splits)
    from assms False u l p Some x d n h e(2,3) show ?thesis
      by (auto simp: dispatch_user_connection_def pop_live_pooled_eq send_to_def Let_def
          upd_session_def pool_of_def case_prod_beta)
  qed
qed

lemma expired_ids_iff:
  "hm_wf (st_pending st) \<Longrightarrow> wk \<in> set (expired_ids now timeout st) \<longleftrightarrow>
     (\<exists>p. hm_get (st_pending st) wk = Some p \<and> timeout \<le> now - pw_created p)"
  by (auto simp: expired_ids_def hm_in_set [symmetric] intro!: rev_image_eqI)

lemma expired_ids_distinct: "hm_wf (st_pending st) \<Longrightarrow> distinct (expired_ids now timeout st)"
  by (simp add: expired_ids_def hm_wf_def distinct_map_filter)

lemma sweep_eq:
  "sweep_expired_pending now timeout st =
     (let ids = expired_ids now timeout st;
          users = List.map_filter (\<lambda>k. Option.bind (hm_get (st_pending st) k) pw_user) ids
      in (length users,
          st\<lparr>st_pending := fold hm_remove ids (st_pending st),
             st_metrics := fold (drop_metrics now) users (st_metrics st)\<rparr>))"
  by (simp add: sweep_expired_pending_def fold_drop_user Let_def)

lemma sweep_get:
  assumes "hm_wf (st_pending st)"
  shows "hm_get (st_pending (snd (sweep_expired_pending now timeout st))) wk =
      (case hm_get (st_pending st) wk of
         None \<Rightarrow> None
       | Some p \<Rightarrow> if now - pw_created p < timeout then Some p else None)"
  using assms expired_ids_iff [OF assms, of wk now timeout]
  by (auto simp: sweep_eq Let_def not_le split: option.split)

lemma sweep_wf:
  "hm_wf (st_pending st) \<Longrightarrow> hm_wf (st_pending (snd (sweep_expired_pending now timeout st)))"
  by (simp add: sweep_eq Let_def)

lemma sweep_active:
  "active_connections (st_metrics (snd (sweep_expired_pending now timeout st))) =
     active_connections (st_metrics st) - int (fst (sweep_expired_pending now timeout st))"
  by (simp add: sweep_eq Let_def fold_drop_active)

section \<open>Properties\<close>

text \<open>
  C21 --- A registration that succeeds is complete and within policy: the session had room and no
  proxy of that name, a port proxy's port is allowed and bound, no domain was taken; and then the
  session's table, the domain table (lower-cased), the name index and the listener task all have
  the proxy, the task under the handle that is stored for it.
\<close>

theorem register_proxy_complete:
  assumes "register_proxy lower np a config bind st = Inr st'"
  shows "hm_len (se_proxies (st_heap st a)) < 128 \<and>
    hm_get (se_proxies (st_heap st a)) (np_proxy_name np) = None \<and>
    list_all (\<lambda>d. session_for_domain st d = None) (domains_of lower np) \<and>
    (np_type np \<in> {Tcp, Udp} \<longrightarrow>
       (\<exists>p. np_remote_port np = Some p \<and> port_allowed config p \<and> bind = Inr ())) \<and>
    (np_type np \<in> {Http, Https} \<longrightarrow> domains_of lower np \<noteq> []) \<and>
    (\<exists>e. hm_get (se_proxies (st_heap st' a)) (np_proxy_name np) = Some e \<and>
       pe_kind e = np_type np \<and> pe_custom_domains e = domains_of lower np \<and>
       hm_get (st_tasks st') (pe_handle e) = Some (listener_of np a)) \<and>
    hm_get (st_proxy_index st') (np_proxy_name np) = Some (se_run_id (st_heap st a)) \<and>
    (\<forall>d \<in> set (domains_of lower np).
       hm_get (st_domain_index st') d = Some (se_run_id (st_heap st a), np_proxy_name np))"
proof -
  from assms obtain domains handle st1 where
    c: "register_check lower np a st = Inr domains" and
    o: "register_open np a config bind st = Inr (handle, st1)" and
    e: "st' = register_commit np a domains handle st1"
    by (auto simp: register_proxy_def rbind_Inr_iff)
  from c have d: "domains = domains_of lower np" by (simp add: register_check_ok)
  from register_open_ok [OF o] obtain udp heap nu where
    p: "np_type np \<in> {Tcp, Udp} \<longrightarrow>
       (\<exists>p. np_remote_port np = Some p \<and> port_allowed config p \<and> bind = Inr ())" and
    st1: "st1 = st\<lparr>st_udp_heap := heap, st_next_udp := nu, st_udp := udp,
       st_tasks := hm_insert handle (listener_of np a) (st_tasks st), st_next_task := handle + 1\<rparr>"
    by auto
  have "hm_get (se_proxies (st_heap st' a)) (np_proxy_name np) = Some (entry_of np domains handle)"
    "hm_get (st_tasks st') handle = Some (listener_of np a)"
    "hm_get (st_proxy_index st') (np_proxy_name np) = Some (se_run_id (st_heap st a))"
    "\<forall>d \<in> set domains. hm_get (st_domain_index st') d = Some (se_run_id (st_heap st a), np_proxy_name np)"
    by (simp_all add: e register_commit_eq st1 committed_def hm_get_fold_const)
  with c p d show ?thesis by (auto simp: register_check_ok entry_of_def)
qed

definition demo_np :: new_proxy where
  "demo_np = \<lparr>np_proxy_name = ''ssh'', np_type = Tcp, np_remote_port = Some 6000,
     np_custom_domains = None\<rparr>"

definition demo_config :: server_config where
  "demo_config =
     \<lparr>sc_server = server_section_default\<lparr>sv_token := ''secret''\<rparr>, sc_dashboard = None,
      sc_proxy = proxy_section_default, sc_log = log_default\<rparr>"

definition demo_registered :: server_state where
  "demo_registered =
     register_commit demo_np 0 [] 0 (snd (spawn (TcpListener ''ssh'' 0) (server_state_new 0)))"

lemma demo_registers:
  "register_proxy to_ascii_lowercase demo_np 0 demo_config (Inr ()) (server_state_new 0)
     = Inr demo_registered"
proof -
  have "register_check to_ascii_lowercase demo_np 0 (server_state_new 0) = Inr []"
    by (simp add: register_check_ok demo_np_def domains_of_def server_state_new_def session_new_def)
  moreover have "port_allowed demo_config 6000"
    by (simp add: port_allowed_def is_port_allowed_def parse_allow_ports_def demo_config_def
        proxy_section_default_def trim_id)
  ultimately show ?thesis
    by (simp add: register_proxy_def register_open_def demo_np_def spawn_def demo_registered_def
        server_state_new_def)
qed

theorem register_proxy_complete_witness:
  "hm_get (st_proxy_index demo_registered) ''ssh'' = Some [] \<and>
   (\<exists>e. hm_get (se_proxies (st_heap demo_registered 0)) ''ssh'' = Some e \<and> pe_kind e = Tcp \<and>
      hm_get (st_tasks demo_registered) (pe_handle e) = Some (TcpListener ''ssh'' 0))"
  using register_proxy_complete [OF demo_registers]
  by (auto simp: demo_np_def server_state_new_def session_new_def listener_of_def)

text \<open>
  C22 --- A user connection is never lost silently: it is refused only when the limit is reached,
  with the state untouched; otherwise the active count goes up by one and the connection is either
  bridged with the last live pooled work connection (dead ones behind it are discarded, none is
  used twice) or, when the pool holds no live one, waits under a new id, marked with its
  proxy and its session.
\<close>

theorem dispatch_outcomes:
  assumes "dispatch_user_connection probe name handle a now st = (r, st')"
  shows "(r = Rejected \<and> st' = st \<and> st_max_active st \<le> active_connections (st_metrics st)) \<or>
    (active_connections (st_metrics st) < st_max_active st \<and>
     active_connections (st_metrics st') = active_connections (st_metrics st) + 1 \<and>
     ((\<exists>user w. r = Bridged \<and> uc_handle user = handle \<and>
         st_bridges st' = (user, w) # st_bridges st \<and> st_pending st' = st_pending st \<and>
         handed_over probe (pool_of a name st) w (pool_of a name st')) \<or>
      (\<exists>user. r = Waiting (st_work_id st + 1) \<and> uc_handle user = handle \<and>
         st_bridges st' = st_bridges st \<and> st_work_id st' = st_work_id st + 1 \<and>
         st_pending st' = hm_insert (st_work_id st + 1)
           \<lparr>pw_proxy_name = name, pw_session_id = se_session_id (st_heap st a), pw_user = Some user,
            pw_created = now\<rparr> (st_pending st) \<and>
         list_all (\<lambda>x. probe_alive probe x = Inl ()) (pool_of a name st) \<and>
         pool_of a name st' = [])))"
  using assms by (rule dispatch_cases)

theorem dispatch_outcomes_witness:
  "fst (dispatch_user_connection (\<lambda>_. ProbePending) ''ssh'' 9 0 5 (server_state_new 0)) = Waiting 1"
proof -
  obtain r st' where d: "dispatch_user_connection (\<lambda>_. ProbePending) ''ssh'' 9 0 5 (server_state_new 0)
      = (r, st')" by fastforce
  have "st_work_id (server_state_new 0) = 0" "pool_of 0 ''ssh'' (server_state_new 0) = []"
    "active_connections (st_metrics (server_state_new 0)) < st_max_active (server_state_new 0)"
    by (simp_all add: server_state_new_def pool_of_def session_new_def active_connections_def
        metrics_new_def zero_counters_def MAX_ACTIVE_CONNECTIONS_def)
  with dispatch_outcomes [OF d] d show ?thesis by (auto simp: handed_over_def)
qed

text \<open>
  The periodic sweep closes exactly the user connections that have waited for the timeout:
  it removes their entries and no other, and the active count drops by the number it reports.
\<close>

theorem sweep_pending_exact:
  assumes "hm_wf (st_pending st)" and "sweep_expired_pending now timeout st = (n, st')"
  shows "hm_get (st_pending st') wk =
      (case hm_get (st_pending st) wk of
         None \<Rightarrow> None
       | Some p \<Rightarrow> if now - pw_created p < timeout then Some p else None) \<and>
    active_connections (st_metrics st') = active_connections (st_metrics st) - int n"
  using sweep_get [OF assms(1), of now timeout wk] sweep_active [of now timeout st] assms(2) by simp

definition demo_waiting :: "instant \<Rightarrow> pending_work" where
  "demo_waiting t = \<lparr>pw_proxy_name = ''ssh'', pw_session_id = ''s1'', pw_user = None, pw_created = t\<rparr>"

definition demo_two_waiting :: server_state where
  "demo_two_waiting = (server_state_new 0)\<lparr>st_pending := [(1, demo_waiting 2), (2, demo_waiting 15)]\<rparr>"

theorem sweep_pending_exact_witness:
  "let st' = snd (sweep_expired_pending 20 10 demo_two_waiting)
   in hm_get (st_pending st') 1 = None \<and> hm_get (st_pending st') 2 = Some (demo_waiting 15)"
proof -
  have wf: "hm_wf (st_pending demo_two_waiting)"
    and g: "hm_get (st_pending demo_two_waiting) 1 = Some (demo_waiting 2)"
      "hm_get (st_pending demo_two_waiting) 2 = Some (demo_waiting 15)"
    by (simp_all add: demo_two_waiting_def hm_wf_def hm_keys_def hm_get_def)
  obtain n st' where r: "sweep_expired_pending 20 10 demo_two_waiting = (n, st')" by fastforce
  show ?thesis
    using sweep_pending_exact [OF wf r, of 1] sweep_pending_exact [OF wf r, of 2] g r
    by (simp add: demo_waiting_def)
qed

end
