(* ===== verification/Control.thy ===== *)
theory Control
  imports Listener Auth
begin

text \<open>
  The server side of a control connection (\<open>rfrps/src/control.rs\<close>): the decision on a login, the
  replacement of an older session of the same client, the loop over control messages, the
  heartbeat watchdog and the cleanup at the end. The UUID parser, the generated UUIDs, the clock
  and what the network delivers are arguments.
\<close>

section \<open>Ending a session\<close>

definition unregister_session :: "nat \<Rightarrow> server_state \<Rightarrow> server_state" where
  \<comment> \<open>only if the registered session of this run id is still this one\<close>
  "unregister_session a st =
     (let s = st_heap st a in
      case hm_get (st_sessions st) (se_run_id s) of
        None \<Rightarrow> st
      | Some b \<Rightarrow>
          if se_session_id (st_heap st b) = se_session_id s
          then st\<lparr>st_sessions := hm_remove (se_run_id s) (st_sessions st)\<rparr>
          else st)"

definition remove_udp :: "string \<Rightarrow> server_state \<Rightarrow> server_state" where
  \<comment> \<open>take the proxy out of the table and cancel its work connections\<close>
  "remove_udp n st =
     (case hm_get (st_udp st) n of
        None \<Rightarrow> st
      | Some u \<Rightarrow>
          st\<lparr>st_udp := hm_remove n (st_udp st),
             st_udp_heap := (st_udp_heap st)(u := (st_udp_heap st u)\<lparr>up_stop := True\<rparr>)\<rparr>)"

definition drop_pending_of :: "string \<Rightarrow> instant \<Rightarrow> server_state \<Rightarrow> server_state" where
  \<comment> \<open>\<open>pending.retain(|_, p| p.session_id != session_id)\<close>; the users it drops are closed\<close>
  "drop_pending_of session_id now st =
     (let gone = filter (\<lambda>p. pw_session_id p = session_id) (hm_values (st_pending st));
          st = st\<lparr>st_pending := hm_retain (\<lambda>_ p. pw_session_id p \<noteq> session_id) (st_pending st)\<rparr>
      in fold (drop_user now) (List.map_filter pw_user gone) st)"

definition cleanup :: "nat \<Rightarrow> instant \<Rightarrow> server_state \<Rightarrow> server_state" where
  "cleanup a now st =
     (let st = upd_session a (\<lambda>s. s\<lparr>se_stopped := True\<rparr>) st;
          proxies = se_proxies (st_heap st a);
          proxy_names = hm_keys proxies;
          udp_names = map fst (filter (\<lambda>(_, e). pe_kind e = Udp) proxies);
          domain_names = hm_keys (se_proxy_domains (st_heap st a));
          st = remove_proxy_stats proxy_names st;
          st = unindex_proxies proxy_names st;
          st = unindex_domains domain_names st;
          st = st\<lparr>st_tasks := fold hm_remove (map pe_handle (hm_values proxies)) (st_tasks st)\<rparr>;
          st = upd_session a (\<lambda>s. s\<lparr>se_proxies := []\<rparr>) st;
          st = fold remove_udp udp_names st;
          st = upd_session a (\<lambda>s. s\<lparr>se_proxy_domains := []\<rparr>) st;
          st = upd_session a (\<lambda>s. s\<lparr>se_pools := []\<rparr>) st
      in drop_pending_of (se_session_id (st_heap st a)) now st)"

section \<open>Login\<close>

datatype login_result =
    Reject "string option"  \<comment> \<open>a \<open>LoginResp\<close> with \<open>ok = false\<close> and this error\<close>
  | Fail error
  | Proceed string

definition over_limit :: "string \<Rightarrow> ip_addr \<Rightarrow> server_state \<Rightarrow> bool" where
  "over_limit run_id peer_ip st =
     (let reg = st_sessions st in
      if hm_has reg run_id then False
      else if st_max_sessions st \<le> hm_len reg then True
      else st_max_sessions_per_ip st
             \<le> length (filter (\<lambda>b. se_peer_ip (st_heap st b) = peer_ip) (hm_values reg)))"

definition login_check ::
  "json \<Rightarrow> (string \<Rightarrow> bool) \<Rightarrow> server_config \<Rightarrow> frame \<Rightarrow> ip_addr \<Rightarrow> instant \<Rightarrow> server_state
     \<Rightarrow> login_result \<times> server_state" where
  "login_check j uuid_ok config login_frame peer_ip now st =
     (let (allowed, st) = login_allowed peer_ip now st in
      if \<not> allowed then (Reject None, st)
      else case from_frame j login_frame of
        Inl e \<Rightarrow> (Fail e, st)
      | Inr (Login l) \<Rightarrow>
          if lg_version l \<noteq> PROTOCOL_VERSION then (Reject (Some ''version mismatch''), st)
          else if \<not> uuid_ok (lg_run_id l) \<or> MAX_RUN_ID_LEN < length (lg_run_id l)
               \<or> MAX_TOKEN_LEN < length (lg_token l)
          then (Reject None, st)
          else if \<not> verify_token (sv_token (sc_server config)) (lg_token l)
          then (Reject None, record_login_failure peer_ip now st)
          else
            let st = clear_login_failures peer_ip st in
            if over_limit (lg_run_id l) peer_ip st then (Reject (Some ''too many sessions''), st)
            else (Proceed (lg_run_id l), st)
      | Inr _ \<Rightarrow> (Fail (Protocol FirstFrameMustBeLogin), st))"

definition login_commit ::
  "string \<Rightarrow> string \<Rightarrow> string \<Rightarrow> ip_addr \<Rightarrow> instant \<Rightarrow> server_state \<Rightarrow> nat \<times> server_state" where
  \<comment> \<open>the new session takes the place of an older one, which is cleaned up outside the lock\<close>
  "login_commit run_id session_id token peer_ip now st =
     (let a = st_next_session st;
          st = st\<lparr>st_heap := (st_heap st)(a := session_new run_id session_id peer_ip token),
                  st_next_session := a + 1\<rparr>;
          old = hm_get (st_sessions st) run_id;
          st = st\<lparr>st_sessions := hm_insert run_id a (hm_remove run_id (st_sessions st))\<rparr>;
          st = (case old of None \<Rightarrow> st | Some b \<Rightarrow> cleanup b now st)
      in (a, st))"

definition login_resp_of :: "server_config \<Rightarrow> session \<Rightarrow> message" where
  "login_resp_of config s =
     LoginResp \<lparr>lr_ok = True, lr_error = None, lr_session_id = Some (se_session_id s),
       lr_work_conn_tls = Some (sv_work_conn_tls (sc_server config)),
       lr_work_conn_token = Some (se_work_conn_token s)\<rparr>"

definition reject_resp :: "string option \<Rightarrow> message" where
  "reject_resp err =
     LoginResp \<lparr>lr_ok = False, lr_error = err, lr_session_id = None, lr_work_conn_tls = None,
       lr_work_conn_token = None\<rparr>"

section \<open>Control messages\<close>

definition new_proxy_invalid :: "new_proxy \<Rightarrow> string option" where
  "new_proxy_invalid np =
     (if np_proxy_name np = [] \<or> MAX_PROXY_NAME_LEN < length (np_proxy_name np)
         \<or> contains_str ''/'' (np_proxy_name np) \<or> has_whitespace (np_proxy_name np)
      then Some ''invalid field''
      else case np_custom_domains np of
        None \<Rightarrow> None
      | Some doms \<Rightarrow>
          if MAX_CUSTOM_DOMAINS < length doms then Some ''invalid field''
          else if list_ex (\<lambda>d. d = [] \<or> MAX_DOMAIN_LEN < length d) doms then Some ''invalid field''
          else None)"

definition new_proxy_resp :: "string \<Rightarrow> string option \<Rightarrow> message" where
  "new_proxy_resp name err =
     NewProxyResp \<lparr>nr_proxy_name = name, nr_ok = (err = None), nr_error = err\<rparr>"

record turn_env =
  te_taken :: nat  \<comment> \<open>messages the writer takes while a send waits\<close>
  te_bind :: "(io_error, unit) result"
  te_now_ms :: u64

definition handle_new_proxy ::
  "(string \<Rightarrow> string) \<Rightarrow> server_config \<Rightarrow> turn_env \<Rightarrow> new_proxy \<Rightarrow> nat \<Rightarrow> server_state
     \<Rightarrow> bool \<times> server_state" where
  \<comment> \<open>whether the loop goes on\<close>
  "handle_new_proxy lower config env np a st =
     (case new_proxy_invalid np of
        Some err \<Rightarrow>
          send_to a (send_with_timeout (te_taken env) (new_proxy_resp (np_proxy_name np) (Some err))) st
      | None \<Rightarrow>
          (case register_proxy lower np a config (te_bind env) st of
             Inr st' \<Rightarrow>
               send_to a (send_with_timeout (te_taken env) (new_proxy_resp (np_proxy_name np) None)) st'
           | Inl e \<Rightarrow>
               send_to a (send_with_timeout (te_taken env)
                 (new_proxy_resp (np_proxy_name np) (Some (as_str e)))) st))"

definition saturating_sub_u64 :: "u64 \<Rightarrow> u64 \<Rightarrow> u64" where
  "saturating_sub_u64 a b = (if b \<le> a then a - b else 0)"

definition handle_message ::
  "(string \<Rightarrow> string) \<Rightarrow> server_config \<Rightarrow> turn_env \<Rightarrow> message \<Rightarrow> nat \<Rightarrow> u64 \<Rightarrow> server_state
     \<Rightarrow> bool \<times> u64 \<times> server_state" where
  \<comment> \<open>with \<open>pong_ts\<close>, the last heartbeat the client answered\<close>
  "handle_message lower config env msg a pong_ts st =
     (case msg of
        NewProxy np \<Rightarrow>
          let (go, st) = handle_new_proxy lower config env np a st in (go, pong_ts, st)
      | Heartbeat ts \<Rightarrow> (True, pong_ts, snd (send_to a (try_send (HeartbeatResp ts)) st))
      | HeartbeatResp ts \<Rightarrow>
          (True, ts, on_metrics (set_rtt_ms (saturating_sub_u64 (te_now_ms env) ts)) st)
      | Close _ \<Rightarrow> (False, pong_ts, st)
      | _ \<Rightarrow> (True, pong_ts, st))"

datatype ctl_event =
    FrameIn frame turn_env
  | FrameErr  \<comment> \<open>a frame error or the end of the stream\<close>
  | Disconnect  \<comment> \<open>the watchdog\<close>
  | StopNotified
  | ShutdownCancelled
  | Others "server_state \<Rightarrow> server_state"  \<comment> \<open>what other tasks do meanwhile\<close>

definition control_turn ::
  "json \<Rightarrow> (string \<Rightarrow> string) \<Rightarrow> server_config \<Rightarrow> ctl_event \<Rightarrow> nat \<Rightarrow> u64 \<Rightarrow> server_state
     \<Rightarrow> bool \<times> u64 \<times> server_state" where
  "control_turn j lower config ev a pong_ts st =
     (case ev of
        FrameIn f env \<Rightarrow>
          (case from_frame j f of
             Inl e \<Rightarrow> (False, pong_ts, st)
           | Inr msg \<Rightarrow> handle_message lower config env msg a pong_ts st)
      | Others g \<Rightarrow> (True, pong_ts, g st)
      | _ \<Rightarrow> (False, pong_ts, st))"

fun control_loop ::
  "json \<Rightarrow> (string \<Rightarrow> string) \<Rightarrow> server_config \<Rightarrow> ctl_event list \<Rightarrow> nat \<Rightarrow> u64 \<Rightarrow> server_state
     \<Rightarrow> server_state" where
  "control_loop j lower config [] a pong_ts st = st"
| "control_loop j lower config (ev # evs) a pong_ts st =
     (let (go, pong_ts, st) = control_turn j lower config ev a pong_ts st in
      if go then control_loop j lower config evs a pong_ts st else st)"

definition end_session :: "nat \<Rightarrow> instant \<Rightarrow> server_state \<Rightarrow> server_state" where
  "end_session a now st = cleanup a now (unregister_session a st)"

record login_env =
  le_uuid_ok :: "string \<Rightarrow> bool"
  le_session_id :: string
  le_token :: string
  le_taken :: nat
  le_end :: instant

definition handle_control_login ::
  "json \<Rightarrow> (string \<Rightarrow> string) \<Rightarrow> server_config \<Rightarrow> login_env \<Rightarrow> frame \<Rightarrow> ip_addr \<Rightarrow> instant
     \<Rightarrow> ctl_event list \<Rightarrow> server_state \<Rightarrow> (error, message option) result \<times> server_state" where
  \<comment> \<open>with the rejection that is sent, if any\<close>
  "handle_control_login j lower config env login_frame peer_ip now evs st =
     (case login_check j (le_uuid_ok env) config login_frame peer_ip now st of
        (Reject err, st) \<Rightarrow> (Inr (Some (reject_resp err)), st)
      | (Fail e, st) \<Rightarrow> (Inl e, st)
      | (Proceed run_id, st) \<Rightarrow>
          let (a, st) = login_commit run_id (le_session_id env) (le_token env) peer_ip now st;
              (sent, st) = send_to a (send_with_timeout (le_taken env)
                             (login_resp_of config (st_heap st a))) st
          in if \<not> sent then (Inr None, end_session a now st)
             else (Inr None, end_session a (le_end env) (control_loop j lower config evs a 0 st)))"

section \<open>The heartbeat watchdog\<close>

fun hb_wait :: "u64 \<Rightarrow> duration \<Rightarrow> u64 \<Rightarrow> (duration \<times> u64) list \<Rightarrow> bool" where
  \<comment> \<open>waiting for the answer to \<open>ts\<close>: the time left, the last answered heartbeat, and the wake-ups
      to come with the value they find. The result is \<open>timed_out\<close>.\<close>
  "hb_wait ts remaining pong_ts wakes =
     (if ts \<le> pong_ts then False
      else if remaining = 0 then True
      else case wakes of
             [] \<Rightarrow> True
           | (wait, v) # wakes \<Rightarrow>
               if remaining < wait then True else hb_wait ts (remaining - wait) v wakes)"

declare hb_wait.simps [simp del]

lemma hb_wait_sound:
  "\<not> hb_wait ts remaining v wakes \<Longrightarrow>
     ts \<le> v \<or> (\<exists>n < length wakes. sum_list (map fst (take (Suc n) wakes)) \<le> remaining \<and> ts \<le> snd (wakes ! n))"
proof (induction wakes arbitrary: remaining v)
  case Nil
  then show ?case by (auto simp: hb_wait.simps [of ts remaining v "[]"] split: if_splits)
next
  case (Cons w ws)
  obtain d x where w: "w = (d, x)" by fastforce
  show ?case
  proof (cases "ts \<le> v")
    case False
    with Cons.prems w have r: "d \<le> remaining" "\<not> hb_wait ts (remaining - d) x ws"
      by (auto simp: hb_wait.simps [of ts remaining v] split: if_splits)
    from Cons.IH [OF r(2)] show ?thesis
    proof
      assume "ts \<le> x"
      with r(1) w show ?thesis by (intro disjI2 exI [of _ 0]) simp
    next
      assume "\<exists>n < length ws. sum_list (map fst (take (Suc n) ws)) \<le> remaining - d \<and> ts \<le> snd (ws ! n)"
      then obtain n where "n < length ws" "sum_list (map fst (take (Suc n) ws)) \<le> remaining - d"
        "ts \<le> snd (ws ! n)" by blast
      with r(1) w show ?thesis by (intro disjI2 exI [of _ "Suc n"]) simp
    qed
  qed simp
qed

lemma hb_wait_complete:
  "n < length wakes \<Longrightarrow> sum_list (map fst (take (Suc n) wakes)) < remaining \<Longrightarrow>
   ts \<le> snd (wakes ! n) \<Longrightarrow> \<not> hb_wait ts remaining v wakes"
proof (induction wakes arbitrary: n remaining v)
  case Nil
  then show ?case by simp
next
  case (Cons w ws)
  obtain d x where w: "w = (d, x)" by fastforce
  have "\<not> hb_wait ts (remaining - d) x ws"
  proof (cases n)
    case 0
    with Cons.prems w show ?thesis by (simp add: hb_wait.simps [of ts "remaining - d" x])
  next
    case (Suc m)
    with Cons.prems w show ?thesis by (intro Cons.IH [of m]) auto
  qed
  with Cons.prems w show ?case by (simp add: hb_wait.simps [of ts remaining v])
qed

section \<open>What the operations leave alone\<close>

fun stop_udps ::
  "string list \<Rightarrow> (string, nat) hmap \<Rightarrow> (nat \<Rightarrow> udp_proxy) \<Rightarrow> (nat \<Rightarrow> udp_proxy)" where
  "stop_udps [] udp heap = heap"
| "stop_udps (n # ns) udp heap =
     stop_udps ns (hm_remove n udp)
       (case hm_get udp n of None \<Rightarrow> heap | Some u \<Rightarrow> heap(u := (heap u)\<lparr>up_stop := True\<rparr>))"

lemma fold_remove_udp:
  "fold remove_udp ns st =
     st\<lparr>st_udp := fold hm_remove ns (st_udp st), st_udp_heap := stop_udps ns (st_udp st) (st_udp_heap st)\<rparr>"
proof (induction ns arbitrary: st)
  case (Cons n ns)
  show ?case
    by (cases "hm_get (st_udp st) n") (simp_all add: Cons remove_udp_def [of n] hm_remove_absent fun_upd_def)
qed simp

definition wiped :: "session \<Rightarrow> session" where
  "wiped s = s\<lparr>se_stopped := True, se_proxies := [], se_proxy_domains := [], se_pools := []\<rparr>"

definition udp_names_of :: "session \<Rightarrow> string list" where
  "udp_names_of s = map fst (filter (\<lambda>(_, e). pe_kind e = Udp) (se_proxies s))"

definition users_of :: "string \<Rightarrow> server_state \<Rightarrow> user_conn list" where
  "users_of session_id st =
     List.map_filter pw_user (filter (\<lambda>p. pw_session_id p = session_id) (hm_values (st_pending st)))"

lemma cleanup_eq:
  fixes st a
  defines "s \<equiv> st_heap st a"
  shows "cleanup a now st = st\<lparr>
      st_heap := (st_heap st)(a := wiped s),
      st_proxy_stats := fold hm_remove (hm_keys (se_proxies s)) (st_proxy_stats st),
      st_proxy_index := fold hm_remove (hm_keys (se_proxies s)) (st_proxy_index st),
      st_domain_index := fold hm_remove (hm_keys (se_proxy_domains s)) (st_domain_index st),
      st_tasks := fold hm_remove (map pe_handle (hm_values (se_proxies s))) (st_tasks st),
      st_udp := fold hm_remove (udp_names_of s) (st_udp st),
      st_udp_heap := stop_udps (udp_names_of s) (st_udp st) (st_udp_heap st),
      st_pending := hm_retain (\<lambda>_ p. pw_session_id p \<noteq> se_session_id s) (st_pending st),
      st_metrics := fold (drop_metrics now) (users_of (se_session_id s) st) (st_metrics st)\<rparr>"
  by (simp add: cleanup_def Let_def upd_session_def remove_proxy_stats_def unindex_proxies_def
      unindex_domains_def fold_remove_udp drop_pending_of_def fold_drop_user wiped_def users_of_def
      udp_names_of_def s_def)

lemma login_allowed_eq:
  "\<exists>m. snd (login_allowed ip now st) = st\<lparr>st_login_failures := m\<rparr>"
proof -
  have "\<exists>m. st = st\<lparr>st_login_failures := m\<rparr>"
    by (rule exI [of _ "st_login_failures st"]) simp
  then show ?thesis
    by (auto simp: login_allowed_def Let_def split: option.split)
qed

lemma login_check_eq:
  "\<exists>m. snd (login_check j uuid_ok config f ip now st) = st\<lparr>st_login_failures := m\<rparr>"
proof -
  obtain m where m: "snd (login_allowed ip now st) = st\<lparr>st_login_failures := m\<rparr>"
    using login_allowed_eq by blast
  then obtain b where "login_allowed ip now st = (b, st\<lparr>st_login_failures := m\<rparr>)"
    by (metis prod.collapse)
  then show ?thesis
    by (auto simp: login_check_def record_login_failure_def clear_login_failures_def Let_def
        split: sum.split message.split)
qed

lemma over_limit_eq [simp]: "over_limit r ip (st\<lparr>st_login_failures := m\<rparr>) = over_limit r ip st"
  by (simp add: over_limit_def)

lemma login_allowed_fst: "login_allowed ip now st = (b, st') \<Longrightarrow> \<exists>m. st' = st\<lparr>st_login_failures := m\<rparr>"
  using login_allowed_eq [of ip now st] by simp

lemma clear_eq:
  "clear_login_failures ip (st\<lparr>st_login_failures := m\<rparr>) = st\<lparr>st_login_failures := hm_remove ip m\<rparr>"
  by (simp add: clear_login_failures_def)

lemma login_proceeds:
  "fst (login_check j uuid_ok config f ip now st) = Proceed r \<longleftrightarrow>
     fst (login_allowed ip now st) \<and>
     (\<exists>l. from_frame j f = Inr (Login l) \<and> lg_run_id l = r \<and> lg_version l = PROTOCOL_VERSION \<and>
        uuid_ok r \<and> length r \<le> MAX_RUN_ID_LEN \<and> length (lg_token l) \<le> MAX_TOKEN_LEN \<and>
        lg_token l = sv_token (sc_server config)) \<and>
     \<not> over_limit r ip st"
proof -
  obtain b st1 where a: "login_allowed ip now st = (b, st1)" by fastforce
  obtain m where m: "st1 = st\<lparr>st_login_failures := m\<rparr>" using login_allowed_fst [OF a] by blast
  show ?thesis
    by (auto simp: login_check_def a m clear_eq verify_token_eq Let_def not_less
        split: sum.splits message.splits)
qed

section \<open>Properties\<close>

text \<open>
  C8 --- A login is accepted exactly when every check passes: the address is not locked out, the
  first frame is a Login of this protocol version with a well-formed run id and the
  configured token, and either the run id is already connected (a reconnect) or both the global
  and the per-address session limits leave room.
\<close>

theorem login_accepted_iff:
  "fst (login_check j uuid_ok config f ip now st) = Proceed r \<longleftrightarrow>
     fst (login_allowed ip now st) \<and>
     (\<exists>l. from_frame j f = Inr (Login l) \<and> lg_run_id l = r \<and> lg_version l = PROTOCOL_VERSION \<and>
        uuid_ok r \<and> length r \<le> 64 \<and> length (lg_token l) \<le> 256 \<and>
        lg_token l = sv_token (sc_server config)) \<and>
     (hm_has (st_sessions st) r \<or>
      (hm_len (st_sessions st) < st_max_sessions st \<and>
       length (filter (\<lambda>b. se_peer_ip (st_heap st b) = ip) (hm_values (st_sessions st)))
         < st_max_sessions_per_ip st))"
  by (simp add: login_proceeds over_limit_def MAX_RUN_ID_LEN_def MAX_TOKEN_LEN_def not_le Let_def)



text \<open>
  The heartbeat watchdog neither misses a dead peer nor kills a live one: a round passes
  only if the heartbeat (or a later one) was answered by the deadline, and it does pass whenever
  an answer arrives before the deadline.
\<close>

theorem heartbeat_watchdog:
  "(hb_wait ts timeout v wakes \<or> ts \<le> v \<or>
     (\<exists>n. n < length wakes \<and> sum_list (map fst (take (Suc n) wakes)) \<le> timeout \<and>
        ts \<le> snd (wakes ! n))) \<and>
   ((\<exists>n. n < length wakes \<and> sum_list (map fst (take (Suc n) wakes)) < timeout \<and>
        ts \<le> snd (wakes ! n)) \<longrightarrow> \<not> hb_wait ts timeout v wakes)"
  using hb_wait_sound [of ts timeout v wakes] hb_wait_complete [of _ wakes timeout ts v] by blast

theorem heartbeat_watchdog_witness:
  "\<not> hb_wait 7 10 0 [(3, 5), (4, 7)]"
proof -
  have "\<exists>n. n < length [(3, 5), (4, 7)] \<and>
      sum_list (map fst (take (Suc n) [(3, 5), (4, 7)])) < (10 :: duration) \<and>
      (7 :: u64) \<le> snd ([(3, 5), (4, 7)] ! n)"
    by (intro exI [of _ 1]) simp
  with heartbeat_watchdog [of 7 10 0 "[(3, 5), (4, 7)]"] show ?thesis by blast
qed

end
