(* ===== verification/Work.thy ===== *)
theory Work
  imports Control
begin

text \<open>
  Work connections on the server (\<open>rfrps/src/work.rs\<close>): the first frame names a proxy and a work
  id and carries the session's token; the connection then serves a UDP session, joins the pool
  of the proxy, or is bridged with the waiting user connection of that id.
\<close>

definition verify_work_conn_token :: "session \<Rightarrow> string option \<Rightarrow> bool" where
  "verify_work_conn_token s provided =
     (case provided of Some t \<Rightarrow> verify_token (se_work_conn_token s) t | None \<Rightarrow> False)"

definition is_udp_proxy :: "server_state \<Rightarrow> string \<Rightarrow> bool" where
  "is_udp_proxy st proxy_name = hm_has (st_udp st) proxy_name"

definition get_udp_proxy :: "server_state \<Rightarrow> string \<Rightarrow> nat option" where
  "get_udp_proxy st proxy_name = hm_get (st_udp st) proxy_name"

definition run_udp_conn ::
  "nat \<Rightarrow> u64 \<Rightarrow> instant \<Rightarrow> (instant \<times> conn_event) list \<Rightarrow> server_state \<Rightarrow> server_state" where
  "run_udp_conn u wk now evs st =
     (let ((p, m), _, _) = handle_udp_work_conn wk now evs (st_udp_heap st u, st_metrics st)
      in st\<lparr>st_udp_heap := (st_udp_heap st)(u := p), st_metrics := m\<rparr>)"

definition pool_push :: "nat \<Rightarrow> string \<Rightarrow> nat \<Rightarrow> server_state \<Rightarrow> bool \<times> server_state" where
  \<comment> \<open>\<open>entry(..).or_default()\<close>, the limit, and the push\<close>
  "pool_push a proxy_name work st =
     (let pools = se_pools (st_heap st a);
          pool = unwrap_or (hm_get pools proxy_name) [];
          st = upd_session a (\<lambda>s. s\<lparr>se_pools := hm_insert proxy_name pool (se_pools s)\<rparr>) st
      in if MAX_POOLED_WORK_CONNS_PER_PROXY \<le> length pool then (False, st)
         else (True, upd_session a (\<lambda>s. s\<lparr>se_pools :=
                 hm_insert proxy_name (pool @ [work]) (se_pools s)\<rparr>) st))"

datatype work_result = Closed | Pooled | UdpDone | BridgedWith user_conn

definition claim_pending ::
  "nat \<Rightarrow> string \<Rightarrow> u64 \<Rightarrow> nat \<Rightarrow> server_state \<Rightarrow> work_result \<times> server_state" where
  \<comment> \<open>the waiting user connection of this id, if it belongs to this session and proxy\<close>
  "claim_pending a proxy_name wk work st =
     (case hm_get (st_pending st) wk of
        None \<Rightarrow> (Closed, st)
      | Some e \<Rightarrow>
          if \<not> (pw_session_id e = se_session_id (st_heap st a) \<and> pw_proxy_name e = proxy_name)
          then (Closed, st)
          else
            let st = st\<lparr>st_pending := hm_remove wk (st_pending st)\<rparr> in
            case pw_user e of
              None \<Rightarrow> (Closed, st)
            | Some user \<Rightarrow>
                (BridgedWith user, st\<lparr>st_bridges := (user, work, []) # st_bridges st\<rparr>))"

definition serve_work ::
  "nat \<Rightarrow> start_work_conn \<Rightarrow> nat \<Rightarrow> instant \<Rightarrow> (instant \<times> conn_event) list \<Rightarrow> server_state
     \<Rightarrow> work_result \<times> server_state" where
  \<comment> \<open>after the token was accepted\<close>
  "serve_work a s work now evs st =
     (let proxy_name = sw_proxy_name s; wk = sw_work_id s in
      if is_udp_proxy st proxy_name
      then if wk = WORK_ID_POOL_RESERVED then (Closed, st)
           else (case get_udp_proxy st proxy_name of
                   Some u \<Rightarrow> (UdpDone, run_udp_conn u wk now evs st)
                 | None \<Rightarrow> (Closed, st))
      else if wk = WORK_ID_POOL_RESERVED
      then (let (pushed, st) = pool_push a proxy_name work st
            in (if pushed then Pooled else Closed, st))
      else claim_pending a proxy_name wk work st)"

definition handle_work_connection ::
  "json \<Rightarrow> frame \<Rightarrow> nat \<Rightarrow> instant \<Rightarrow> (instant \<times> conn_event) list \<Rightarrow> server_state
     \<Rightarrow> (error, work_result) result \<times> server_state" where
  "handle_work_connection j start_frame work now evs st =
     (case from_frame j start_frame of
        Inl e \<Rightarrow> (Inl e, st)
      | Inr (StartWorkConn s) \<Rightarrow>
          (case session_for_proxy st (sw_proxy_name s) of
             None \<Rightarrow> (Inr Closed, st)
           | Some a \<Rightarrow>
               if \<not> verify_work_conn_token (st_heap st a) (sw_work_conn_token s)
               then (Inr Closed, st)
               else let (r, st) = serve_work a s work now evs st in (Inr r, st))
      | Inr _ \<Rightarrow> (Inl (Protocol ExpectedStartWorkConn), st))"

definition end_bridge :: "nat \<Rightarrow> instant \<Rightarrow> server_state \<Rightarrow> server_state" where
  \<comment> \<open>\<open>bridge\<close> returns: both ends are dropped\<close>
  "end_bridge i now st =
     (if i < length (st_bridges st)
      then drop_user now (fst (st_bridges st ! i))
             (st\<lparr>st_bridges := take i (st_bridges st) @ drop (Suc i) (st_bridges st)\<rparr>)
      else st)"

section \<open>Properties\<close>

lemma verify_work_conn_token_iff:
  "verify_work_conn_token s t \<longleftrightarrow> t = Some (se_work_conn_token s)"
  by (auto simp: verify_work_conn_token_def verify_token_eq split: option.splits)

lemma handle_work_connection_cases:
  assumes "handle_work_connection j f work now evs st = (r, st')"
  shows "(st' = st \<and> (r = Inr Closed \<or> (\<exists>e. r = Inl e))) \<or>
    (\<exists>s a x. from_frame j f = Inr (StartWorkConn s) \<and>
       session_for_proxy st (sw_proxy_name s) = Some a \<and>
       sw_work_conn_token s = Some (se_work_conn_token (st_heap st a)) \<and>
       r = Inr x \<and> serve_work a s work now evs st = (x, st'))"
  using assms
  by (auto simp: handle_work_connection_def verify_work_conn_token_iff
      split: sum.splits message.splits option.splits if_splits prod.splits)

text \<open>
  C6 --- Only the session that owns a proxy can supply its work connections: unless the first
  frame carries the token of the session the proxy is indexed to, nothing in the server changes;
  and a user connection is handed over only if it was waiting under that very id, for that proxy
  and that session.
\<close>

theorem work_connection_authentic:
  assumes "handle_work_connection j f work now evs st = (r, st')" and "st' \<noteq> st"
  shows "\<exists>s a. from_frame j f = Inr (StartWorkConn s) \<and>
    session_for_proxy st (sw_proxy_name s) = Some a \<and>
    sw_work_conn_token s = Some (se_work_conn_token (st_heap st a)) \<and>
    (\<forall>user. r = Inr (BridgedWith user) \<longrightarrow>
       (\<exists>pw. hm_get (st_pending st) (sw_work_id s) = Some pw \<and> pw_user pw = Some user \<and>
          pw_session_id pw = se_session_id (st_heap st a) \<and> pw_proxy_name pw = sw_proxy_name s \<and>
          hm_get (st_pending st') (sw_work_id s) = None))"
proof -
  from handle_work_connection_cases [OF assms(1)] assms(2)
  obtain s a x where s: "from_frame j f = Inr (StartWorkConn s)"
    "session_for_proxy st (sw_proxy_name s) = Some a"
    "sw_work_conn_token s = Some (se_work_conn_token (st_heap st a))"
    and r: "r = Inr x" "serve_work a s work now evs st = (x, st')" by auto
  have "\<exists>pw. hm_get (st_pending st) (sw_work_id s) = Some pw \<and> pw_user pw = Some user \<and>
          pw_session_id pw = se_session_id (st_heap st a) \<and> pw_proxy_name pw = sw_proxy_name s \<and>
          hm_get (st_pending st') (sw_work_id s) = None" if "x = BridgedWith user" for user
  proof -
    from that r(2) have "claim_pending a (sw_proxy_name s) (sw_work_id s) work st = (x, st')"
      by (auto simp: serve_work_def Let_def case_prod_beta split: if_splits option.splits)
    with that show ?thesis
      by (auto simp: claim_pending_def Let_def split: option.splits if_splits)
  qed
  with s r(1) show ?thesis by auto
qed

definition demo_start :: start_work_conn where
  "demo_start = \<lparr>sw_proxy_name = ''ssh'', sw_work_id = 0, sw_work_conn_token = Some ''tok''\<rparr>"

definition start_json :: json where
  \<comment> \<open>a codec whose only start message is \<open>demo_start\<close>\<close>
  "start_json = demo_json\<lparr>de_start_work_conn := (\<lambda>b. Inr demo_start)\<rparr>"

definition demo_work_state :: server_state where
  \<comment> \<open>one session with the token \<open>tok\<close> that owns the proxy \<open>ssh\<close>\<close>
  "demo_work_state =
     (let (a, st) = login_commit ''r1'' ''s1'' ''tok'' (V4 [10, 0, 0, 1]) 0 (server_state_new 0)
      in index_proxy ''ssh'' ''r1'' st)"

definition demo_start_frame :: frame where
  "demo_start_frame = frame_new PROTOCOL_VERSION MSG_START_WORK_CONN []"

lemma demo_work_runs:
  "handle_work_connection start_json demo_start_frame 7 1 [] demo_work_state =
     (Inr Pooled, snd (pool_push 0 ''ssh'' 7 demo_work_state))"
  by (simp add: handle_work_connection_def from_frame_def demo_start_frame_def frame_new_def
      msg_type_defs start_json_def demo_start_def demo_work_state_def login_commit_def
      server_state_new_def session_for_proxy_def index_proxy_def verify_work_conn_token_iff
      serve_work_def is_udp_proxy_def WORK_ID_POOL_RESERVED_def pool_push_def session_new_def
      MAX_POOLED_WORK_CONNS_PER_PROXY_def upd_session_def Let_def)

lemma demo_work_changes: "snd (pool_push 0 ''ssh'' 7 demo_work_state) \<noteq> demo_work_state"
proof -
  have "se_pools (st_heap (snd (pool_push 0 ''ssh'' 7 demo_work_state)) 0) \<noteq>
      se_pools (st_heap demo_work_state 0)"
    by (simp add: pool_push_def upd_session_def demo_work_state_def login_commit_def index_proxy_def
        session_new_def server_state_new_def MAX_POOLED_WORK_CONNS_PER_PROXY_def hm_insert_def Let_def)
  then show ?thesis by metis
qed

theorem work_connection_authentic_witness:
  "\<exists>s a. from_frame start_json demo_start_frame = Inr (StartWorkConn s) \<and>
    session_for_proxy demo_work_state (sw_proxy_name s) = Some a \<and>
    sw_work_conn_token s = Some (se_work_conn_token (st_heap demo_work_state a)) \<and>
    (\<forall>user. (Inr Pooled :: (error, work_result) result) = Inr (BridgedWith user) \<longrightarrow>
       (\<exists>pw. hm_get (st_pending demo_work_state) (sw_work_id s) = Some pw \<and> pw_user pw = Some user \<and>
          pw_session_id pw = se_session_id (st_heap demo_work_state a) \<and>
          pw_proxy_name pw = sw_proxy_name s \<and>
          hm_get (st_pending (snd (pool_push 0 ''ssh'' 7 demo_work_state))) (sw_work_id s) = None))"
  by (rule work_connection_authentic [OF demo_work_runs demo_work_changes])

end
