(* ===== verification/Vhost.thy ===== *)
theory Vhost
  imports Control Http Stream
begin

text \<open>
  HTTP and HTTPS virtual hosts (\<open>rfrps/src/vhost.rs\<close>): the request head is read off the
  connection, the host decides the proxy, and the connection is dispatched with the head put
  back in front. \<open>httparse\<close> is a parameter with its three outcomes; so are \<open>str::to_lowercase\<close>
  and the probe of pooled connections.
\<close>

datatype head_status = Complete "(string \<times> string) list" | Partial | Malformed

type_synonym head_parser = "string \<Rightarrow> head_status"

definition strip_port :: "string \<Rightarrow> string" where
  "strip_port host = (if has_prefix ''['' host then host else hd (split_char CHR '':'' host))"

definition host_of :: "(string \<times> string) list \<Rightarrow> string" where
  \<comment> \<open>the first \<open>Host\<close> header, without its port; empty when there is none or it is not UTF-8\<close>
  "host_of headers =
     (case find (\<lambda>h. eq_ignore_ascii_case (fst h) ''host'') headers of
        None \<Rightarrow> []
      | Some h \<Rightarrow> if utf8_valid (snd h) then strip_port (snd h) else [])"

fun vhost_read_head ::
  "head_parser \<Rightarrow> duration \<Rightarrow> string \<Rightarrow> (duration \<times> read_outcome) list
     \<Rightarrow> (io_error, (string \<times> string) option) result \<times> (duration \<times> read_outcome) list" where
  \<comment> \<open>the host and the bytes read so far, and the reads that are left\<close>
  "vhost_read_head hp remaining buf [] = (Inr None, [])"
| "vhost_read_head hp remaining buf ((wait, r) # rs) =
     (if remaining = 0 then (Inr None, (wait, r) # rs)
      else if remaining < wait then (Inr None, (wait, r) # rs)
      else case r of
             Failed e \<Rightarrow> (Inl e, rs)
           | Got d \<Rightarrow>
               if d = [] then (Inr None, rs)
               else let buf = buf @ d in
                 case hp buf of
                   Complete headers \<Rightarrow> (Inr (Some (host_of headers, buf)), rs)
                 | Partial \<Rightarrow>
                     if 64 * 1024 < length buf then (Inr None, rs)
                     else vhost_read_head hp (remaining - wait) buf rs
                 | Malformed \<Rightarrow> (Inr None, rs))"

section \<open>Routing\<close>

datatype route = NotFound404 string | Dispatched nat string dispatched

definition respond_not_found :: string where
  "respond_not_found =
     write_response 404 ''text/plain; charset=utf-8''
       (''404 Not Found: no rfrp proxy matched this vhost'' @ [CHR 0x0A]) None"

definition route_and_dispatch ::
  "(string \<Rightarrow> string) \<Rightarrow> (nat \<Rightarrow> probe) \<Rightarrow> string \<Rightarrow> proxy_type \<Rightarrow> nat \<Rightarrow> instant \<Rightarrow> server_state
     \<Rightarrow> route \<times> server_state" where
  "route_and_dispatch lower probe host0 expected_kind handle now st =
     (let host = lower host0 in
      case session_for_domain st host of
        None \<Rightarrow> (NotFound404 respond_not_found, st)
      | Some (a, proxy_name) \<Rightarrow>
          let kind_ok = (case hm_get (se_proxies (st_heap st a)) proxy_name of
                           None \<Rightarrow> False | Some e \<Rightarrow> pe_kind e = expected_kind)
          in if \<not> kind_ok then (NotFound404 respond_not_found, st)
             else let (d, st) = dispatch_user_connection probe proxy_name handle a now st
                  in (Dispatched a proxy_name d, st))"

definition https_host :: "server_state \<Rightarrow> string option \<Rightarrow> string \<Rightarrow> string" where
  \<comment> \<open>the SNI name if it is a known domain, the Host header otherwise\<close>
  "https_host st sni host =
     (case sni of
        Some s \<Rightarrow> if session_for_domain st s \<noteq> None then s else host
      | None \<Rightarrow> host)"

definition handle_http_connection ::
  "(string \<Rightarrow> string) \<Rightarrow> (nat \<Rightarrow> probe) \<Rightarrow> head_parser \<Rightarrow> nat \<Rightarrow> instant
     \<Rightarrow> (duration \<times> read_outcome) list \<Rightarrow> server_state
     \<Rightarrow> (io_error, (route \<times> string) option) result \<times> server_state" where
  \<comment> \<open>with the bytes that are replayed to the work connection\<close>
  "handle_http_connection lower probe hp handle now reads st =
     (case vhost_read_head hp (from_secs HTTP_HEAD_TIMEOUT) [] reads of
        (Inl e, _) \<Rightarrow> (Inl e, st)
      | (Inr None, _) \<Rightarrow> (Inr None, st)
      | (Inr (Some (host, buf)), _) \<Rightarrow>
          let (r, st) = route_and_dispatch lower probe host Http handle now st
          in (Inr (Some (r, buf)), st))"

definition handle_https_connection ::
  "(string \<Rightarrow> string) \<Rightarrow> (nat \<Rightarrow> probe) \<Rightarrow> head_parser \<Rightarrow> string option \<Rightarrow> nat \<Rightarrow> instant
     \<Rightarrow> (duration \<times> read_outcome) list \<Rightarrow> server_state
     \<Rightarrow> (io_error, (route \<times> string) option) result \<times> server_state" where
  "handle_https_connection lower probe hp sni handle now reads st =
     (case vhost_read_head hp (from_secs HTTP_HEAD_TIMEOUT) [] reads of
        (Inl e, _) \<Rightarrow> (Inl e, st)
      | (Inr None, _) \<Rightarrow> (Inr None, st)
      | (Inr (Some (host, buf)), _) \<Rightarrow>
          let (r, st) = route_and_dispatch lower probe (https_host st sni host) Https handle now st
          in (Inr (Some (r, buf)), st))"

section \<open>Facts\<close>

lemma strip_port_name:
  "CHR '':'' \<notin> set h \<Longrightarrow> \<not> has_prefix ''['' h \<Longrightarrow> strip_port (h @ CHR '':'' # p) = h"
  by (cases h) (auto simp: strip_port_def split_char_append has_prefix_def)

definition delivered :: "(duration \<times> read_outcome) list \<Rightarrow> string" where
  "delivered rs = concat (map (\<lambda>(_, r). case r of Got d \<Rightarrow> d | Failed _ \<Rightarrow> []) rs)"

lemma delivered_simps [simp]:
  "delivered [] = []" "delivered ((w, Got d) # rs) = d @ delivered rs"
  by (simp_all add: delivered_def)

lemma vhost_read_head_sound:
  assumes "vhost_read_head hp remaining buf rs = (Inr (Some (host, out)), rs')"
  shows "buf @ delivered rs = out @ delivered rs' \<and>
    (\<exists>hs. hp out = Complete hs \<and> host = host_of hs)"
  using assms
proof (induction hp remaining buf rs rule: vhost_read_head.induct)
  case (2 hp remaining buf wait r rs)
  from 2(2) obtain d where r: "r = Got d" "remaining \<noteq> 0" "\<not> remaining < wait" "d \<noteq> []"
    by (auto split: if_splits read_outcome.splits)
  show ?case
  proof (cases "hp (buf @ d)")
    case (Complete hs)
    with 2(2) r show ?thesis by (auto simp: Let_def)
  next
    case Partial
    with 2(2) r have rec: "vhost_read_head hp (remaining - wait) (buf @ d) rs = (Inr (Some (host, out)), rs')"
      and l: "\<not> 64 * 1024 < length (buf @ d)"
      by (auto simp: Let_def split: if_splits)
    from 2(1) [OF r(2,3,1,4) refl Partial l rec] r show ?thesis by simp
  next
    case Malformed
    with 2(2) r show ?thesis by (auto simp: Let_def)
  qed
qed simp

lemma route_cases:
  assumes "route_and_dispatch lower probe host kind handle now st = (r, st')"
  shows "(r = NotFound404 respond_not_found \<and> st' = st \<and>
      \<not> (\<exists>a name e. session_for_domain st (lower host) = Some (a, name) \<and>
           hm_get (se_proxies (st_heap st a)) name = Some e \<and> pe_kind e = kind)) \<or>
    (\<exists>a name e d. r = Dispatched a name d \<and> session_for_domain st (lower host) = Some (a, name) \<and>
       hm_get (se_proxies (st_heap st a)) name = Some e \<and> pe_kind e = kind \<and>
       dispatch_user_connection probe name handle a now st = (d, st'))"
  using assms
  by (auto simp: route_and_dispatch_def Let_def split: option.splits if_splits prod.splits)

section \<open>Properties\<close>

text \<open>
  C27 --- An HTTP request goes to the proxy that registered its host, or nowhere: when a request is
  routed, the head is complete, the bytes replayed to the work connection followed by what is
  still to be read are exactly what the user sent, and the connection is dispatched to the
  session and proxy the domain table has for the lower-cased host, which must be an HTTP proxy;
  otherwise the user gets a 404 and the server's state is untouched.
\<close>

theorem vhost_routing:
  assumes "handle_http_connection lower probe hp handle now reads st = (Inr (Some (r, buf)), st')"
  shows "(\<exists>rest. delivered reads = buf @ delivered rest) \<and>
    (\<exists>headers. hp buf = Complete headers \<and>
      ((r = NotFound404 respond_not_found \<and> st' = st) \<or>
       (\<exists>a name e d. r = Dispatched a name d \<and>
          session_for_domain st (lower (host_of headers)) = Some (a, name) \<and>
          hm_get (se_proxies (st_heap st a)) name = Some e \<and> pe_kind e = Http \<and>
          dispatch_user_connection probe name handle a now st = (d, st'))))"
proof -
  from assms obtain host rest where h:
      "vhost_read_head hp (from_secs HTTP_HEAD_TIMEOUT) [] reads = (Inr (Some (host, buf)), rest)"
      "route_and_dispatch lower probe host Http handle now st = (r, st')"
    by (auto simp: handle_http_connection_def split: prod.splits sum.splits option.splits)
  from vhost_read_head_sound [OF h(1)] obtain hs where
    "delivered reads = buf @ delivered rest" "hp buf = Complete hs" "host = host_of hs" by auto
  with route_cases [OF h(2)] show ?thesis by blast
qed

definition demo_head :: string where
  "demo_head = ''GET / HTTP/1.1'' @ CRLF @ ''Host: nowhere'' @ CRLF @ CRLF"

theorem vhost_routing_witness:
  "(\<exists>rest. delivered [(1, Got demo_head)] = demo_head @ delivered rest) \<and>
    (\<exists>headers. (if demo_head = demo_head then Complete [(''Host'', ''nowhere'')] else Partial)
        = Complete headers \<and>
      ((NotFound404 respond_not_found = NotFound404 respond_not_found \<and>
          server_state_new 0 = server_state_new 0) \<or>
       (\<exists>a name e d. NotFound404 respond_not_found = Dispatched a name d \<and>
          session_for_domain (server_state_new 0) (to_ascii_lowercase (host_of headers)) = Some (a, name) \<and>
          hm_get (se_proxies (st_heap (server_state_new 0) a)) name = Some e \<and> pe_kind e = Http \<and>
          dispatch_user_connection (\<lambda>_. ProbePending) name 5 a 2 (server_state_new 0)
            = (d, server_state_new 0))))"
proof (rule vhost_routing [where hp = "\<lambda>b. if b = demo_head then Complete [(''Host'', ''nowhere'')] else Partial"
      and lower = to_ascii_lowercase and probe = "\<lambda>_. ProbePending" and handle = 5 and now = 2])
  show "handle_http_connection to_ascii_lowercase (\<lambda>_. ProbePending)
      (\<lambda>b. if b = demo_head then Complete [(''Host'', ''nowhere'')] else Partial) 5 2
      [(1, Got demo_head)] (server_state_new 0)
    = (Inr (Some (NotFound404 respond_not_found, demo_head)), server_state_new 0)"
    by (simp add: handle_http_connection_def HTTP_HEAD_TIMEOUT_def from_secs_def
        route_and_dispatch_def session_for_domain_def server_state_new_def demo_head_def CRLF_def
        Let_def)
qed

end
