(* ===== verification/Crypto.thy ===== *)
theory Crypto
  imports Config_Server Config_Client
begin

text \<open>
  Building the TLS endpoints (\<open>rfrp-common/src/crypto.rs\<close>): which files are read, which failures
  are reported, and how a failed handshake is classified. The PEM parser, the TLS library and
  the built-in roots are the record \<open>tls_env\<close>; certificates and keys are opaque texts.
\<close>

record tls_env =
  te_open :: "string \<Rightarrow> (io_error, string) result"
  te_certs :: "string \<Rightarrow> (io_error, string) result list"
  te_private_key :: "string \<Rightarrow> (io_error, string option) result"
  te_single_cert :: "string list \<Rightarrow> string \<Rightarrow> (string, unit) result"
  te_ticketer :: "(string, unit) result"
  te_add_root :: "string \<Rightarrow> (string, unit) result"
  te_webpki_roots :: "string list"
  te_server_name :: "string \<Rightarrow> (string, string) result"
  te_display :: "io_error \<Rightarrow> string"

definition map_err :: "('e \<Rightarrow> 'f) \<Rightarrow> ('e, 'a) result \<Rightarrow> ('f, 'a) result" where
  "map_err g r = (case r of Inl e \<Rightarrow> Inl (g e) | Inr a \<Rightarrow> Inr a)"

lemma map_err_Inr_iff [simp]: "map_err g r = Inr a \<longleftrightarrow> r = Inr a"
  by (auto simp: map_err_def split: sum.splits)

lemma map_err_Inl_iff: "map_err g r = Inl e \<longleftrightarrow> (\<exists>d. r = Inl d \<and> e = g d)"
  by (auto simp: map_err_def split: sum.splits)

record server_tls_config =
  tc_certs :: "string list"
  tc_key :: string
  tc_tickets :: bool

definition enable_session_resumption ::
  "tls_env \<Rightarrow> server_tls_config \<Rightarrow> (error, server_tls_config) result" where
  "enable_session_resumption env cfg =
     rbind (map_err (\<lambda>e. Config (TicketerFailed e)) (te_ticketer env)) (\<lambda>_.
       Inr (cfg\<lparr>tc_tickets := True\<rparr>))"

definition load_server_tls :: "tls_env \<Rightarrow> string \<Rightarrow> string \<Rightarrow> (error, server_tls_config) result" where
  "load_server_tls env cert_path key_path =
     rbind (map_err (\<lambda>e. Config (CertUnreadable cert_path e)) (te_open env cert_path)) (\<lambda>cert_file.
     rbind (map_err (\<lambda>e. Config (CertInvalid cert_path e)) (collect (te_certs env cert_file))) (\<lambda>certs.
     rbind (ensure (certs \<noteq> []) (Config (NoCertificate cert_path))) (\<lambda>_.
     rbind (map_err (\<lambda>e. Config (KeyUnreadable key_path e)) (te_open env key_path)) (\<lambda>key_file.
     rbind (map_err (\<lambda>e. Config (KeyInvalid key_path e)) (te_private_key env key_file)) (\<lambda>k.
     rbind (ok_or k (Config (NoPrivateKey key_path))) (\<lambda>key.
     rbind (map_err (\<lambda>e. Config (ServerTlsRejected e)) (te_single_cert env certs key)) (\<lambda>_.
       enable_session_resumption env \<lparr>tc_certs = certs, tc_key = key, tc_tickets = False\<rparr>)))))))"

definition server_tls_new :: "tls_env \<Rightarrow> string \<Rightarrow> string \<Rightarrow> (error, server_tls_config) result" where
  "server_tls_new env cert_path key_path = load_server_tls env cert_path key_path"

definition server_tls_accept :: "(io_error, 's) result \<Rightarrow> (error, 's) result" where
  \<comment> \<open>of what the handshake gives\<close>
  "server_tls_accept r = map_err (\<lambda>e. Other (''TLS accept failed: '' @ describe_io_error e)) r"

section \<open>The client's side\<close>

fun add_roots :: "tls_env \<Rightarrow> string \<Rightarrow> (io_error, string) result list \<Rightarrow> string list
    \<Rightarrow> (error, string list) result" where
  \<comment> \<open>the loop over the certificates of the CA file\<close>
  "add_roots env path [] roots = Inr roots"
| "add_roots env path (c # cs) roots =
     rbind (map_err (\<lambda>e. Config (CaInvalid path e)) c) (\<lambda>cert.
     rbind (map_err (\<lambda>e. Config (CaRejected path e)) (te_add_root env cert)) (\<lambda>_.
       add_roots env path cs (roots @ [cert])))"

definition load_root_cert_store :: "tls_env \<Rightarrow> string option \<Rightarrow> (error, string list) result" where
  "load_root_cert_store env ca_path =
     (case ca_path of
        Some path \<Rightarrow>
          rbind (map_err (\<lambda>e. Config (CaUnreadable path e)) (te_open env path)) (\<lambda>file.
          rbind (add_roots env path (te_certs env file) []) (\<lambda>roots.
          rbind (ensure (roots \<noteq> []) (Config (NoCaCertificate path))) (\<lambda>_. Inr roots)))
      | None \<Rightarrow> Inr (te_webpki_roots env))"

record client_tls =
  ct_roots :: "string list"
  ct_server_name :: string

definition client_tls_new :: "tls_env \<Rightarrow> client_section \<Rightarrow> (error, client_tls) result" where
  "client_tls_new env section =
     rbind (ok_or (tls_server_name section) (Config TlsNameRequired)) (\<lambda>server_name.
     rbind (map_err (\<lambda>e. Config (TlsNameInvalid e)) (te_server_name env server_name)) (\<lambda>server_name.
     rbind (load_root_cert_store env (tls_ca section)) (\<lambda>roots.
       Inr \<lparr>ct_roots = roots, ct_server_name = server_name\<rparr>)))"

definition tls_error_detail :: "(io_error \<Rightarrow> string) \<Rightarrow> io_error \<Rightarrow> string" where
  "tls_error_detail display e =
     (if io_kind e = InvalidData then display e else describe_io_error e)"

definition map_tls_connect_error :: "(io_error \<Rightarrow> string) \<Rightarrow> io_error \<Rightarrow> error" where
  "map_tls_connect_error display e =
     (let detail = ''TLS connect failed: '' @ tls_error_detail display e in
      if io_kind e = InvalidData then Auth detail else Other detail)"

definition client_tls_connect :: "(io_error \<Rightarrow> string) \<Rightarrow> (io_error, 's) result \<Rightarrow> (error, 's) result" where
  "client_tls_connect display r = map_err (map_tls_connect_error display) r"

section \<open>Facts\<close>

lemma load_server_tls_ok:
  assumes "load_server_tls env cert key = Inr c"
  shows "tc_certs c \<noteq> [] \<and> tc_tickets c \<and>
    (\<exists>f. te_open env cert = Inr f \<and> te_certs env f = map Inr (tc_certs c)) \<and>
    (\<exists>f. te_open env key = Inr f \<and> te_private_key env f = Inr (Some (tc_key c)))"
  using assms
  by (auto simp: load_server_tls_def enable_session_resumption_def rbind_Inr_iff collect_Inr_iff)

lemma load_server_tls_total:
  assumes "te_open env cert = Inr f" "te_certs env f = map Inr cs" "cs \<noteq> []"
    "te_open env key = Inr g" "te_private_key env g = Inr (Some k)"
    "te_single_cert env cs k = Inr ()" "te_ticketer env = Inr ()"
  shows "load_server_tls env cert key = Inr \<lparr>tc_certs = cs, tc_key = k, tc_tickets = True\<rparr>"
proof -
  have "collect (te_certs env f) = Inr cs" using assms(2) by (simp add: collect_Inr_iff)
  with assms show ?thesis
    by (simp add: load_server_tls_def enable_session_resumption_def map_err_def)
qed

lemma add_roots_ok: "add_roots env path cs roots = Inr r \<Longrightarrow> \<exists>xs. cs = map Inr xs \<and> r = roots @ xs"
  by (induction cs arbitrary: roots) (fastforce simp: rbind_Inr_iff Cons_eq_map_conv)+

text \<open>With a CA file only the certificates of that file are trusted, never the built-in roots.\<close>

lemma client_trusts_only_its_ca:
  assumes "client_tls_new env s = Inr c"
  shows "case tls_ca s of
      None \<Rightarrow> ct_roots c = te_webpki_roots env
    | Some p \<Rightarrow> ct_roots c \<noteq> [] \<and>
        (\<exists>f. te_open env p = Inr f \<and> te_certs env f = map Inr (ct_roots c))"
  using assms
  by (auto simp: client_tls_new_def load_root_cert_store_def rbind_Inr_iff
      split: option.splits dest!: add_roots_ok)

lemma map_tls_connect_error_cases:
  "(\<exists>d. map_tls_connect_error display e = Auth d) \<longleftrightarrow> io_kind e = InvalidData"
  "(\<exists>d. map_tls_connect_error display e = Other d) \<longleftrightarrow> io_kind e \<noteq> InvalidData"
  by (auto simp: map_tls_connect_error_def Let_def)

end
