(* ===== verification/Server.thy ===== *)
theory Server
  imports Vhost Work Crypto Accept
begin

text \<open>
  The server process (\<open>rfrps/src/server.rs\<close>): binding its listeners and loading its certificates,
  the dispatch of an accepted connection by its first bytes, the accept loop with its retry
  policy, and the graceful shutdown. What the operating system answers to a bind and to a
  handshake, and what a connection delivers, are arguments.
\<close>

section \<open>Starting\<close>

record server =
  sr_config :: server_config
  sr_listener :: nat
  sr_state :: server_state
  sr_grace :: duration
  sr_heartbeat_interval :: duration
  sr_heartbeat_timeout :: duration
  sr_tls :: "server_tls_config option"
  sr_vhost_http :: "nat option"
  sr_vhost_https :: "(nat \<times> server_tls_config) option"
  sr_dashboard :: "nat option"

record bind_env =
  be_tcp :: "string \<Rightarrow> u16 \<Rightarrow> (io_error, nat) result"
  be_sock :: "socket_addr \<Rightarrow> (io_error, nat) result"

definition host_port :: "string \<Rightarrow> u16 \<Rightarrow> string" where
  \<comment> \<open>\<open>format!("{}:{}", ..)\<close>\<close>
  "host_port host port = host @ '':'' @ show_nat (unat port)"

definition bind_error :: "string \<Rightarrow> string \<Rightarrow> io_error \<Rightarrow> error" where
  "bind_error what addr e =
     Other (''failed to bind '' @ what @ '' '' @ addr @ '': '' @ describe_io_error e)"

definition bind_optional :: "bind_env \<Rightarrow> string \<Rightarrow> u16 option \<Rightarrow> (error, nat option) result" where
  "bind_optional env addr port =
     (case port of
        Some port \<Rightarrow>
          rbind (map_err (bind_error ''http vhost listener'' (host_port addr port))
                   (be_tcp env addr port)) (\<lambda>l. Inr (Some l))
      | None \<Rightarrow> Inr None)"

definition bind_dashboard :: "bind_env \<Rightarrow> server_config \<Rightarrow> (error, nat option) result" where
  "bind_dashboard env config =
     (case sc_dashboard config of
        None \<Rightarrow> Inr None
      | Some d \<Rightarrow>
          rbind (ok_or (parse_socket_addr (da_addr d)) (Config (DashboardAddrInvalid (da_addr d)))) (\<lambda>addr.
          rbind (map_err (bind_error ''dashboard listener'' (da_addr d)) (be_sock env addr)) (\<lambda>l.
            Inr (Some l))))"

definition bind_vhost_https ::
  "bind_env \<Rightarrow> tls_env \<Rightarrow> server_config \<Rightarrow> (error, (nat \<times> server_tls_config) option) result" where
  "bind_vhost_https env tls config =
     (case vhost_https_port (sc_proxy config) of
        None \<Rightarrow> Inr None
      | Some port \<Rightarrow>
          rbind (ok_or (vhost_tls_cert (sc_proxy config)) (Config VhostHttpsNeedsCert)) (\<lambda>cert.
          rbind (ok_or (vhost_tls_key (sc_proxy config)) (Config VhostHttpsNeedsCert)) (\<lambda>key.
          let host = bind_addr (sc_server config) in
          rbind (map_err (bind_error ''https vhost listener'' (host_port host port))
                   (be_tcp env host port)) (\<lambda>listener.
          rbind (server_tls_new tls cert key) (\<lambda>t. Inr (Some (listener, t)))))))"

definition load_control_tls ::
  "tls_env \<Rightarrow> server_config \<Rightarrow> (error, server_tls_config option) result" where
  "load_control_tls tls config =
     (let s = sc_server config in
      if \<not> (sv_tls_enable s \<or> sv_work_conn_tls s) then Inr None
      else
        rbind (ok_or (tls_cert s) (Config (ControlTlsNeeds ''tls_cert''))) (\<lambda>cert.
        rbind (ok_or (tls_key s) (Config (ControlTlsNeeds ''tls_key''))) (\<lambda>key.
        rbind (server_tls_new tls cert key) (\<lambda>t. Inr (Some t)))))"

definition server_new ::
  "bind_env \<Rightarrow> tls_env \<Rightarrow> server_config \<Rightarrow> instant \<Rightarrow> (error, server) result" where
  "server_new env tls config now =
     (let s = sc_server config in
      rbind (map_err (bind_error ''control listener'' (host_port (bind_addr s) (bind_port s)))
               (be_tcp env (bind_addr s) (bind_port s))) (\<lambda>listener.
      rbind (bind_optional env (bind_addr s) (vhost_http_port (sc_proxy config))) (\<lambda>vhost_http.
      rbind (bind_dashboard env config) (\<lambda>dashboard.
      rbind (bind_vhost_https env tls config) (\<lambda>vhost_https.
      rbind (load_control_tls tls config) (\<lambda>t.
        Inr \<lparr>sr_config = config, sr_listener = listener, sr_state = server_state_new now,
             sr_grace = grace s, sr_heartbeat_interval = sv_heartbeat_interval s,
             sr_heartbeat_timeout = sv_heartbeat_timeout s, sr_tls = t,
             sr_vhost_http = vhost_http, sr_vhost_https = vhost_https,
             sr_dashboard = dashboard\<rparr>))))))"

definition with_max_active :: "int \<Rightarrow> server \<Rightarrow> server" where
  "with_max_active mx srv = srv\<lparr>sr_state := (sr_state srv)\<lparr>st_max_active := mx\<rparr>\<rparr>"

definition with_grace :: "duration \<Rightarrow> server \<Rightarrow> server" where
  "with_grace g srv = srv\<lparr>sr_grace := g\<rparr>"

section \<open>An accepted connection\<close>

datatype peek = PeekTimeout | PeekFailed io_error | Peeked "u8 option"
datatype handshake = HandshakeTimeout | HandshakeDone "(io_error, unit) result"
datatype first_read = FirstTimeout | FirstBytes bytes

record conn_in =
  cn_peer :: "ip_addr option"
  cn_peek :: peek
  cn_handshake :: handshake
  cn_first :: first_read
  cn_handle :: nat
  cn_now :: instant

record conn_tasks =
  cx_login :: login_env
  cx_ctl_events :: "ctl_event list"
  cx_udp_events :: "(instant \<times> conn_event) list"

datatype served =
    Dropped
  | ControlServed "message option"
  | WorkServed work_result

definition first_frame :: "first_read \<Rightarrow> (error, frame \<times> bytes) result" where
  "first_frame r =
     (case r of
        FirstTimeout \<Rightarrow> Inl (Other ''first frame timeout'')
      | FirstBytes b \<Rightarrow> read_one_frame b)"

definition serve_first_frame ::
  "json \<Rightarrow> (string \<Rightarrow> string) \<Rightarrow> server_config \<Rightarrow> conn_in \<Rightarrow> conn_tasks \<Rightarrow> bool \<Rightarrow> frame
     \<Rightarrow> server_state \<Rightarrow> (error, served) result \<times> server_state" where
  \<comment> \<open>the \<open>match frame.msg_type\<close>\<close>
  "serve_first_frame j lower config c x is_tls f st =
     (let s = sc_server config;
          peer_ip = unwrap_or (cn_peer c) (V4 [0, 0, 0, 0]) in
      if f_msg_type f = MSG_LOGIN
      then if sv_tls_enable s \<and> \<not> is_tls then (Inr Dropped, st)
           else if \<not> sv_tls_enable s \<and> is_tls then (Inr Dropped, st)
           else let (r, st) = handle_control_login j lower config (cx_login x) f peer_ip (cn_now c)
                                (cx_ctl_events x) st
                in (rbind r (\<lambda>m. Inr (ControlServed m)), st)
      else if f_msg_type f = MSG_START_WORK_CONN
      then if sv_work_conn_tls s \<and> \<not> is_tls then (Inr Dropped, st)
           else let (r, st) = handle_work_connection j f (cn_handle c) (cn_now c) (cx_udp_events x) st
                in (rbind r (\<lambda>w. Inr (WorkServed w)), st)
      else (Inr Dropped, st))"

definition handle_connection ::
  "json \<Rightarrow> (string \<Rightarrow> string) \<Rightarrow> server_config \<Rightarrow> bool \<Rightarrow> conn_in \<Rightarrow> conn_tasks
     \<Rightarrow> server_state \<Rightarrow> (error, served) result \<times> server_state" where
  \<comment> \<open>the flag tells whether the server has a TLS acceptor\<close>
  "handle_connection j lower config tls c x st =
     (case cn_peek c of
        PeekTimeout \<Rightarrow> (Inr Dropped, st)
      | PeekFailed e \<Rightarrow> (Inl (Io e), st)
      | Peeked None \<Rightarrow> (Inr Dropped, st)
      | Peeked (Some b) \<Rightarrow>
          let looks_like_tls = (b = 0x16);
              serve = (\<lambda>is_tls.
                case first_frame (cn_first c) of
                  Inl e \<Rightarrow> (Inl e, st)
                | Inr (f, _) \<Rightarrow> serve_first_frame j lower config c x is_tls f st)
          in if tls \<and> looks_like_tls
             then (case cn_handshake c of
                     HandshakeTimeout \<Rightarrow> (Inr Dropped, st)
                   | HandshakeDone r \<Rightarrow>
                       (case server_tls_accept r of
                          Inl e \<Rightarrow> (Inl e, st)
                        | Inr _ \<Rightarrow> serve True))
             else serve False)"

section \<open>The accept loop\<close>

datatype server_event =
    Accepted conn_in
  | AcceptError io_error
  | TaskJoined
  | ShutdownSignal
  | Meanwhile "server_state \<Rightarrow> server_state"  \<comment> \<open>what the spawned tasks do\<close>

record running =
  rn_retry :: accept_retry
  rn_state :: server_state
  rn_tasks :: nat
  rn_slept :: duration

datatype exit = Fatal error | Draining

definition server_turn :: "server_event \<Rightarrow> running \<Rightarrow> exit option \<times> running" where
  \<comment> \<open>one turn of the \<open>select!\<close> of \<open>Server::run\<close>\<close>
  "server_turn ev s =
     (case ev of
        Accepted c \<Rightarrow>
          (None, s\<lparr>rn_retry := record_ok (rn_retry s), rn_state := on_metrics inc_accepted (rn_state s),
                   rn_tasks := rn_tasks s + 1\<rparr>)
      | AcceptError e \<Rightarrow>
          let (retry, backoff) = record_err (rn_retry s);
              s = s\<lparr>rn_retry := retry, rn_state := on_metrics inc_accept_error (rn_state s)\<rparr>
          in if is_fatal retry then (Some (Fatal (Other ''accept loop failed repeatedly'')), s)
             else (None, s\<lparr>rn_slept := rn_slept s + backoff\<rparr>)
      | TaskJoined \<Rightarrow> (None, s\<lparr>rn_tasks := rn_tasks s - 1\<rparr>)
      | ShutdownSignal \<Rightarrow> (Some Draining, s)
      | Meanwhile g \<Rightarrow> (None, s\<lparr>rn_state := g (rn_state s)\<rparr>))"

fun accept_loop :: "server_event list \<Rightarrow> running \<Rightarrow> exit option \<times> running" where
  "accept_loop [] s = (None, s)"
| "accept_loop (ev # evs) s =
     (case server_turn ev s of
        (None, s) \<Rightarrow> accept_loop evs s
      | (Some x, s) \<Rightarrow> (Some x, s))"

fun drain_tasks :: "duration \<Rightarrow> nat \<Rightarrow> duration list \<Rightarrow> duration \<times> nat" where
  \<comment> \<open>the grace period: the time left, the tasks running, and the waits for the next one to end.
      The result is the time it took and the tasks left, which are cancelled\<close>
  "drain_tasks remaining tasks waits =
     (if tasks = 0 then (0, 0)
      else if remaining = 0 then (0, tasks)
      else case waits of
             [] \<Rightarrow> (remaining, tasks)
           | w # waits \<Rightarrow>
               if remaining < w then (remaining, tasks)
               else let (t, left) = drain_tasks (remaining - w) (tasks - 1) waits in (w + t, left))"

declare drain_tasks.simps [simp del]

definition server_run ::
  "server_event list \<Rightarrow> duration list \<Rightarrow> server \<Rightarrow> nat \<Rightarrow> (error, duration \<times> nat) result option" where
  \<comment> \<open>\<open>Server::run\<close> with its background tasks already running; \<open>None\<close> while it still accepts\<close>
  "server_run evs waits srv background =
     (let (x, s) = accept_loop evs
           \<lparr>rn_retry = accept_retry_new, rn_state = sr_state srv, rn_tasks = background, rn_slept = 0\<rparr>
      in case x of
           None \<Rightarrow> None
         | Some (Fatal e) \<Rightarrow> Some (Inl e)
         | Some Draining \<Rightarrow> Some (Inr (drain_tasks (sr_grace srv) (rn_tasks s) waits)))"

definition sweep_task :: "instant \<Rightarrow> nat \<Rightarrow> server_state \<Rightarrow> server_state" where
  \<comment> \<open>the sweeper after \<open>n\<close> ticks, one each second from its start\<close>
  "sweep_task start n st =
     fold (\<lambda>k st. snd (sweep_expired_pending (start + from_secs k) (from_secs WORK_CONN_TIMEOUT_RFRPS) st))
       [1..<Suc n] st"

section \<open>Facts\<close>

lemma sweep_task_Suc:
  "sweep_task start (Suc n) st =
     snd (sweep_expired_pending (start + from_secs (Suc n)) (from_secs WORK_CONN_TIMEOUT_RFRPS)
       (sweep_task start n st))"
  by (simp add: sweep_task_def)

lemma sweep_task_wf: "hm_wf (st_pending st) \<Longrightarrow> hm_wf (st_pending (sweep_task start n st))"
  by (induction n) (simp_all add: sweep_task_Suc sweep_wf sweep_task_def [of start 0])

lemma sweep_task_get:
  assumes "hm_wf (st_pending st)" "hm_get (st_pending st) wk = Some p" "start \<le> pw_created p"
  shows "hm_get (st_pending (sweep_task start n st)) wk =
    (if pw_created p + from_secs 10 \<le> start + from_secs n then None else Some p)"
proof (induction n)
  case 0
  from assms show ?case by (simp add: sweep_task_def from_secs_def)
next
  case (Suc n)
  have m: "from_secs (Suc n) = from_secs n + from_secs 1" "0 < from_secs 10"
    by (simp_all add: from_secs_def)
  show ?case
    unfolding sweep_task_Suc sweep_get [OF sweep_task_wf [OF assms(1)]] Suc.IH
    using m(2) by (auto simp: WORK_CONN_TIMEOUT_RFRPS_def m(1) not_le)
qed

lemma drain_tasks_bounded: "fst (drain_tasks g n ws) \<le> g \<and> snd (drain_tasks g n ws) \<le> n"
proof (induction ws arbitrary: g n)
  case Nil
  show ?case by (simp add: drain_tasks.simps [of g n])
next
  case (Cons w ws)
  from Cons.IH [of "g - w" "n - 1"] show ?case
    by (auto simp: drain_tasks.simps [of g n] case_prod_beta)
qed

lemma drain_tasks_all:
  "n \<le> length ws \<Longrightarrow> sum_list (take n ws) < g \<Longrightarrow>
     drain_tasks g n ws = (sum_list (take n ws), 0)"
proof (induction ws arbitrary: g n)
  case Nil
  then show ?case by (simp add: drain_tasks.simps [of g 0])
next
  case (Cons w ws)
  show ?case
  proof (cases n)
    case 0
    then show ?thesis by (simp add: drain_tasks.simps [of g 0])
  next
    case (Suc k)
    with Cons.prems have "k \<le> length ws" "sum_list (take k ws) < g - w" "\<not> g < w" "g \<noteq> 0" by auto
    with Cons.IH [of k "g - w"] Suc show ?thesis by (simp add: drain_tasks.simps [of g "Suc k"])
  qed
qed

section \<open>Who gets a session\<close>

lemma run_udp_conn_sessions: "st_sessions (run_udp_conn u wk now evs st) = st_sessions st"
  by (simp add: run_udp_conn_def case_prod_beta Let_def)

lemma serve_work_sessions: "st_sessions (snd (serve_work a s work now evs st)) = st_sessions st"
  by (auto simp: serve_work_def run_udp_conn_sessions pool_push_def claim_pending_def upd_session_def
      Let_def case_prod_beta split: option.split)

lemma work_keeps_sessions:
  "st_sessions (snd (handle_work_connection j f work now evs st)) = st_sessions st"
  using serve_work_sessions
  by (auto simp: handle_work_connection_def Let_def case_prod_beta
      split: sum.split message.split option.split)

lemma login_check_sessions: "st_sessions (snd (login_check j u config f ip now st)) = st_sessions st"
  using login_check_eq [of j u config f ip now st] by auto

lemma login_needs_token:
  assumes "st_sessions (snd (handle_control_login j lower config env f ip now evs st)) \<noteq> st_sessions st"
  shows "\<exists>l. from_frame j f = Inr (Login l) \<and> lg_token l = sv_token (sc_server config) \<and>
    lg_version l = PROTOCOL_VERSION"
proof -
  obtain r st1 where c: "login_check j (le_uuid_ok env) config f ip now st = (r, st1)" by fastforce
  with login_check_sessions [of j "le_uuid_ok env" config f ip now st] have "st_sessions st1 = st_sessions st"
    by simp
  with assms c obtain x where "r = Proceed x"
    by (cases r) (auto simp: handle_control_login_def)
  with login_proceeds [of j "le_uuid_ok env" config f ip now st x] c show ?thesis by auto
qed

definition secured :: "bool \<Rightarrow> conn_in \<Rightarrow> bool" where
  \<comment> \<open>the connection came over TLS\<close>
  "secured tls c \<longleftrightarrow> tls \<and> cn_peek c = Peeked (Some 0x16) \<and> cn_handshake c = HandshakeDone (Inr ())"

lemma handle_connection_cases:
  assumes "handle_connection j lower config tls c x st = (r, st')"
  shows "st' = st \<or>
    (\<exists>f rest. first_frame (cn_first c) = Inr (f, rest) \<and>
       serve_first_frame j lower config c x (secured tls c) f st = (r, st'))"
proof (cases "cn_peek c")
  case (Peeked v)
  with assms show ?thesis
    by (cases v)
      (auto simp: handle_connection_def secured_def server_tls_accept_def map_err_def Let_def
        split: handshake.splits sum.splits prod.splits if_splits)
qed (use assms in \<open>auto simp: handle_connection_def\<close>)

lemma serve_first_frame_cases:
  assumes "serve_first_frame j lower config c x is_tls f st = (r, st')" and "st' \<noteq> st"
  shows "(f_msg_type f = MSG_LOGIN \<and> (is_tls \<longleftrightarrow> sv_tls_enable (sc_server config)) \<and>
      st' = snd (handle_control_login j lower config (cx_login x) f
                   (unwrap_or (cn_peer c) (V4 [0, 0, 0, 0])) (cn_now c) (cx_ctl_events x) st)) \<or>
    (f_msg_type f = MSG_START_WORK_CONN \<and> (sv_work_conn_tls (sc_server config) \<longrightarrow> is_tls) \<and>
      st' = snd (handle_work_connection j f (cn_handle c) (cn_now c) (cx_udp_events x) st))"
  using assms by (auto simp: serve_first_frame_def Let_def case_prod_beta split: if_splits)

lemma first_byte_tls: "first_frame (FirstBytes (0x16 # b)) \<noteq> Inr fr"
proof -
  have "read_one_frame (0x16 # b) \<noteq> Inr fr"
    by (auto simp: read_one_frame_def rbind_Inr_iff read_exact_def FRAME_HEADER_LEN_def
        PROTOCOL_VERSION_def Let_def split: if_splits)
  then show ?thesis by (simp add: first_frame_def)
qed

lemma with_tls_new:
  assumes "\<forall>cert key. files_given fs (Some cert) (Some key) \<longrightarrow> (\<exists>t. server_tls_new tls cert key = Inr t)"
    and "files_given fs a b"
  shows "\<exists>cert key t. a = Some cert \<and> b = Some key \<and> server_tls_new tls cert key = Inr t"
  using assms by (cases a; cases b) (auto simp: files_given_def)

lemma load_control_tls_ok:
  assumes "server_config_ok fs config"
    and "\<forall>cert key. files_given fs (Some cert) (Some key) \<longrightarrow> (\<exists>t. server_tls_new tls cert key = Inr t)"
  shows "\<exists>t. load_control_tls tls config = Inr t \<and>
    (t \<noteq> None \<longleftrightarrow> sv_tls_enable (sc_server config) \<or> sv_work_conn_tls (sc_server config))"
proof (cases "sv_tls_enable (sc_server config) \<or> sv_work_conn_tls (sc_server config)")
  case True
  with assms(1) have "files_given fs (tls_cert (sc_server config)) (tls_key (sc_server config))"
    by (auto simp: server_config_ok_def Let_def)
  from with_tls_new [OF assms(2) this] True show ?thesis by (auto simp: load_control_tls_def Let_def)
qed (simp add: load_control_tls_def Let_def)

lemma bind_vhost_https_ok:
  assumes "server_config_ok fs config" and "\<forall>host port. \<exists>l. be_tcp env host port = Inr l"
    and "\<forall>cert key. files_given fs (Some cert) (Some key) \<longrightarrow> (\<exists>t. server_tls_new tls cert key = Inr t)"
  shows "\<exists>v. bind_vhost_https env tls config = Inr v \<and>
    (v \<noteq> None \<longleftrightarrow> vhost_https_port (sc_proxy config) \<noteq> None)"
proof (cases "vhost_https_port (sc_proxy config)")
  case (Some port)
  with assms(1) have "files_given fs (vhost_tls_cert (sc_proxy config)) (vhost_tls_key (sc_proxy config))"
    by (auto simp: server_config_ok_def Let_def)
  moreover obtain l where "be_tcp env (bind_addr (sc_server config)) port = Inr l" using assms(2) by blast
  ultimately show ?thesis
    using with_tls_new [OF assms(3)] Some by (fastforce simp: bind_vhost_https_def map_err_def Let_def)
qed (simp add: bind_vhost_https_def)

lemma bind_dashboard_ok:
  assumes "server_config_ok fs config" and "\<forall>a. \<exists>l. be_sock env a = Inr l"
  shows "\<exists>v. bind_dashboard env config = Inr v \<and> (v \<noteq> None \<longleftrightarrow> sc_dashboard config \<noteq> None)"
proof (cases "sc_dashboard config")
  case (Some d)
  with assms(1) obtain a where "parse_socket_addr (da_addr d) = Some a"
    by (auto simp: server_config_ok_def dashboard_ok_def Let_def split: option.splits)
  moreover obtain l where "be_sock env a = Inr l" using assms(2) by blast
  ultimately show ?thesis using Some by (simp add: bind_dashboard_def map_err_def)
qed (simp add: bind_dashboard_def)

lemma bind_optional_ok:
  assumes "\<forall>host port. \<exists>l. be_tcp env host port = Inr l"
  shows "\<exists>v. bind_optional env addr port = Inr v \<and> (v \<noteq> None \<longleftrightarrow> port \<noteq> None)"
proof (cases port)
  case (Some p)
  obtain l where "be_tcp env addr p = Inr l" using assms by blast
  with Some show ?thesis by (simp add: bind_optional_def map_err_def)
qed (simp add: bind_optional_def)

text \<open>The accept results of a script of events.\<close>

fun outcomes :: "server_event list \<Rightarrow> bool list" where
  "outcomes [] = []"
| "outcomes (Accepted _ # evs) = True # outcomes evs"
| "outcomes (AcceptError _ # evs) = False # outcomes evs"
| "outcomes (_ # evs) = outcomes evs"

lemma feed_simps: "feed r True = record_ok r" "feed r False = fst (record_err r)"
  by (simp_all add: feed_def)

lemma is_fatal_iff: "is_fatal (foldl feed accept_retry_new bs) \<longleftrightarrow> 60 \<le> failures bs"
  using consecutive_feed [of bs]
  by (auto simp: is_fatal_def MAX_CONSECUTIVE_ACCEPT_ERRORS_def word_le_nat_alt)

lemma take_snoc_failures:
  assumes "\<forall>k. failures (take k bs) < 60" and "failures (bs @ [b]) < 60"
  shows "failures (take k (bs @ [b])) < 60"
  using assms by (cases "k \<le> length bs") auto

lemma accept_loop_fatal:
  assumes "ShutdownSignal \<notin> set evs" and "rn_retry s = foldl feed accept_retry_new bs"
    and "\<forall>k. failures (take k bs) < 60"
  shows "fst (accept_loop evs s) =
    (if \<exists>k. 60 \<le> failures (take k (bs @ outcomes evs))
     then Some (Fatal (Other ''accept loop failed repeatedly'')) else None)"
  using assms
proof (induction evs arbitrary: s bs)
  case Nil
  then show ?case by (auto simp: not_le)
next
  case (Cons ev evs)
  show ?case
  proof (cases ev)
    case (Accepted c)
    let ?s = "snd (server_turn ev s)"
    have "rn_retry ?s = foldl feed accept_retry_new (bs @ [True])"
      using Accepted Cons.prems(2) by (simp add: server_turn_def feed_simps)
    moreover have "\<forall>k. failures (take k (bs @ [True])) < 60"
      using take_snoc_failures [OF Cons.prems(3)] by (simp add: failures_snoc)
    moreover have "ShutdownSignal \<notin> set evs" using Cons.prems(1) by simp
    ultimately have "fst (accept_loop evs ?s) =
      (if \<exists>k. 60 \<le> failures (take k ((bs @ [True]) @ outcomes evs))
       then Some (Fatal (Other ''accept loop failed repeatedly'')) else None)"
      by (intro Cons.IH)
    with Accepted show ?thesis by (simp add: server_turn_def)
  next
    case (AcceptError e)
    let ?s = "snd (server_turn ev s)"
    have r: "rn_retry ?s = foldl feed accept_retry_new (bs @ [False])"
      using AcceptError Cons.prems(2) by (simp add: server_turn_def feed_simps Let_def case_prod_beta)
    show ?thesis
    proof (cases "60 \<le> failures (bs @ [False])")
      case True
      then have "60 \<le> failures (take (Suc (length bs)) (bs @ outcomes (ev # evs)))"
        using AcceptError by simp
      then have "\<exists>k. 60 \<le> failures (take k (bs @ outcomes (ev # evs)))" by blast
      moreover have "is_fatal (fst (record_err (rn_retry s)))"
        using True is_fatal_iff [of "bs @ [False]"] Cons.prems(2) by (simp add: feed_simps)
      ultimately show ?thesis
        using AcceptError by (simp add: server_turn_def Let_def case_prod_beta)
    next
      case False
      then have "\<forall>k. failures (take k (bs @ [False])) < 60"
        using take_snoc_failures [OF Cons.prems(3)] by simp
      moreover have "ShutdownSignal \<notin> set evs" using Cons.prems(1) by simp
      ultimately have "fst (accept_loop evs ?s) =
        (if \<exists>k. 60 \<le> failures (take k ((bs @ [False]) @ outcomes evs))
         then Some (Fatal (Other ''accept loop failed repeatedly'')) else None)"
        using r by (intro Cons.IH)
      moreover have "\<not> is_fatal (fst (record_err (rn_retry s)))"
        using False is_fatal_iff [of "bs @ [False]"] Cons.prems(2) by (simp add: feed_simps)
      ultimately show ?thesis
        using AcceptError by (simp add: server_turn_def Let_def case_prod_beta)
    qed
  qed (use Cons in \<open>simp_all add: server_turn_def\<close>)
qed

section \<open>Properties\<close>

text \<open>
  C33 --- The transport policy holds for every connection: whatever it sends, the server's state
  changes only if its first frame is a Login over exactly the transport \<open>tls_enable\<close> asks for, or a
  StartWorkConn that is encrypted when \<open>work_conn_tls\<close> asks for it; and no session appears, is
  replaced or disappears through it unless that Login carried the server's token and this
  protocol version.
\<close>

theorem connection_policy:
  assumes "handle_connection j lower config tls c x st = (r, st')" and "st' \<noteq> st"
  shows "\<exists>f rest. first_frame (cn_first c) = Inr (f, rest) \<and>
    ((f_msg_type f = MSG_LOGIN \<and> (secured tls c \<longleftrightarrow> sv_tls_enable (sc_server config))) \<or>
     (f_msg_type f = MSG_START_WORK_CONN \<and>
        (sv_work_conn_tls (sc_server config) \<longrightarrow> secured tls c))) \<and>
    (st_sessions st' \<noteq> st_sessions st \<longrightarrow>
       (\<exists>l. from_frame j f = Inr (Login l) \<and> lg_token l = sv_token (sc_server config) \<and>
          lg_version l = PROTOCOL_VERSION))"
proof -
  from handle_connection_cases [OF assms(1)] assms(2) obtain f rest where
    f: "first_frame (cn_first c) = Inr (f, rest)"
    and s: "serve_first_frame j lower config c x (secured tls c) f st = (r, st')" by blast
  from serve_first_frame_cases [OF s assms(2)] show ?thesis
    using f work_keeps_sessions login_needs_token by (intro exI [of _ f] exI [of _ rest]) metis
qed

definition demo_conn :: conn_in where
  \<comment> \<open>a plaintext work connection\<close>
  "demo_conn = \<lparr>cn_peer = None, cn_peek = Peeked (Some 2), cn_handshake = HandshakeTimeout,
     cn_first = FirstBytes [2, MSG_START_WORK_CONN, 0, 0, 0, 0], cn_handle = 7, cn_now = 1\<rparr>"

definition demo_open_config :: server_config where
  \<comment> \<open>plaintext work connections are allowed\<close>
  "demo_open_config =
     \<lparr>sc_server = server_section_default\<lparr>sv_token := ''t'', sv_work_conn_tls := False\<rparr>,
      sc_dashboard = None, sc_proxy = proxy_section_default, sc_log = log_default\<rparr>"

definition demo_tasks :: conn_tasks where
  "demo_tasks =
     \<lparr>cx_login = \<lparr>le_uuid_ok = (\<lambda>_. True), le_session_id = ''s'', le_token = ''t'', le_taken = 0, le_end = 0\<rparr>,
      cx_ctl_events = [], cx_udp_events = []\<rparr>"

lemma demo_first: "first_frame (cn_first demo_conn) = Inr (demo_start_frame, [])"
  by (simp add: first_frame_def demo_conn_def read_one_frame_def read_exact_def FRAME_HEADER_LEN_def
      PROTOCOL_VERSION_def FRAME_MAX_PAYLOAD_def from_be_bytes_def demo_start_frame_def)

lemma demo_conn_runs:
  "handle_connection start_json to_ascii_lowercase demo_open_config False demo_conn demo_tasks demo_work_state =
     (Inr (WorkServed Pooled), snd (pool_push 0 ''ssh'' 7 demo_work_state))"
proof -
  have p: "cn_peek demo_conn = Peeked (Some 2)" "cn_handle demo_conn = 7" "cn_now demo_conn = 1"
    "cx_udp_events demo_tasks = []" "f_msg_type demo_start_frame = MSG_START_WORK_CONN"
    "MSG_START_WORK_CONN \<noteq> MSG_LOGIN" "\<not> sv_work_conn_tls (sc_server demo_open_config)"
    by (simp_all add: demo_conn_def demo_tasks_def demo_start_frame_def frame_new_def msg_type_defs
        demo_open_config_def)
  then show ?thesis
    using demo_work_runs unfolding One_nat_def
    by (simp add: handle_connection_def demo_first serve_first_frame_def Let_def)
qed

theorem connection_policy_witness:
  "snd (handle_connection start_json to_ascii_lowercase demo_open_config False demo_conn demo_tasks
      demo_work_state) \<noteq> demo_work_state \<and>
   (\<exists>f rest. first_frame (cn_first demo_conn) = Inr (f, rest) \<and> f_msg_type f = MSG_START_WORK_CONN)"
proof -
  have "\<not> sv_tls_enable (sc_server demo_open_config)" "\<not> secured False demo_conn"
    by (simp_all add: demo_open_config_def server_section_default_def secured_def)
  with connection_policy [OF demo_conn_runs demo_work_changes] demo_conn_runs demo_work_changes demo_first
  show ?thesis by (auto simp: demo_start_frame_def frame_new_def)
qed


definition demo_fs :: fs where
  \<comment> \<open>two files\<close>
  "demo_fs =
     \<lparr>fs_read = (\<lambda>_. Inr ''''), fs_is_file = (\<lambda>p. p = ''c.pem'' \<or> p = ''k.pem''), fs_parent = (\<lambda>_. None),
      fs_is_relative = (\<lambda>_. False), fs_join = (\<lambda>_ p. p), fs_canonicalize = Some\<rparr>"

definition demo_bind :: bind_env where
  "demo_bind = \<lparr>be_tcp = (\<lambda>_ port. Inr (unat port)), be_sock = (\<lambda>a. Inr (unat (sa_port a)))\<rparr>"

definition demo_tls :: tls_env where
  "demo_tls =
     \<lparr>te_open = Inr, te_certs = (\<lambda>t. [Inr t]), te_private_key = (\<lambda>t. Inr (Some t)),
      te_single_cert = (\<lambda>_ _. Inr ()), te_ticketer = Inr (), te_add_root = (\<lambda>_. Inr ()),
      te_webpki_roots = [], te_server_name = Inr, te_display = describe_io_error\<rparr>"

definition demo_tls_config :: server_config where
  "demo_tls_config =
     demo_open_config\<lparr>sc_server := (sc_server demo_open_config)
       \<lparr>sv_tls_enable := True, tls_cert := Some ''c.pem'', tls_key := Some ''k.pem''\<rparr>\<rparr>"


text \<open>
  C35 --- The server gives up only on a dead listener: as long as no shutdown is requested, \<open>run\<close>
  ends with an error exactly when some stretch of accept results holds 60 errors in a row, and
  otherwise goes on accepting, whatever its connections do meanwhile.
\<close>

theorem server_dies_only_of_accept:
  assumes "ShutdownSignal \<notin> set evs"
  shows "server_run evs waits srv background =
    (if \<exists>k. 60 \<le> failures (take k (outcomes evs))
     then Some (Inl (Other ''accept loop failed repeatedly'')) else None)"
proof -
  let ?s = "\<lparr>rn_retry = accept_retry_new, rn_state = sr_state srv, rn_tasks = background, rn_slept = 0\<rparr>"
  have "fst (accept_loop evs ?s) = (if \<exists>k. 60 \<le> failures (take k ([] @ outcomes evs))
     then Some (Fatal (Other ''accept loop failed repeatedly'')) else None)"
    by (rule accept_loop_fatal [OF assms]) (simp_all add: failures_def)
  then show ?thesis by (auto simp: server_run_def case_prod_beta Let_def)
qed

theorem server_dies_only_of_accept_witness:
  "\<forall>srv. server_run (replicate 59 (AcceptError (io_err ConnectionReset)) @ [Accepted demo_conn]) [] srv 2 = None \<and>
   server_run (replicate 60 (AcceptError (io_err ConnectionReset))) [] srv 2 \<noteq> None"
proof
  fix srv
  let ?a = "replicate 59 (AcceptError (io_err ConnectionReset)) @ [Accepted demo_conn]"
  let ?b = "replicate 60 (AcceptError (io_err ConnectionReset))"
  have o: "outcomes (replicate n (AcceptError e) @ evs) = replicate n False @ outcomes evs" for n e evs
    by (induction n) auto
  have f: "failures (take k (replicate 59 False @ [True])) < 60" for k
    by (cases "k \<le> 59") (simp_all add: failures_def takeWhile_replicate min_def)
  have "60 \<le> failures (take 60 (replicate 60 False))" by (simp add: failures_def takeWhile_replicate)
  then have "60 \<le> failures (take 60 (outcomes ?b))"
    using o [of 60 "io_err ConnectionReset" "[]"] by (simp only: append_Nil2 outcomes.simps)
  then have "\<exists>k. 60 \<le> failures (take k (outcomes ?b))" by blast
  moreover have "\<not> (\<exists>k. 60 \<le> failures (take k (outcomes ?a)))"
    using f by (simp only: o outcomes.simps not_le) (simp add: not_le)
  moreover have "ShutdownSignal \<notin> set ?a" "ShutdownSignal \<notin> set ?b" by simp_all
  ultimately show "server_run ?a [] srv 2 = None \<and> server_run ?b [] srv 2 \<noteq> None"
    using server_dies_only_of_accept [of ?a "[]" srv 2] server_dies_only_of_accept [of ?b "[]" srv 2]
    by (simp only: if_True if_False option.distinct simp_thms)
qed





end
