(* ===== verification/Exposition.thy ===== *)
theory Exposition
  imports Strings
begin

text \<open>
  The Prometheus text format both programs answer \<open>/metrics\<close> with: the lines of one metric, and
  the escaping of a label value (\<open>escape_label\<close> of \<open>rfrps/src/metrics.rs\<close>).
\<close>

definition NL :: char where "NL = CHR 0x0A"
definition QUOTE :: char where "QUOTE = CHR 0x22"
definition BACKSLASH :: char where "BACKSLASH = CHR 0x5C"

lemmas special_chars = NL_def QUOTE_def BACKSLASH_def

definition help_line :: "string \<Rightarrow> string \<Rightarrow> string" where
  "help_line name what = ''# HELP '' @ name @ '' '' @ what @ [NL]"

definition type_line :: "string \<Rightarrow> string \<Rightarrow> string" where
  "type_line name kind = ''# TYPE '' @ name @ '' '' @ kind @ [NL]"

definition value_line :: "string \<Rightarrow> string \<Rightarrow> string" where
  "value_line name v = name @ '' '' @ v @ [NL]"

definition metric :: "string \<Rightarrow> string \<Rightarrow> string \<Rightarrow> string \<Rightarrow> string" where
  "metric name kind what v = help_line name what @ type_line name kind @ value_line name v"

definition show_bool :: "bool \<Rightarrow> string" where
  \<comment> \<open>\<open>u8::from\<close>\<close>
  "show_bool b = (if b then ''1'' else ''0'')"

section \<open>Label values\<close>

definition replace_char :: "char \<Rightarrow> string \<Rightarrow> string \<Rightarrow> string" where
  "replace_char c by s = concat (map (\<lambda>x. if x = c then by else [x]) s)"

definition escape_label :: "string \<Rightarrow> string" where
  "escape_label v =
     (if BACKSLASH \<in> set v \<or> QUOTE \<in> set v \<or> NL \<in> set v
      then replace_char NL [BACKSLASH, CHR ''n'']
             (replace_char QUOTE [BACKSLASH, QUOTE]
               (replace_char BACKSLASH [BACKSLASH, BACKSLASH] v))
      else v)"

fun read_label :: "string \<Rightarrow> (string \<times> string) option" where
  \<comment> \<open>a reader of the exposition format: the value up to the closing quote, and the rest\<close>
  "read_label [] = None"
| "read_label (c # s) =
     (if c = QUOTE then Some ([], s)
      else if c = NL then None
      else if c = BACKSLASH
      then (case s of
              [] \<Rightarrow> None
            | d # s' \<Rightarrow>
                map_option (\<lambda>(v, r). ((if d = CHR ''n'' then NL else d) # v, r)) (read_label s'))
      else map_option (\<lambda>(v, r). (c # v, r)) (read_label s))"

definition label_char :: "char \<Rightarrow> string" where
  "label_char c =
     (if c = BACKSLASH then [BACKSLASH, BACKSLASH]
      else if c = QUOTE then [BACKSLASH, QUOTE]
      else if c = NL then [BACKSLASH, CHR ''n''] else [c])"

lemma escape_label_chars: "escape_label v = concat (map label_char v)"
proof -
  have "replace_char NL [BACKSLASH, CHR ''n''] (replace_char QUOTE [BACKSLASH, QUOTE]
      (replace_char BACKSLASH [BACKSLASH, BACKSLASH] v)) = concat (map label_char v)"
    by (induction v) (auto simp: replace_char_def label_char_def special_chars)
  moreover have "concat (map label_char v) = v"
    if "BACKSLASH \<notin> set v" "QUOTE \<notin> set v" "NL \<notin> set v"
    using that by (induction v) (auto simp: label_char_def)
  ultimately show ?thesis by (auto simp: escape_label_def)
qed

lemma read_label_char: "read_label (label_char c @ s) = map_option (\<lambda>(v, r). (c # v, r)) (read_label s)"
  by (auto simp: label_char_def special_chars)

lemma read_escaped: "read_label (escape_label v @ QUOTE # rest) = Some (v, rest)"
  unfolding escape_label_chars by (induction v) (simp_all add: read_label_char)

definition labelled_line :: "string \<Rightarrow> string \<Rightarrow> string \<Rightarrow> string" where
  "labelled_line name proxy v =
     name @ ''{proxy='' @ [QUOTE] @ escape_label proxy @ [QUOTE] @ ''} '' @ v @ [NL]"

end
