(* ===== verification/MetricsRender.thy ===== *)
theory MetricsRender
  imports Exposition ServerState "HOL-Library.List_Lexorder" "HOL-Library.Char_ord"
begin

text \<open>
  The server's \<open>/metrics\<close> text (\<open>render\<close> and \<open>render_prometheus\<close> of \<open>rfrps/src/metrics.rs\<close>): the
  process counters, the gauges of the state, and one line per proxy and counter, sorted by name.
\<close>

definition render :: "metrics \<Rightarrow> string" where
  "render m =
     metric ''rfrp_connections_total'' ''counter'' ''Total accepted user connections.''
       (show_nat (unat (mt_total_connections m))) @
     type_line ''rfrp_active_connections'' ''gauge'' @
     value_line ''rfrp_active_connections'' (show_int (active_connections m)) @
     type_line ''rfrp_bytes_up_total'' ''counter'' @
     value_line ''rfrp_bytes_up_total'' (show_nat (unat (ct_read (sh_main (mt_shared m))))) @
     type_line ''rfrp_bytes_down_total'' ''counter'' @
     value_line ''rfrp_bytes_down_total'' (show_nat (unat (ct_write (sh_main (mt_shared m))))) @
     metric ''rfrp_rtt_ms'' ''gauge''
       ''Control connection round-trip time in milliseconds (0 = unknown).''
       (show_nat (unat (mt_rtt_ms m))) @
     metric ''rfrp_accepted_total'' ''counter'' ''Accepted TCP connections on the control port.''
       (show_nat (unat (mt_accepted_total m))) @
     metric ''rfrp_accept_errors_total'' ''counter'' ''Accept errors.''
       (show_nat (unat (mt_accept_errors_total m))) @
     metric ''rfrp_udp_dropped_total'' ''counter''
       ''UDP datagrams dropped (pending session limit or session backpressure).''
       (show_nat (unat (mt_udp_dropped_total m))) @
     metric ''rfrp_accepting'' ''gauge'' ''Whether the accept loop is healthy (1/0).''
       (show_bool (mt_accepting m))"

definition render_gauges :: "instant \<Rightarrow> metrics \<Rightarrow> gauges \<Rightarrow> string" where
  "render_gauges now m g =
     metric ''rfrp_uptime_seconds'' ''gauge'' ''Process uptime in seconds.''
       (show_nat (uptime_secs now m)) @
     metric ''rfrp_sessions'' ''gauge'' ''Active control sessions.'' (show_nat (ga_sessions g)) @
     metric ''rfrp_proxies'' ''gauge'' ''Registered proxies.'' (show_nat (ga_proxies g)) @
     metric ''rfrp_pending_work'' ''gauge'' ''User connections waiting for a work connection.''
       (show_nat (ga_pending_work g)) @
     metric ''rfrp_udp_sessions'' ''gauge'' ''Active UDP sessions.'' (show_nat (ga_udp_sessions g)) @
     metric ''rfrp_pooled_work_conns'' ''gauge'' ''Idle pooled work connections.''
       (show_nat (ga_pooled_work_conns g))"

definition proxy_lines ::
  "string \<Rightarrow> string \<Rightarrow> string \<Rightarrow> (nat \<Rightarrow> string) \<Rightarrow> (string \<times> nat) list \<Rightarrow> string" where
  \<comment> \<open>one loop over the sorted statistics, with its header\<close>
  "proxy_lines name kind what show stats =
     help_line name what @ type_line name kind @
     concat (map (\<lambda>(proxy, a). labelled_line name proxy (show a)) stats)"

definition render_proxies :: "metrics \<Rightarrow> (string \<times> nat) list \<Rightarrow> string" where
  "render_proxies m stats =
     proxy_lines ''rfrp_proxy_bytes_up_total'' ''counter''
       ''Bytes from external users to local service (per proxy).''
       (\<lambda>a. show_nat (unat (ct_read (sh_extra (mt_shared m) a)))) stats @
     proxy_lines ''rfrp_proxy_bytes_down_total'' ''counter''
       ''Bytes from local service to external users (per proxy).''
       (\<lambda>a. show_nat (unat (ct_write (sh_extra (mt_shared m) a)))) stats @
     proxy_lines ''rfrp_proxy_connections_total'' ''counter''
       ''User connections accepted (per proxy).''
       (\<lambda>a. show_nat (unat (mt_proxy_connections m a))) stats @
     proxy_lines ''rfrp_proxy_active_connections'' ''gauge'' ''Active user connections (per proxy).''
       (\<lambda>a. show_int (ct_active (sh_extra (mt_shared m) a))) stats"

definition render_prometheus :: "instant \<Rightarrow> server_state \<Rightarrow> string" where
  "render_prometheus now st =
     (let out = render (st_metrics st) @ render_gauges now (st_metrics st) (gauges_of st);
          stats = sort_key fst (st_proxy_stats st)
      in if stats \<noteq> [] then out @ render_proxies (st_metrics st) stats else out)"

section \<open>Reading it back\<close>

fun read_lines :: "nat \<Rightarrow> string \<Rightarrow> (string \<times> string) list" where
  \<comment> \<open>a scraper of labelled lines of a known metric name length: proxy and value of each\<close>
  "read_lines 0 s = []"
| "read_lines (Suc n) s =
     (case dropWhile (\<lambda>c. c \<noteq> QUOTE) s of
        [] \<Rightarrow> []
      | _ # s \<Rightarrow>
          (case read_label s of
             None \<Rightarrow> []
           | Some (proxy, s) \<Rightarrow>
               (proxy, takeWhile (\<lambda>c. c \<noteq> NL) (drop 2 s)) #
               read_lines n (drop 1 (dropWhile (\<lambda>c. c \<noteq> NL) s))))"

lemma dropWhile_stop: "list_all P xs \<Longrightarrow> \<not> P y \<Longrightarrow> dropWhile P (xs @ y # ys) = y # ys"
  by (induction xs) auto

lemma takeWhile_stop: "list_all P xs \<Longrightarrow> \<not> P y \<Longrightarrow> takeWhile P (xs @ y # ys) = xs"
  by (induction xs) auto

lemma read_line:
  assumes "QUOTE \<notin> set name" and "NL \<notin> set v"
  shows "read_lines (Suc n) (labelled_line name proxy v @ s) = (proxy, v) # read_lines n s"
proof -
  have n: "list_all (\<lambda>c. c \<noteq> QUOTE) (name @ ''{proxy='')"
    using assms(1) by (auto simp: list_all_iff QUOTE_def)
  have v: "list_all (\<lambda>c. c \<noteq> NL) v" "list_all (\<lambda>c. c \<noteq> NL) (''} '' @ v)"
    using assms(2) by (auto simp: list_all_iff NL_def)
  have "dropWhile (\<lambda>c. c \<noteq> QUOTE) (labelled_line name proxy v @ s) =
      QUOTE # escape_label proxy @ QUOTE # ''} '' @ v @ NL # s"
    using dropWhile_stop [OF n, of QUOTE] by (simp add: labelled_line_def)
  then show ?thesis
    using takeWhile_stop [OF v(1), of NL] dropWhile_stop [OF v(2), of NL] read_escaped by simp
qed

lemma read_all_lines:
  assumes "QUOTE \<notin> set name" and "\<forall>a. NL \<notin> set (show a)"
  shows "read_lines (length stats) (concat (map (\<lambda>(proxy, a). labelled_line name proxy (show a)) stats) @ s) =
    map (\<lambda>(proxy, a). (proxy, show a)) stats"
proof (induction stats)
  case Nil
  then show ?case by simp
next
  case (Cons p stats)
  obtain proxy a where p: "p = (proxy, a)" by fastforce
  have "read_lines (Suc (length stats)) (labelled_line name proxy (show a) @
      concat (map (\<lambda>(proxy, a). labelled_line name proxy (show a)) stats) @ s) =
    (proxy, show a) # map (\<lambda>(proxy, a). (proxy, show a)) stats"
    unfolding read_line [OF assms(1) assms(2) [rule_format]] Cons.IH by (rule refl)
  then show ?case using p by simp
qed

lemma nat_no_NL: "NL \<notin> set (show_nat n)"
  using show_nat_digits [of n] by (auto simp: list_all_iff NL_def is_digit_def)

text \<open>
  C39 --- A scraper gets every proxy's byte count whatever the proxy is called: in the text of
  \<open>render_prometheus\<close>, the block of a per-proxy counter reads back as the proxies of the state
  with their counts, in the order of their names, quotes, backslashes and line breaks in a name
  included.
\<close>

theorem scraped_bytes_up:
  "let m = st_metrics st; stats = sort_key fst (st_proxy_stats st);
       counters = render m @ render_gauges now m (gauges_of st);
       head = help_line ''rfrp_proxy_bytes_up_total''
                ''Bytes from external users to local service (per proxy).'' @
              type_line ''rfrp_proxy_bytes_up_total'' ''counter''
   in if stats = [] then render_prometheus now st = counters
      else \<exists>lines. render_prometheus now st = counters @ head @ lines \<and>
        read_lines (length stats) lines =
          map (\<lambda>(proxy, a). (proxy, show_nat (unat (ct_read (sh_extra (mt_shared m) a))))) stats"
proof -
  define m where "m = st_metrics st"
  define stats where "stats = sort_key fst (st_proxy_stats st)"
  let ?name = "''rfrp_proxy_bytes_up_total''"
  define sh where "sh = (\<lambda>a. show_nat (unat (ct_read (sh_extra (mt_shared m) a))))"
  define lines where "lines = concat (map (\<lambda>(proxy, a). labelled_line ?name proxy (sh a)) stats)"
  define top where "top = help_line ?name ''Bytes from external users to local service (per proxy).'' @
    type_line ?name ''counter''"
  obtain rest where r: "render_proxies m stats = top @ lines @ rest"
    unfolding render_proxies_def proxy_lines_def lines_def sh_def top_def append_assoc by blast
  have l: "read_lines (length stats) (lines @ rest) = map (\<lambda>(proxy, a). (proxy, sh a)) stats"
    unfolding lines_def by (rule read_all_lines) (simp_all add: QUOTE_def sh_def nat_no_NL)
  define counters where "counters = render m @ render_gauges now m (gauges_of st)"
  have "render_prometheus now st = (if stats \<noteq> [] then counters @ render_proxies m stats else counters)"
    unfolding render_prometheus_def Let_def m_def stats_def counters_def by (rule refl)
  with r l have "if stats = [] then render_prometheus now st = counters
    else \<exists>lines. render_prometheus now st = counters @ top @ lines \<and>
      read_lines (length stats) lines = map (\<lambda>(proxy, a). (proxy, sh a)) stats"
    by (auto intro: exI [of _ "lines @ rest"])
  then show ?thesis unfolding Let_def sh_def counters_def top_def stats_def m_def .
qed

end
