(* ===== verification/ClientMetrics.thy ===== *)
theory ClientMetrics
  imports Exposition
begin

text \<open>
  The client's counters (\<open>rfrpc/src/metrics.rs\<close>), which live as long as the process and are shared
  by every connection and task of it.
\<close>

record client_metrics =
  cm_started :: instant
  cm_connected :: bool
  cm_reconnects :: u64
  cm_work_conns :: u64
  cm_work_conn_failures :: u64
  cm_rtt_ms :: u64
  cm_register_failures :: u64
  cm_retry_success :: u64

definition client_metrics_new :: "instant \<Rightarrow> client_metrics" where
  "client_metrics_new now =
     \<lparr>cm_started = now, cm_connected = False, cm_reconnects = 0, cm_work_conns = 0,
      cm_work_conn_failures = 0, cm_rtt_ms = 0, cm_register_failures = 0, cm_retry_success = 0\<rparr>"

definition client_uptime_secs :: "instant \<Rightarrow> client_metrics \<Rightarrow> nat" where
  "client_uptime_secs now m = (now - cm_started m) div from_secs 1"

definition set_connected :: "bool \<Rightarrow> client_metrics \<Rightarrow> client_metrics" where
  "set_connected v m = m\<lparr>cm_connected := v\<rparr>"

definition client_set_rtt_ms :: "u64 \<Rightarrow> client_metrics \<Rightarrow> client_metrics" where
  "client_set_rtt_ms ms m = m\<lparr>cm_rtt_ms := ms\<rparr>"

definition inc_reconnect :: "client_metrics \<Rightarrow> client_metrics" where
  "inc_reconnect m = m\<lparr>cm_reconnects := cm_reconnects m + 1\<rparr>"

definition inc_work_conn :: "client_metrics \<Rightarrow> client_metrics" where
  "inc_work_conn m = m\<lparr>cm_work_conns := cm_work_conns m + 1\<rparr>"

definition inc_work_conn_failure :: "client_metrics \<Rightarrow> client_metrics" where
  "inc_work_conn_failure m = m\<lparr>cm_work_conn_failures := cm_work_conn_failures m + 1\<rparr>"

definition inc_proxy_register_failure :: "client_metrics \<Rightarrow> client_metrics" where
  "inc_proxy_register_failure m = m\<lparr>cm_register_failures := cm_register_failures m + 1\<rparr>"

definition inc_proxy_register_retry_success :: "client_metrics \<Rightarrow> client_metrics" where
  "inc_proxy_register_retry_success m = m\<lparr>cm_retry_success := cm_retry_success m + 1\<rparr>"

definition client_render :: "instant \<Rightarrow> client_metrics \<Rightarrow> string" where
  "client_render now m =
     metric ''rfrp_client_uptime_seconds'' ''gauge''
       ''Client process uptime in seconds.''
       (show_nat (client_uptime_secs now m)) @
     metric ''rfrp_client_rtt_ms'' ''gauge''
       ''Control connection round-trip time in milliseconds (0 = unknown).''
       (show_nat (unat (cm_rtt_ms m))) @
     metric ''rfrp_client_connected'' ''gauge''
       ''Whether the control connection is logged in (1/0).''
       (show_bool (cm_connected m)) @
     metric ''rfrp_client_reconnects_total'' ''counter''
       ''Control connection reconnects.''
       (show_nat (unat (cm_reconnects m))) @
     metric ''rfrp_client_work_conns_total'' ''counter''
       ''Work connections established.''
       (show_nat (unat (cm_work_conns m))) @
     metric ''rfrp_client_work_conn_failures_total'' ''counter''
       ''Work connection failures.''
       (show_nat (unat (cm_work_conn_failures m))) @
     metric ''rfrp_client_proxy_register_failures_total'' ''counter''
       ''Proxy registration failures.''
       (show_nat (unat (cm_register_failures m))) @
     metric ''rfrp_client_proxy_register_retry_success_total'' ''counter''
       ''Proxies registered after retry.''
       (show_nat (unat (cm_retry_success m)))"

end
