(* ===== verification/ClientState.thy ===== *)
theory ClientState
  imports ClientMetrics Crypto Channel Msg
begin

text \<open>
  The state of one control connection of the client (\<open>ClientState\<close> of \<open>rfrpc/src/client.rs\<close>) with
  what its tasks share: the two message channels, the heartbeat that waits for its answer,
  whether the control loop still runs. The one-shot channels of the registrations are numbered
  and live in a heap; a sender that leaves the table without being used is dropped. The clock
  is part of the state. Work connections the control loop started are listed in the order they
  were asked for.
\<close>

datatype oneshot = OsOpen | OsSent new_proxy_resp | OsDropped

record client_state =
  ck_server_addr :: socket_addr
  ck_run_id :: string
  ck_proxies :: "(string, client_proxy) hmap"
  ck_resps :: "(string, nat) hmap"
  ck_oneshots :: "nat \<Rightarrow> oneshot"
  ck_next_oneshot :: nat
  ck_login_tx :: bool
  ck_login :: "login_resp option"
  ck_tls :: "client_tls option"
  ck_work_conn_tls :: bool
  ck_work_conn_token :: "string option"
  ck_metrics :: client_metrics
  ck_tx :: "message chan"
  ck_out :: "message chan"
  ck_pong_ts :: u64
  ck_heartbeat :: "(u64 \<times> instant) option"
  ck_running :: bool
  ck_ended :: instant
  ck_registered :: bool
  ck_spawned :: "req_work_conn list"
  ck_now :: instant
  ck_shutdown :: bool

definition OUT_QUEUE_DEPTH :: nat where "OUT_QUEUE_DEPTH = 256"
definition TX_QUEUE_DEPTH :: nat where "TX_QUEUE_DEPTH = 64"

definition client_state_new ::
  "socket_addr \<Rightarrow> string \<Rightarrow> client_config \<Rightarrow> client_tls option \<Rightarrow> client_metrics \<Rightarrow> instant
     \<Rightarrow> client_state" where
  \<comment> \<open>with the channels and the login sender \<open>connect_once\<close> makes\<close>
  "client_state_new addr run_id config tls m now =
     \<lparr>ck_server_addr = addr, ck_run_id = run_id,
      ck_proxies = fold (\<lambda>p. hm_insert (cp_name p) p) (cc_proxies config) [],
      ck_resps = [], ck_oneshots = (\<lambda>_. OsDropped), ck_next_oneshot = 0,
      ck_login_tx = True, ck_login = None, ck_tls = tls,
      ck_work_conn_tls = cl_work_conn_tls (cc_client config), ck_work_conn_token = None,
      ck_metrics = m, ck_tx = chan_new TX_QUEUE_DEPTH, ck_out = chan_new OUT_QUEUE_DEPTH,
      ck_pong_ts = 0, ck_heartbeat = None, ck_running = True, ck_ended = now, ck_registered = False,
      ck_spawned = [], ck_now = now, ck_shutdown = False\<rparr>"

definition on_client_metrics :: "(client_metrics \<Rightarrow> client_metrics) \<Rightarrow> client_state \<Rightarrow> client_state" where
  "on_client_metrics f s = s\<lparr>ck_metrics := f (ck_metrics s)\<rparr>"

section \<open>One-shot channels\<close>

definition drop_sender :: "nat option \<Rightarrow> client_state \<Rightarrow> client_state" where
  "drop_sender i s =
     (case i of None \<Rightarrow> s | Some i \<Rightarrow> s\<lparr>ck_oneshots := (ck_oneshots s)(i := OsDropped)\<rparr>)"

definition insert_resp :: "string \<Rightarrow> client_state \<Rightarrow> nat \<times> client_state" where
  \<comment> \<open>a new channel whose sender goes into the table, in the place of an older one\<close>
  "insert_resp name s =
     (let i = ck_next_oneshot s;
          s = drop_sender (hm_get (ck_resps s) name) s
      in (i, s\<lparr>ck_resps := hm_insert name i (ck_resps s),
              ck_oneshots := (ck_oneshots s)(i := OsOpen), ck_next_oneshot := i + 1\<rparr>))"

definition remove_resp :: "string \<Rightarrow> client_state \<Rightarrow> client_state" where
  "remove_resp name s =
     (drop_sender (hm_get (ck_resps s) name) s)\<lparr>ck_resps := hm_remove name (ck_resps s)\<rparr>"

definition answer_resp :: "new_proxy_resp \<Rightarrow> client_state \<Rightarrow> client_state" where
  \<comment> \<open>\<open>resps.remove(name)\<close> and, if there was a sender, \<open>send\<close>\<close>
  "answer_resp r s =
     (case hm_get (ck_resps s) (nr_proxy_name r) of
        None \<Rightarrow> s
      | Some i \<Rightarrow> s\<lparr>ck_resps := hm_remove (nr_proxy_name r) (ck_resps s),
                    ck_oneshots := (ck_oneshots s)(i := OsSent r)\<rparr>)"

definition clear_resps :: "client_state \<Rightarrow> client_state" where
  "clear_resps s =
     s\<lparr>ck_oneshots := (\<lambda>i. if i \<in> set (hm_values (ck_resps s)) then OsDropped else ck_oneshots s i),
       ck_resps := []\<rparr>"

text \<open>
  Every sender in the table belongs to an open channel, no two names share one, and numbers
  from the counter on are unused.
\<close>

definition resps_ok :: "client_state \<Rightarrow> bool" where
  "resps_ok s \<longleftrightarrow>
     hm_wf (ck_resps s) \<and>
     (\<forall>n i. hm_get (ck_resps s) n = Some i \<longrightarrow> ck_oneshots s i = OsOpen \<and> i < ck_next_oneshot s) \<and>
     (\<forall>n n' i. hm_get (ck_resps s) n = Some i \<and> hm_get (ck_resps s) n' = Some i \<longrightarrow> n = n')"

lemma drop_sender_frame [simp]:
  "ck_resps (drop_sender i s) = ck_resps s" "ck_next_oneshot (drop_sender i s) = ck_next_oneshot s"
  by (simp_all add: drop_sender_def split: option.split)

lemma drop_sender_oneshots:
  "ck_oneshots (drop_sender i s) = (case i of None \<Rightarrow> ck_oneshots s | Some i \<Rightarrow> (ck_oneshots s)(i := OsDropped))"
  by (simp add: drop_sender_def split: option.split)

lemma resps_okD:
  assumes "resps_ok s" and "hm_get (ck_resps s) n = Some i"
  shows "ck_oneshots s i = OsOpen" "i < ck_next_oneshot s"
    "hm_get (ck_resps s) n' = Some i \<Longrightarrow> n' = n"
  using assms by (auto simp: resps_ok_def)

lemma insert_resp_ok: "resps_ok s \<Longrightarrow> resps_ok (snd (insert_resp name s))"
  unfolding resps_ok_def insert_resp_def Let_def
  by (auto simp: drop_sender_oneshots split: option.splits if_splits) (metis less_Suc_eq nat_neq_iff)+

lemma remove_resp_ok: "resps_ok s \<Longrightarrow> resps_ok (remove_resp name s)"
  unfolding resps_ok_def remove_resp_def
  by (auto simp: drop_sender_oneshots split: option.splits if_splits)

lemma answer_resp_ok: "resps_ok s \<Longrightarrow> resps_ok (answer_resp r s)"
  unfolding resps_ok_def answer_resp_def
  by (auto split: option.splits if_splits)

lemma clear_resps_ok: "resps_ok (clear_resps s)"
  by (simp add: resps_ok_def clear_resps_def)

end
