(* ===== verification/WorkConn.thy ===== *)
theory WorkConn
  imports ClientState UdpFrame
begin

text \<open>
  The client's side of a work connection (\<open>rfrpc/src/workconn.rs\<close>): the order of connecting to the
  server, to the local service and sending StartWorkConn, what each failure does, and the bridge
  of a UDP proxy. What the network answers is the record \<open>work_env\<close>.
\<close>

section \<open>Building the connection\<close>

datatype attempt = Elapsed | Errored io_error | Ready

record work_env =
  we_connect :: attempt
  we_tls :: attempt
  we_udp_bind :: "(io_error, unit) result"
  we_udp_connect :: "(io_error, unit) result"
  we_local :: attempt
  we_send :: "(io_error, unit) result"

datatype work_end =
    GivenUp
  | Started frame  \<comment> \<open>the first frame, sent; the bridge follows\<close>

definition send_start ::
  "json \<Rightarrow> work_env \<Rightarrow> req_work_conn \<Rightarrow> client_state \<Rightarrow> (error, work_end) result \<times> client_state" where
  \<comment> \<open>the common end of both branches: send StartWorkConn, count the connection\<close>
  "send_start j env req s =
     (case rbind (to_frame j (StartWorkConn
               \<lparr>sw_proxy_name = rw_proxy_name req, sw_work_id = rw_work_id req,
                sw_work_conn_token = ck_work_conn_token s\<rparr>)) (\<lambda>f.
             rbind (encode f []) (\<lambda>_.
             rbind (map_err Io (we_send env)) (\<lambda>_. Inr f))) of
        Inl e \<Rightarrow> (Inl e, s)
      | Inr f \<Rightarrow> (Inr (Started f), on_client_metrics inc_work_conn s))"

definition connect_local ::
  "json \<Rightarrow> work_env \<Rightarrow> client_proxy \<Rightarrow> req_work_conn \<Rightarrow> client_state
     \<Rightarrow> (error, work_end) result \<times> client_state" where
  \<comment> \<open>the UDP socket or the TCP connection to the local service, then StartWorkConn\<close>
  "connect_local j env proxy req s =
     (if cp_type proxy = Udp
      then case we_udp_bind env of
             Inl e \<Rightarrow> (Inl (Io e), s)
           | Inr _ \<Rightarrow>
               (case we_udp_connect env of
                  Inl e \<Rightarrow> (Inr GivenUp, on_client_metrics inc_work_conn_failure s)
                | Inr _ \<Rightarrow> send_start j env req s)
      else case we_local env of
             Ready \<Rightarrow> send_start j env req s
           | _ \<Rightarrow> (Inr GivenUp, on_client_metrics inc_work_conn_failure s))"

definition handle_work_conn ::
  "json \<Rightarrow> (io_error \<Rightarrow> string) \<Rightarrow> work_env \<Rightarrow> req_work_conn \<Rightarrow> client_state
     \<Rightarrow> (error, work_end) result \<times> client_state" where
  "handle_work_conn j display env req s =
     (let failed = on_client_metrics inc_work_conn_failure s in
      case hm_get (ck_proxies s) (rw_proxy_name req) of
        None \<Rightarrow> (Inr GivenUp, failed)
      | Some proxy \<Rightarrow>
          (case we_connect env of
             Elapsed \<Rightarrow> (Inl (Other ''work connection connect timeout''), failed)
           | Errored e \<Rightarrow> (Inl (Io e), s)
           | Ready \<Rightarrow>
               if \<not> ck_work_conn_tls s then connect_local j env proxy req s
               else if ck_tls s = None
               then (Inl (Other ''work_conn_tls enabled but client TLS not initialized''), failed)
               else case we_tls env of
                      Elapsed \<Rightarrow> (Inl (Other ''work connection TLS handshake timeout''), failed)
                    | Errored e \<Rightarrow> (Inl (map_tls_connect_error display e), s)
                    | Ready \<Rightarrow> connect_local j env proxy req s))"

lemma send_start_cases:
  "send_start j env req s = (r, s') \<Longrightarrow>
     (\<exists>e. r = Inl e \<and> s' = s) \<or>
     (\<exists>f. r = Inr (Started f) \<and> s' = on_client_metrics inc_work_conn s \<and> we_send env = Inr () \<and>
        to_frame j (StartWorkConn \<lparr>sw_proxy_name = rw_proxy_name req, sw_work_id = rw_work_id req,
                sw_work_conn_token = ck_work_conn_token s\<rparr>) = Inr f \<and>
        length (f_payload f) \<le> FRAME_MAX_PAYLOAD)"
  by (auto simp: send_start_def rbind_Inr_iff encode_def split: sum.splits if_splits)

lemma handle_work_conn_state:
  "handle_work_conn j display env req s = (r, s') \<Longrightarrow>
     s' = s \<or> s' = on_client_metrics inc_work_conn_failure s \<or> s' = on_client_metrics inc_work_conn s"
  unfolding handle_work_conn_def connect_local_def Let_def
  by (auto split: option.splits attempt.splits if_splits sum.splits dest: send_start_cases)

definition reached :: "work_env \<Rightarrow> client_state \<Rightarrow> client_proxy \<Rightarrow> bool" where
  \<comment> \<open>server and local service both answered\<close>
  "reached env s proxy \<longleftrightarrow>
     we_connect env = Ready \<and>
     (if ck_work_conn_tls s then ck_tls s \<noteq> None \<and> we_tls env = Ready else True) \<and>
     (if cp_type proxy = Udp then we_udp_bind env = Inr () \<and> we_udp_connect env = Inr ()
      else we_local env = Ready)"

lemma connect_local_started:
  "fst (connect_local j env proxy req s) = Inr (Started f) \<Longrightarrow>
     (if cp_type proxy = Udp then we_udp_bind env = Inr () \<and> we_udp_connect env = Inr ()
      else we_local env = Ready)"
  by (auto simp: connect_local_def split: sum.splits attempt.splits if_splits)

lemma handle_started:
  assumes "fst (handle_work_conn j display env req s) = Inr (Started f)"
  shows "\<exists>proxy. hm_get (ck_proxies s) (rw_proxy_name req) = Some proxy \<and> reached env s proxy"
proof (cases "hm_get (ck_proxies s) (rw_proxy_name req)")
  case (Some proxy)
  with assms show ?thesis
    by (cases "we_connect env"; cases "we_tls env")
      (simp_all add: handle_work_conn_def reached_def connect_local_started Let_def split: if_splits)
qed (use assms in \<open>simp add: handle_work_conn_def\<close>)

lemma handle_reached:
  "hm_get (ck_proxies s) (rw_proxy_name req) = Some proxy \<Longrightarrow> reached env s proxy \<Longrightarrow>
     handle_work_conn j display env req s = send_start j env req s"
  by (simp add: handle_work_conn_def reached_def connect_local_def Let_def split: if_splits)

lemma handle_sends:
  assumes "handle_work_conn j display env req s = (Inr (Started f), s')"
  shows "to_frame j (StartWorkConn \<lparr>sw_proxy_name = rw_proxy_name req, sw_work_id = rw_work_id req,
    sw_work_conn_token = ck_work_conn_token s\<rparr>) = Inr f"
proof -
  from assms have "fst (handle_work_conn j display env req s) = Inr (Started f)" by simp
  from handle_started [OF this] handle_reached have "send_start j env req s = (Inr (Started f), s')"
    using assms by fastforce
  from send_start_cases [OF this] show ?thesis by blast
qed


section \<open>The UDP bridge\<close>

record bridge_state =
  ub_buf :: bytes
  ub_in :: "chunk list"
  ub_local_sent :: "bytes list"
  ub_written :: bytes

datatype bridge_event =
    WorkReadable nat  \<comment> \<open>how many sends to the local socket succeed\<close>
  | LocalReadable "(io_error, bytes) result" "(io_error, bytes) result list" bool
      \<comment> \<open>the datagram, what further \<open>try_recv\<close>s give, whether the write succeeds\<close>

fun drain_local :: "bytes \<Rightarrow> (io_error, bytes) result list \<Rightarrow> (io_error, bytes) result" where
  \<comment> \<open>the \<open>try_recv\<close> loop over the write buffer\<close>
  "drain_local w [] = Inr w"
| "drain_local w (Inr d # ds) = rbind (append_udp_frame w d) (\<lambda>w. drain_local w ds)"
| "drain_local w (Inl e # ds) = (if io_kind e = WouldBlock then Inr w else Inl e)"

definition udp_bridge_turn :: "bridge_event \<Rightarrow> bridge_state \<Rightarrow> bool \<times> bridge_state" where
  \<comment> \<open>whether the loop goes on\<close>
  "udp_bridge_turn ev b =
     (case ev of
        WorkReadable sends \<Rightarrow>
          (case read_batch UDP_READ_BATCH (ub_buf b) (ub_in b) of
             (r, buf, inp) \<Rightarrow>
               let b = b\<lparr>ub_buf := buf, ub_in := inp\<rparr> in
               (case r of
                  Inl e \<Rightarrow> (False, b)
                | Inr down \<Rightarrow>
                    if down = [] then (False, b)
                    else (True, b\<lparr>ub_local_sent := ub_local_sent b @ take sends down\<rparr>)))
      | LocalReadable first others write_ok \<Rightarrow>
          (case rbind first (\<lambda>d.
                rbind (append_udp_frame [] d) (\<lambda>w.
                  drain_local w (take (UDP_RECV_BATCH - 1) others))) of
             Inl e \<Rightarrow> (False, b)
           | Inr w \<Rightarrow> if write_ok then (True, b\<lparr>ub_written := ub_written b @ w\<rparr>) else (False, b)))"

fun udp_bridge :: "bridge_event list \<Rightarrow> bridge_state \<Rightarrow> bridge_state" where
  "udp_bridge [] b = b"
| "udp_bridge (ev # evs) b =
     (let (go, b) = udp_bridge_turn ev b in if go then udp_bridge evs b else b)"

fun drained :: "(io_error, bytes) result list \<Rightarrow> bytes list" where
  \<comment> \<open>the datagrams before the first error\<close>
  "drained (Inr d # ds) = d # drained ds"
| "drained _ = []"

lemma drain_local_wire:
  "drain_local w ds = Inr w' \<Longrightarrow> list_all udp_ok (drained ds) \<and> w' = w @ concat (map udp_wire (drained ds))"
proof (induction ds arbitrary: w)
  case (Cons x ds)
  show ?case
  proof (cases x)
    case (Inr d)
    with Cons.prems have "udp_ok d" "drain_local (w @ udp_wire d) ds = Inr w'"
      by (auto simp: rbind_Inr_iff append_udp_frame_def udp_ok_def udp_wire_def split: if_splits)
    with Cons.IH [of "w @ udp_wire d"] Inr show ?thesis by simp
  qed (use Cons.prems in \<open>simp split: if_splits\<close>)
qed simp

text \<open>
  What one direction of the bridge did: \<open>relayed evs b ls\<close> says that the run took exactly the
  datagrams \<open>ls\<close> from the local socket and wrote them.
\<close>

definition taken_local :: "bridge_event \<Rightarrow> bytes list" where
  "taken_local ev =
     (case ev of LocalReadable first others _ \<Rightarrow> drained (first # take (UDP_RECV_BATCH - 1) others) | _ \<Rightarrow> [])"

fun sends_all :: "bridge_event \<Rightarrow> bool" where
  "sends_all (WorkReadable n) = (UDP_READ_BATCH \<le> n)"
| "sends_all (LocalReadable _ _ _) = True"

definition up_ok :: "bridge_state \<Rightarrow> bytes list \<Rightarrow> bool" where
  "up_ok b ls \<longleftrightarrow> list_all udp_ok ls \<and> ub_written b = concat (map udp_wire ls)"

definition down_ok :: "bridge_state \<Rightarrow> bytes list \<Rightarrow> bool" where
  "down_ok b ds \<longleftrightarrow> list_all live (ub_in b) \<and>
     (\<exists>rest. ub_local_sent b @ rest = ds \<and> list_all udp_ok rest \<and>
        ub_buf b @ concat (map chunk_bytes (ub_in b)) = concat (map udp_wire rest))"

lemma udp_bridge_turn_up:
  assumes "up_ok b ls" and "udp_bridge_turn ev b = (go, b')"
  shows "up_ok b' (if go then ls @ taken_local ev else ls)"
proof (cases ev)
  case (WorkReadable n)
  with assms show ?thesis
    by (auto simp: udp_bridge_turn_def up_ok_def taken_local_def Let_def split: prod.splits sum.splits if_splits)
next
  case (LocalReadable first others ok)
  with assms show ?thesis
    by (cases first)
      (auto simp: udp_bridge_turn_def up_ok_def taken_local_def rbind_Inr_iff append_udp_frame_def
        udp_ok_def udp_wire_def split: sum.splits if_splits dest!: drain_local_wire)
qed

lemma udp_bridge_turn_down:
  assumes "down_ok b ds" and "sends_all ev" and "udp_bridge_turn ev b = (go, b')"
  shows "down_ok b' ds"
proof (cases ev)
  case (LocalReadable first others ok)
  with assms show ?thesis
    by (auto simp: udp_bridge_turn_def down_ok_def split: sum.splits if_splits)
next
  case (WorkReadable n)
  from assms(1) obtain rest where l: "list_all live (ub_in b)" and d: "ub_local_sent b @ rest = ds"
    and ok: "list_all udp_ok rest" and w: "ub_buf b @ concat (map chunk_bytes (ub_in b)) = concat (map udp_wire rest)"
    by (auto simp: down_ok_def)
  have "0 < UDP_READ_BATCH" by (simp add: UDP_READ_BATCH_def)
  from read_batch_step [OF this l ok w] obtain k buf inp where
    r: "read_batch UDP_READ_BATCH (ub_buf b) (ub_in b) = (Inr (take k rest), buf, inp)"
    and k: "k \<le> UDP_READ_BATCH" "list_all live inp"
    "buf @ concat (map chunk_bytes inp) = concat (map udp_wire (drop k rest))" by blast
  have t: "take n (take k rest) = take k rest" using assms(2) WorkReadable k(1) by simp
  have "list_all udp_ok (drop k rest)" using ok by (metis append_take_drop_id list_all_append)
  moreover have "(ub_local_sent b @ take k rest) @ drop k rest = ds" using d by simp
  ultimately have "down_ok (b\<lparr>ub_buf := buf, ub_in := inp, ub_local_sent := ub_local_sent b @ take k rest\<rparr>) ds"
    unfolding down_ok_def using k by (intro conjI exI [of _ "drop k rest"]) simp_all
  moreover have "b\<lparr>ub_buf := buf, ub_in := inp, ub_local_sent := ub_local_sent b @ []\<rparr> =
      b\<lparr>ub_buf := buf, ub_in := inp\<rparr>" by simp
  ultimately show ?thesis
    using assms(3) WorkReadable r t
    by (cases "take k rest = []") (auto simp: udp_bridge_turn_def Let_def simp del: take_eq_Nil)
qed

fun went_on :: "bridge_event list \<Rightarrow> bridge_state \<Rightarrow> bridge_event list" where
  \<comment> \<open>the turns after which the loop went on\<close>
  "went_on [] b = []"
| "went_on (ev # evs) b =
     (let (go, b) = udp_bridge_turn ev b in if go then ev # went_on evs b else [])"

lemma udp_bridge_up: "up_ok b ls \<Longrightarrow> up_ok (udp_bridge evs b) (ls @ concat (map taken_local (went_on evs b)))"
proof (induction evs arbitrary: b ls)
  case (Cons ev evs)
  obtain go b' where t: "udp_bridge_turn ev b = (go, b')" by fastforce
  from udp_bridge_turn_up [OF Cons.prems t] Cons.IH [of b' "ls @ taken_local ev"] t show ?case
    by (cases go) (auto simp: Let_def)
qed simp

lemma udp_bridge_down:
  "down_ok b ds \<Longrightarrow> list_all sends_all evs \<Longrightarrow> down_ok (udp_bridge evs b) ds"
proof (induction evs arbitrary: b)
  case (Cons ev evs)
  obtain go b' where t: "udp_bridge_turn ev b = (go, b')" by fastforce
  from udp_bridge_turn_down [OF Cons.prems(1) _ t] Cons t show ?case by (cases go) (auto simp: Let_def)
qed simp

text \<open>
  The UDP bridge keeps datagrams whole and in order in both directions, under any
  interleaving: if the work connection carries the frames of \<open>ds\<close> in arbitrary pieces and the
  local socket takes what it is given, what was sent to it is always a prefix of \<open>ds\<close>; and the
  bytes written to the work connection are always the frames of exactly the datagrams taken
  from the local socket in the turns that went on.
\<close>

theorem udp_bridge_relays:
  assumes "list_all udp_ok ds" and "list_all live inp" and "concat (map chunk_bytes inp) = concat (map udp_wire ds)"
    and "list_all sends_all evs"
  defines "b \<equiv> \<lparr>ub_buf = [], ub_in = inp, ub_local_sent = [], ub_written = []\<rparr>"
  shows "take (length (ub_local_sent (udp_bridge evs b))) ds = ub_local_sent (udp_bridge evs b) \<and>
    write_udp_frames_buffered [] (concat (map taken_local (went_on evs b))) =
      Inr (ub_written (udp_bridge evs b))"
proof -
  have "down_ok b ds" using assms by (auto simp: down_ok_def)
  from udp_bridge_down [OF this assms(4)] obtain rest where "ub_local_sent (udp_bridge evs b) @ rest = ds"
    by (auto simp: down_ok_def)
  moreover have "up_ok b []" by (simp add: up_ok_def b_def)
  from udp_bridge_up [OF this, of evs] have "write_udp_frames_buffered [] (concat (map taken_local (went_on evs b))) =
      Inr (ub_written (udp_bridge evs b))"
    by (auto simp: up_ok_def write_udp_frames_buffered_def append_frames_wire)
  ultimately show ?thesis by auto
qed

definition demo_bridge :: bridge_state where
  "demo_bridge =
     \<lparr>ub_buf = [], ub_in = [Data [0, 0], Data [0, 2, 7], Data [8]], ub_local_sent = [], ub_written = []\<rparr>"

definition demo_bridge_events :: "bridge_event list" where
  "demo_bridge_events = [LocalReadable (Inr [5]) [Inl (io_err WouldBlock)] True, WorkReadable 32]"

theorem udp_bridge_relays_witness:
  "(\<exists>n. take n [[7, 8]] = ub_local_sent (udp_bridge demo_bridge_events demo_bridge)) \<and>
   write_udp_frames_buffered [] (concat (map taken_local (went_on demo_bridge_events demo_bridge))) =
     Inr (ub_written (udp_bridge demo_bridge_events demo_bridge))"
  using udp_bridge_relays [of "[[7, 8]]" "[Data [0, 0], Data [0, 2, 7], Data [8]]" demo_bridge_events]
  by (auto simp: demo_bridge_def demo_bridge_events_def udp_ok_def MAX_UDP_PACKET_SIZE_def live_def
      udp_wire_def to_be_bytes_def UDP_READ_BATCH_def)

end
