(* ===== verification/ClientControl.thy ===== *)
theory ClientControl
  imports WorkConn
begin

text \<open>
  The client's control connection (\<open>rfrpc/src/control.rs\<close>): the login it opens with, its reaction to
  every control message, the outgoing queue, the heartbeat watchdog; and \<open>await\<close>, which runs the
  connection while another task waits. A run is driven by a script of events, each with the time
  that passes before it.
\<close>

datatype client_event =
    Incoming frame u64  \<comment> \<open>a frame, with the wall clock in ms\<close>
  | StreamEnd  \<comment> \<open>a frame error or the end of the stream\<close>
  | Outbound nat  \<comment> \<open>the branch \<open>rx.recv()\<close>; the writer takes so many while a send waits\<close>
  | Written nat  \<comment> \<open>the writer takes so many messages\<close>
  | WriterEnds
  | Tick u64 nat  \<comment> \<open>the heartbeat timer, at this wall clock\<close>
  | WorkTask nat work_env  \<comment> \<open>a started work connection gets to its bridge or gives up\<close>
  | Cancelled

definition CONTROL_SEND_TIMEOUT :: nat where "CONTROL_SEND_TIMEOUT = 5"

section \<open>One turn of the loop\<close>

definition stop_control :: "client_state \<Rightarrow> client_state" where
  \<comment> \<open>the loop ends: the heartbeat task is aborted, both channels lose their receiver; if
      \<open>connect_once\<close> already waits for this, it clears the table and the connected flag\<close>
  "stop_control s =
     (let s = s\<lparr>ck_running := False, ck_ended := ck_now s, ck_heartbeat := None, ck_tx := close_chan (ck_tx s),
               ck_out := close_chan (ck_out s)\<rparr>
      in if ck_registered s then on_client_metrics (set_connected False) (clear_resps s) else s)"

definition login_message :: "client_config \<Rightarrow> client_state \<Rightarrow> message" where
  "login_message config s =
     Login \<lparr>lg_run_id = ck_run_id s, lg_token = cl_token (cc_client config),
            lg_version = PROTOCOL_VERSION\<rparr>"

definition start_control :: "client_config \<Rightarrow> nat \<Rightarrow> client_state \<Rightarrow> client_state" where
  "start_control config taken s =
     (let (sent, out) = send_with_timeout taken (login_message config s) (ck_out s);
          s = s\<lparr>ck_out := out\<rparr>
      in if sent then s else stop_control s)"

definition client_message :: "message \<Rightarrow> u64 \<Rightarrow> client_state \<Rightarrow> client_state" where
  "client_message msg now_ms s =
     (case msg of
        NewProxyResp r \<Rightarrow> answer_resp r s
      | ReqWorkConn r \<Rightarrow> s\<lparr>ck_spawned := ck_spawned s @ [r]\<rparr>
      | Heartbeat ts \<Rightarrow> s\<lparr>ck_out := snd (try_send (HeartbeatResp ts) (ck_out s))\<rparr>
      | HeartbeatResp ts \<Rightarrow>
          let s = on_client_metrics (client_set_rtt_ms (if ts \<le> now_ms then now_ms - ts else 0)) s;
              s = s\<lparr>ck_pong_ts := ts\<rparr>
          in (case ck_heartbeat s of
                Some (sent, _) \<Rightarrow> if sent \<le> ts then s\<lparr>ck_heartbeat := None\<rparr> else s
              | None \<Rightarrow> s)
      | LoginResp r \<Rightarrow> if ck_login_tx s then s\<lparr>ck_login_tx := False, ck_login := Some r\<rparr> else s
      | Close _ \<Rightarrow> stop_control s
      | _ \<Rightarrow> s)"

definition outbound :: "nat \<Rightarrow> client_state \<Rightarrow> client_state" where
  "outbound taken s =
     (case ch_queue (ck_tx s) of
        [] \<Rightarrow> s
      | m # _ \<Rightarrow>
          let s = s\<lparr>ck_tx := snd (recv_many 1 (ck_tx s))\<rparr> in
          (case m of
             HeartbeatResp _ \<Rightarrow> s\<lparr>ck_out := snd (try_send m (ck_out s))\<rparr>
           | _ \<Rightarrow>
               let (sent, out) = send_with_timeout taken m (ck_out s); s = s\<lparr>ck_out := out\<rparr>
               in if sent then s else stop_control s))"

definition heartbeat_tick :: "duration \<Rightarrow> u64 \<Rightarrow> nat \<Rightarrow> client_state \<Rightarrow> client_state" where
  \<comment> \<open>the timer of the heartbeat task, which ignores it while it waits for an answer\<close>
  "heartbeat_tick timeout ts taken s =
     (if ck_heartbeat s \<noteq> None then s
      else let (sent, out) = send_with_timeout taken (Heartbeat ts) (ck_out s);
               s = s\<lparr>ck_out := out\<rparr>
           in if \<not> sent then stop_control s
              else if ts \<le> ck_pong_ts s then s
              else s\<lparr>ck_heartbeat := Some (ts, ck_now s + timeout)\<rparr>)"

record client_ctx =
  cx_json :: json
  cx_display :: "io_error \<Rightarrow> string"
  cx_heartbeat_timeout :: duration

definition control_event :: "client_ctx \<Rightarrow> client_event \<Rightarrow> client_state \<Rightarrow> client_state" where
  \<comment> \<open>while the loop runs\<close>
  "control_event cx ev s =
     (case ev of
        Incoming f now_ms \<Rightarrow>
          (case from_frame (cx_json cx) f of
             Inl e \<Rightarrow> stop_control s
           | Inr msg \<Rightarrow> client_message msg now_ms s)
      | StreamEnd \<Rightarrow> stop_control s
      | Outbound taken \<Rightarrow> outbound taken s
      | Written n \<Rightarrow> s\<lparr>ck_out := snd (recv_many n (ck_out s))\<rparr>
      | WriterEnds \<Rightarrow> s\<lparr>ck_out := close_chan (ck_out s)\<rparr>
      | Tick ts taken \<Rightarrow> heartbeat_tick (cx_heartbeat_timeout cx) ts taken s
      | Cancelled \<Rightarrow> stop_control s
      | WorkTask _ _ \<Rightarrow> s)"

definition work_task :: "client_ctx \<Rightarrow> nat \<Rightarrow> work_env \<Rightarrow> client_state \<Rightarrow> client_state" where
  \<comment> \<open>the spawned task lives on when the loop has ended\<close>
  "work_task cx i env s =
     (if i < length (ck_spawned s)
      then snd (handle_work_conn (cx_json cx) (cx_display cx) env (ck_spawned s ! i)
                  (s\<lparr>ck_spawned := take i (ck_spawned s) @ drop (Suc i) (ck_spawned s)\<rparr>))
      else s)"

definition client_turn :: "client_ctx \<Rightarrow> client_event \<Rightarrow> client_state \<Rightarrow> client_state" where
  "client_turn cx ev s =
     (let s = (case ev of Cancelled \<Rightarrow> s\<lparr>ck_shutdown := True\<rparr> | _ \<Rightarrow> s) in
      case ev of
        WorkTask i env \<Rightarrow> work_task cx i env s
      | _ \<Rightarrow> if ck_running s then control_event cx ev s else s)"

section \<open>Waiting\<close>

type_synonym script = "(duration \<times> client_event) list"

definition pass :: "duration \<Rightarrow> client_state \<Rightarrow> client_state" where
  "pass d s = s\<lparr>ck_now := ck_now s + d\<rparr>"

definition next_wait :: "script \<Rightarrow> duration option" where
  "next_wait evs = (case evs of [] \<Rightarrow> None | (w, _) # _ \<Rightarrow> Some w)"

definition shorten :: "duration \<Rightarrow> script \<Rightarrow> script" where
  "shorten d evs = (case evs of [] \<Rightarrow> [] | (w, ev) # rest \<Rightarrow> (w - d, ev) # rest)"

definition sooner :: "duration \<Rightarrow> duration option \<Rightarrow> bool" where
  "sooner d other = (case other of None \<Rightarrow> True | Some e \<Rightarrow> d < e)"

definition times_out :: "duration option \<Rightarrow> script \<Rightarrow> bool" where
  "times_out limit evs = (case limit of None \<Rightarrow> False | Some l \<Rightarrow> sooner l (next_wait evs))"

definition heartbeat_due :: "duration option \<Rightarrow> script \<Rightarrow> client_state \<Rightarrow> duration option" where
  \<comment> \<open>the watchdog fires before anything else happens\<close>
  "heartbeat_due limit evs s =
     (case ck_heartbeat s of
        None \<Rightarrow> None
      | Some (_, deadline) \<Rightarrow>
          let d = deadline - ck_now s in
          if sooner d (next_wait evs) \<and> sooner d limit then Some d else None)"

lemma stop_control_heartbeat [simp]: "ck_heartbeat (stop_control s) = None"
  by (simp add: stop_control_def Let_def on_client_metrics_def clear_resps_def)

lemma length_shorten [simp]: "length (shorten d evs) = length evs"
  by (simp add: shorten_def split: list.split prod.split)

function await ::
  "client_ctx \<Rightarrow> (client_state \<Rightarrow> 'a option) \<Rightarrow> duration option \<Rightarrow> script \<Rightarrow> client_state
     \<Rightarrow> 'a option \<times> script \<times> client_state" where
  \<comment> \<open>until \<open>ready\<close> has a value, at most \<open>limit\<close> long; \<open>None\<close> when the time is over, or when there is
      no limit and nothing more happens\<close>
  "await cx ready limit evs s =
     (case ready s of
        Some a \<Rightarrow> (Some a, evs, s)
      | None \<Rightarrow>
          (case heartbeat_due limit evs s of
             Some d \<Rightarrow>
               await cx ready (map_option (\<lambda>l. l - d) limit) (shorten d evs) (stop_control (pass d s))
           | None \<Rightarrow>
               if times_out limit evs then (None, shorten (the limit) evs, pass (the limit) s)
               else (case evs of
                       [] \<Rightarrow> (None, [], s)
                     | (w, ev) # rest \<Rightarrow>
                         await cx ready (map_option (\<lambda>l. l - w) limit) rest
                           (client_turn cx ev (pass w s)))))"
  by pat_completeness auto

termination
  by (relation "measure (\<lambda>(_, _, _, evs, s). 2 * length evs + (if ck_heartbeat s = None then 0 else 1))")
    (auto simp: heartbeat_due_def Let_def split: option.splits if_splits)

declare await.simps [simp del]

section \<open>What an event changes\<close>

lemma on_client_metrics_frame [simp]:
  "ck_now (on_client_metrics f s) = ck_now s" "ck_running (on_client_metrics f s) = ck_running s"
  "ck_resps (on_client_metrics f s) = ck_resps s" "ck_oneshots (on_client_metrics f s) = ck_oneshots s"
  "ck_next_oneshot (on_client_metrics f s) = ck_next_oneshot s"
  "ck_heartbeat (on_client_metrics f s) = ck_heartbeat s" "ck_tx (on_client_metrics f s) = ck_tx s"
  "ck_registered (on_client_metrics f s) = ck_registered s"
  "ck_shutdown (on_client_metrics f s) = ck_shutdown s"
  by (simp_all add: on_client_metrics_def)

lemma stop_control_frame [simp]:
  "ck_now (stop_control s) = ck_now s" "ck_running (stop_control s) = False"
  "ck_next_oneshot (stop_control s) = ck_next_oneshot s"
  "ck_registered (stop_control s) = ck_registered s" "ck_tx (stop_control s) = close_chan (ck_tx s)"
  "ck_shutdown (stop_control s) = ck_shutdown s"
  by (simp_all add: stop_control_def Let_def clear_resps_def)

lemma pass_frame [simp]:
  "ck_now (pass d s) = ck_now s + d" "ck_running (pass d s) = ck_running s"
  "ck_resps (pass d s) = ck_resps s" "ck_oneshots (pass d s) = ck_oneshots s"
  "ck_next_oneshot (pass d s) = ck_next_oneshot s" "ck_heartbeat (pass d s) = ck_heartbeat s"
  "ck_tx (pass d s) = ck_tx s" "ck_registered (pass d s) = ck_registered s"
  "ck_shutdown (pass d s) = ck_shutdown s"
  by (simp_all add: pass_def)

lemma work_task_cases:
  "\<exists>f r. work_task cx i env s = on_client_metrics f (s\<lparr>ck_spawned := r\<rparr>)"
proof (cases "i < length (ck_spawned s)")
  case True
  let ?s = "s\<lparr>ck_spawned := take i (ck_spawned s) @ drop (Suc i) (ck_spawned s)\<rparr>"
  have m: "t = on_client_metrics (\<lambda>m. m) t" for t by (simp add: on_client_metrics_def)
  obtain r s' where h: "handle_work_conn (cx_json cx) (cx_display cx) env (ck_spawned s ! i) ?s = (r, s')"
    by fastforce
  from handle_work_conn_state [OF this] m [of ?s] have "\<exists>f. s' = on_client_metrics f ?s" by metis
  with True h show ?thesis by (auto simp: work_task_def)
next
  case False
  then have "work_task cx i env s = on_client_metrics (\<lambda>m. m) (s\<lparr>ck_spawned := ck_spawned s\<rparr>)"
    by (simp add: work_task_def on_client_metrics_def)
  then show ?thesis by blast
qed

lemma work_task_frame [simp]:
  "ck_now (work_task cx i env s) = ck_now s" "ck_running (work_task cx i env s) = ck_running s"
  "ck_resps (work_task cx i env s) = ck_resps s" "ck_oneshots (work_task cx i env s) = ck_oneshots s"
  "ck_next_oneshot (work_task cx i env s) = ck_next_oneshot s"
  "ck_heartbeat (work_task cx i env s) = ck_heartbeat s" "ck_tx (work_task cx i env s) = ck_tx s"
  "ck_registered (work_task cx i env s) = ck_registered s"
  "ck_shutdown (work_task cx i env s) = ck_shutdown s"
  using work_task_cases [of cx i env s] by auto

lemmas client_event_defs = client_turn_def control_event_def client_message_def outbound_def
  heartbeat_tick_def answer_resp_def Let_def case_prod_beta

lemma client_turn_now [simp]: "ck_now (client_turn cx ev s) = ck_now s"
  by (auto simp: client_event_defs split: client_event.split sum.split message.split option.split list.split)

lemma client_turn_registered [simp]: "ck_registered (client_turn cx ev s) = ck_registered s"
  by (auto simp: client_event_defs split: client_event.split sum.split message.split option.split list.split)

lemma client_turn_next [simp]: "ck_next_oneshot (client_turn cx ev s) = ck_next_oneshot s"
  by (auto simp: client_event_defs split: client_event.split sum.split message.split option.split list.split)

section \<open>Invariants of a wait\<close>

text \<open>
  What every event and the watchdog keep, in whatever order, a wait keeps; \<open>P\<close> may speak about
  the clock.
\<close>

lemma events_shorten [simp]: "snd ` set (shorten d evs) = snd ` set evs"
  by (cases evs) (simp_all add: shorten_def case_prod_beta)

lemma await_keeps_events:
  assumes turn: "\<And>ev s. P s \<Longrightarrow> ev \<in> snd ` set evs \<Longrightarrow> P (client_turn cx ev s)"
    and stop: "\<And>s. P s \<Longrightarrow> P (stop_control s)" and time: "\<And>d s. P s \<Longrightarrow> P (pass d s)"
  shows "P s \<Longrightarrow> P (snd (snd (await cx ready limit evs s))) \<and>
    snd ` set (fst (snd (await cx ready limit evs s))) \<subseteq> snd ` set evs"
  using turn
proof (induction cx ready limit evs s rule: await.induct [case_names await])
  case (await cx ready limit evs s)
  note turn = await.prems(2)
  show ?case
  proof (cases "ready s")
    case None
    note n = None
    show ?thesis
    proof (cases "heartbeat_due limit evs s")
      case (Some d)
      have "P (stop_control (pass d s))" using await.prems(1) by (intro stop time)
      with await.IH(2) [OF n Some this] n Some turn show ?thesis
        by (simp add: await.simps [of cx ready limit evs s])
    next
      case None
      show ?thesis
      proof (cases "times_out limit evs \<or> evs = []")
        case True
        with n None await.prems(1) show ?thesis
          by (auto simp: await.simps [of cx ready limit evs s] time split: list.split)
      next
        case False
        then obtain w ev rest where e: "evs = (w, ev) # rest" by (cases evs) auto
        have "P (client_turn cx ev (pass w s))" using await.prems(1) e by (intro turn time) auto
        from await.IH(1) [OF n None _ e refl this] False turn e
        have "P (snd (snd (await cx ready (map_option (\<lambda>l. l - w) limit) rest (client_turn cx ev (pass w s))))) \<and>
          snd ` set (fst (snd (await cx ready (map_option (\<lambda>l. l - w) limit) rest
            (client_turn cx ev (pass w s))))) \<subseteq> snd ` set rest"
          by simp
        moreover have "await cx ready limit evs s =
            await cx ready (map_option (\<lambda>l. l - w) limit) rest (client_turn cx ev (pass w s))"
          using n None False by (simp add: e await.simps [of cx ready limit "(w, ev) # rest" s])
        ultimately show ?thesis using e by auto
      qed
    qed
  qed (simp add: await.simps [of cx ready limit evs s] await.prems)
qed

lemma await_keeps:
  assumes "\<And>ev s. P s \<Longrightarrow> P (client_turn cx ev s)" and "\<And>s. P s \<Longrightarrow> P (stop_control s)"
    and "\<And>d s. P s \<Longrightarrow> P (pass d s)"
  shows "P s \<Longrightarrow> P (snd (snd (await cx ready limit evs s)))"
  using await_keeps_events [where P = P, of evs cx s ready limit] assms by blast

lemma await_events: "snd ` set (fst (snd (await cx ready limit evs s))) \<subseteq> snd ` set evs"
  using await_keeps_events [where P = "\<lambda>_. True"] by blast

lemma await_clock:
  "await cx ready limit evs s = (r, evs', s') \<Longrightarrow> ck_now s \<le> ck_now s'"
  using await_keeps [where P = "\<lambda>t. ck_now s \<le> ck_now t" and cx = cx and ready = ready and limit = limit
      and evs = evs and s = s] by simp

lemma await_limit:
  "await cx ready limit evs s = (r, evs', s') \<Longrightarrow> limit = Some l \<Longrightarrow> ck_now s' \<le> ck_now s + l"
proof (induction cx ready limit evs s arbitrary: l rule: await.induct [case_names await])
  case (await cx ready limit evs s)
  show ?case
  proof (cases "ready s")
    case None
    note n = None
    show ?thesis
    proof (cases "heartbeat_due limit evs s")
      case (Some d)
      with n await.prems have "await cx ready (Some (l - d)) (shorten d evs) (stop_control (pass d s)) = (r, evs', s')"
        by (simp add: await.simps [of cx ready "Some l" evs s])
      moreover have "d < l" using Some await.prems(2)
        by (auto simp: heartbeat_due_def sooner_def Let_def split: option.splits if_splits)
      ultimately show ?thesis using await.IH(2) [OF n Some] await.prems(2) by fastforce
    next
      case None
      show ?thesis
      proof (cases "times_out limit evs")
        case False
        show ?thesis
        proof (cases evs)
          case Nil
          with n None False await.prems show ?thesis by (auto simp: await.simps [of cx ready "Some l" "[]" s])
        next
          case (Cons x rest)
          obtain w ev where x: "x = (w, ev)" by fastforce
          with n None False await.prems have "await cx ready (Some (l - w)) rest (client_turn cx ev (pass w s)) = (r, evs', s')"
            by (simp add: Cons await.simps [of cx ready "Some l" "(w, ev) # rest" s])
          moreover have "w \<le> l" using False await.prems(2) Cons x
            by (auto simp: times_out_def sooner_def next_wait_def)
          ultimately show ?thesis
            using await.IH(1) [OF n None False Cons x [symmetric]] x await.prems(2) by fastforce
        qed
      qed (use n None await.prems in \<open>auto simp: await.simps [of cx ready "Some l" evs s]\<close>)
    qed
  qed (use await.prems in \<open>auto simp: await.simps [of cx ready "Some l" evs s]\<close>)
qed

lemma await_timeout:
  "await cx ready limit evs s = (None, evs', s') \<Longrightarrow> limit = Some l \<Longrightarrow> ck_now s' = ck_now s + l"
proof (induction cx ready limit evs s arbitrary: l rule: await.induct [case_names await])
  case (await cx ready limit evs s)
  from await.prems(1) have n: "ready s = None" by (auto simp: await.simps [of cx ready limit evs s] split: option.splits)
  show ?case
  proof (cases "heartbeat_due limit evs s")
    case (Some d)
    with n await.prems(1) have "await cx ready (map_option (\<lambda>l. l - d) limit) (shorten d evs)
        (stop_control (pass d s)) = (None, evs', s')"
      by (simp only: await.simps [of cx ready limit evs s] option.case)
    moreover have "d < l" using Some await.prems(2)
      by (auto simp: heartbeat_due_def sooner_def Let_def split: option.splits if_splits)
    ultimately show ?thesis using await.IH(2) [OF n Some] await.prems(2) by fastforce
  next
    case None
    show ?thesis
    proof (cases "times_out limit evs")
      case False
      with await.prems(2) obtain w ev rest where e: "evs = (w, ev) # rest"
        by (cases evs) (auto simp: times_out_def sooner_def next_wait_def)
      with n None False await.prems(1)
      have "await cx ready (map_option (\<lambda>l. l - w) limit) rest (client_turn cx ev (pass w s)) = (None, evs', s')"
        by (simp add: await.simps [of cx ready limit "(w, ev) # rest" s])
      moreover have "w \<le> l" using False await.prems(2) e by (auto simp: times_out_def sooner_def next_wait_def)
      ultimately show ?thesis using await.IH(1) [OF n None False e refl] await.prems(2) by fastforce
    next
      case True
      with n None await.prems(1) have "s' = pass (the limit) s" by (simp add: await.simps [of cx ready limit evs s])
      then show ?thesis using await.prems(2) by simp
    qed
  qed
qed

section \<open>The one-shot table\<close>

definition only_removed :: "client_state \<Rightarrow> client_state \<Rightarrow> bool" where
  \<comment> \<open>\<open>t\<close> has no sender that \<open>s\<close> did not have under that name\<close>
  "only_removed s t \<longleftrightarrow>
     resps_ok t \<and> (\<forall>n i. hm_get (ck_resps t) n = Some i \<longrightarrow> hm_get (ck_resps s) n = Some i)"

lemma only_removed_cong:
  "ck_resps t' = ck_resps t \<Longrightarrow> ck_oneshots t' = ck_oneshots t \<Longrightarrow>
   ck_next_oneshot t' = ck_next_oneshot t \<Longrightarrow> only_removed s t \<Longrightarrow> only_removed s t'"
  by (simp add: only_removed_def resps_ok_def)

lemma only_removed_frame [simp]:
  "only_removed s (t\<lparr>ck_running := x0\<rparr>) = only_removed s t"
  "only_removed s (t\<lparr>ck_heartbeat := x1\<rparr>) = only_removed s t"
  "only_removed s (t\<lparr>ck_tx := x2\<rparr>) = only_removed s t"
  "only_removed s (t\<lparr>ck_out := x3\<rparr>) = only_removed s t"
  "only_removed s (t\<lparr>ck_pong_ts := x4\<rparr>) = only_removed s t"
  "only_removed s (t\<lparr>ck_spawned := x5\<rparr>) = only_removed s t"
  "only_removed s (t\<lparr>ck_shutdown := x6\<rparr>) = only_removed s t"
  "only_removed s (t\<lparr>ck_login_tx := x7\<rparr>) = only_removed s t"
  "only_removed s (t\<lparr>ck_login := x8\<rparr>) = only_removed s t"
  "only_removed s (t\<lparr>ck_metrics := x9\<rparr>) = only_removed s t"
  "only_removed s (t\<lparr>ck_now := x10\<rparr>) = only_removed s t"
  "only_removed s (t\<lparr>ck_ended := x11\<rparr>) = only_removed s t"
  "only_removed s (on_client_metrics f t) = only_removed s t" "only_removed s (pass d t) = only_removed s t"
  "only_removed s (work_task cx i env t) = only_removed s t"
  by (simp_all add: only_removed_def resps_ok_def)

lemma only_removed_clear: "only_removed s t \<Longrightarrow> only_removed s (clear_resps t)"
  using clear_resps_ok [of t] by (auto simp: only_removed_def clear_resps_def)

lemma only_removed_answer: "only_removed s t \<Longrightarrow> only_removed s (answer_resp r t)"
  using answer_resp_ok [of t r] by (auto simp: only_removed_def answer_resp_def split: option.splits if_splits)

lemma only_removed_stop: "only_removed s t \<Longrightarrow> only_removed s (stop_control t)"
  by (simp add: stop_control_def Let_def only_removed_clear)

lemma only_removed_turn:
  assumes "only_removed s t"
  shows "only_removed s (client_turn cx ev t)"
proof -
  have "only_removed s (client_message msg n t)" for msg n
    using assms by (auto simp: client_message_def Let_def only_removed_answer only_removed_stop
        split: message.split option.split)
  moreover have "only_removed s (outbound n t)" "only_removed s (heartbeat_tick d ts n t)" for n d ts
    using assms by (auto simp: outbound_def heartbeat_tick_def Let_def case_prod_beta only_removed_stop
        split: list.split message.split)
  ultimately show ?thesis
    using assms by (auto simp: client_turn_def control_event_def Let_def only_removed_stop
        split: client_event.split sum.split)
qed

lemma await_only_removed:
  assumes "resps_ok s" and "await cx ready limit evs s = (r, evs', s')"
  shows "only_removed s s'"
proof -
  have "only_removed s s" using assms(1) by (simp add: only_removed_def)
  with await_keeps [where P = "only_removed s", OF only_removed_turn only_removed_stop] assms(2) show ?thesis
    by (metis only_removed_frame(14) snd_conv)
qed

section \<open>The watchdog\<close>

definition answers :: "client_ctx \<Rightarrow> u64 \<Rightarrow> client_event \<Rightarrow> bool" where
  \<comment> \<open>the event is an answer to the heartbeat of time \<open>ts\<close>, or a later one\<close>
  "answers cx ts ev =
     (case ev of
        Incoming f _ \<Rightarrow>
          (case from_frame (cx_json cx) f of Inr (HeartbeatResp ts') \<Rightarrow> ts \<le> ts' | _ \<Rightarrow> False)
      | _ \<Rightarrow> False)"

definition stopped :: "client_state \<Rightarrow> unit option" where
  \<comment> \<open>what \<open>ctrl.await\<close> waits for\<close>
  "stopped s = (if ck_running s then None else Some ())"

lemma stopped_simps [simp]:
  "ck_running s \<Longrightarrow> stopped s = None" "\<not> ck_running s \<Longrightarrow> stopped s = Some ()"
  by (simp_all add: stopped_def)

lemma client_turn_waiting:
  assumes "ck_heartbeat s = Some (ts, deadline)" and "\<not> answers cx ts ev" and "ck_running s"
  shows "\<not> ck_running (client_turn cx ev s) \<or>
    ck_running (client_turn cx ev s) \<and> ck_heartbeat (client_turn cx ev s) = Some (ts, deadline)"
  using assms
  by (auto simp: client_event_defs answers_def
      split: client_event.split sum.split message.split option.split list.split)

lemma await_watchdog:
  assumes "ck_heartbeat s = Some (ts, deadline)" and "ck_running s" and "ck_now s \<le> deadline"
    and "\<forall>(w, ev) \<in> set evs. \<not> answers cx ts ev"
  shows "\<exists>evs' s'. await cx stopped None evs s = (Some (), evs', s') \<and> ck_now s' \<le> deadline"
  using assms
proof (induction evs arbitrary: s)
  case Nil
  then have "heartbeat_due None [] s = Some (deadline - ck_now s)"
    by (simp add: heartbeat_due_def sooner_def next_wait_def Let_def)
  with Nil.prems show ?case
    by (simp add: await.simps [of cx stopped None "[]" s] await.simps [of cx stopped None "shorten d []" for d])
next
  case (Cons x evs)
  obtain w ev where x: "x = (w, ev)" by fastforce
  show ?case
  proof (cases "deadline - ck_now s < w")
    case True
    with Cons.prems x have "heartbeat_due None (x # evs) s = Some (deadline - ck_now s)"
      by (simp add: heartbeat_due_def sooner_def next_wait_def Let_def)
    with Cons.prems show ?thesis
      by (simp add: await.simps [of cx stopped None "x # evs" s]
          await.simps [of cx stopped None "shorten d (x # evs)" for d])
  next
    case False
    let ?s = "client_turn cx ev (pass w s)"
    from False Cons.prems x have "heartbeat_due None (x # evs) s = None"
      by (simp add: heartbeat_due_def sooner_def next_wait_def Let_def)
    with Cons.prems(2) x have e: "await cx stopped None (x # evs) s = await cx stopped None evs ?s"
      by (simp add: await.simps [of cx stopped None "(w, ev) # evs" s] times_out_def)
    have now: "ck_now ?s \<le> deadline" using False Cons.prems(3) by simp
    from Cons.prems x have "\<not> ck_running ?s \<or> ck_running ?s \<and> ck_heartbeat ?s = Some (ts, deadline)"
      by (intro client_turn_waiting) auto
    then show ?thesis
    proof
      assume "\<not> ck_running ?s"
      with e now show ?thesis by (simp add: await.simps [of cx stopped None evs ?s])
    next
      assume "ck_running ?s \<and> ck_heartbeat ?s = Some (ts, deadline)"
      with Cons.IH [of ?s] now Cons.prems(4) e show ?thesis by auto
    qed
  qed
qed


definition demo_config :: client_config where
  "demo_config =
     \<lparr>cc_client = \<lparr>server_addr = ''127.0.0.1'', server_port = 7000, cl_token = ''t'',
        cl_tls_enable = False, tls_server_name = None, tls_ca = None, cl_work_conn_tls = False,
        run_id_file = None, cl_tcp_keepalive_secs = None, cl_heartbeat_interval_secs = None,
        cl_heartbeat_timeout_secs = None, status_addr = None\<rparr>,
      cc_proxies = [], cc_log = log_default\<rparr>"

definition demo_client :: client_state where
  "demo_client =
     client_state_new \<lparr>sa_ip = V4 [127, 0, 0, 1], sa_port = 7000\<rparr> ''r'' demo_config None
       (client_metrics_new 0) 0"


end
