(* ===== verification/ClientReg.thy ===== *)
theory ClientReg
  imports ClientControl
begin

text \<open>
  Registering the configured proxies and retrying those that were refused
  (\<open>register_one_proxy\<close>, \<open>retry_loop\<close> and \<open>retry_registration\<close> of \<open>rfrpc/src/client.rs\<close>). The
  connection goes on while a registration waits: its events come from the script.
\<close>

datatype register_outcome = RegOk | Retryable | Persistent | RegFailed | ConnLost

definition new_proxy_from_config :: "client_proxy \<Rightarrow> new_proxy" where
  "new_proxy_from_config p =
     \<lparr>np_proxy_name = cp_name p, np_type = cp_type p, np_remote_port = cp_remote_port p,
      np_custom_domains = cp_custom_domains p\<rparr>"

definition spawn_preheat :: "client_proxy \<Rightarrow> client_state \<Rightarrow> client_state" where
  "spawn_preheat p s =
     s\<lparr>ck_spawned := ck_spawned s @ replicate (unat (pool_size p))
         \<lparr>rw_proxy_name = cp_name p, rw_work_id = WORK_ID_POOL_RESERVED\<rparr>\<rparr>"

definition tx_room :: "client_state \<Rightarrow> bool option" where
  \<comment> \<open>what \<open>tx.send\<close> waits for: room, or the end of the receiver\<close>
  "tx_room s =
     (if ch_closed (ck_tx s) then Some False
      else if length (ch_queue (ck_tx s)) < ch_cap (ck_tx s) then Some True else None)"

definition send_tx ::
  "client_ctx \<Rightarrow> message \<Rightarrow> script \<Rightarrow> client_state \<Rightarrow> bool \<times> script \<times> client_state" where
  \<comment> \<open>\<open>send_with_timeout(tx, msg)\<close>\<close>
  "send_tx cx msg evs s =
     (case await cx tx_room (Some (from_secs CONTROL_SEND_TIMEOUT)) evs s of
        (Some True, evs, s) \<Rightarrow> (True, evs, s\<lparr>ck_tx := snd (try_send msg (ck_tx s))\<rparr>)
      | (_, evs, s) \<Rightarrow> (False, evs, s))"

definition resp_ready :: "nat \<Rightarrow> client_state \<Rightarrow> new_proxy_resp option option" where
  \<comment> \<open>the receiver of one-shot \<open>i\<close>: an answer, or \<open>Some None\<close> when the sender was dropped\<close>
  "resp_ready i s =
     (case ck_oneshots s i of
        OsOpen \<Rightarrow> None
      | OsSent r \<Rightarrow> Some (Some r)
      | OsDropped \<Rightarrow> Some None)"

definition is_some_and :: "'a option \<Rightarrow> ('a \<Rightarrow> bool) \<Rightarrow> bool" where
  "is_some_and x P = (case x of None \<Rightarrow> False | Some a \<Rightarrow> P a)"

definition classify_rejection :: "string option \<Rightarrow> register_outcome" where
  "classify_rejection err =
     (let code = Option.bind err from_code in
      if is_some_and code is_retryable then Retryable
      else if is_some_and code is_persistently_retryable then Persistent
      else RegFailed)"

definition register_one_proxy ::
  "client_ctx \<Rightarrow> client_proxy \<Rightarrow> script \<Rightarrow> client_state
     \<Rightarrow> register_outcome \<times> script \<times> client_state" where
  "register_one_proxy cx p evs s =
     (let (i, s) = insert_resp (cp_name p) s in
      case send_tx cx (NewProxy (new_proxy_from_config p)) evs s of
        (False, evs, s) \<Rightarrow> (ConnLost, evs, remove_resp (cp_name p) s)
      | (True, evs, s) \<Rightarrow>
          (case await cx (resp_ready i) (Some (from_secs NEW_PROXY_TIMEOUT)) evs s of
             (Some (Some r), evs, s) \<Rightarrow>
               if nr_ok r then (RegOk, evs, spawn_preheat p s)
               else (classify_rejection (nr_error r), evs, on_client_metrics inc_proxy_register_failure s)
           | (Some None, evs, s) \<Rightarrow> (RegFailed, evs, remove_resp (cp_name p) s)
           | (None, evs, s) \<Rightarrow> (Retryable, evs, remove_resp (cp_name p) s)))"

section \<open>Registering all proxies\<close>

fun register_all ::
  "client_ctx \<Rightarrow> client_proxy list \<Rightarrow> client_proxy list \<Rightarrow> client_proxy list \<Rightarrow> script \<Rightarrow> client_state
     \<Rightarrow> (client_proxy list \<times> client_proxy list) option \<times> script \<times> client_state" where
  \<comment> \<open>the loop of \<open>connect_once\<close> with its two lists; \<open>None\<close> is the \<open>bail!\<close>\<close>
  "register_all cx [] retryable persistent evs s = (Some (retryable, persistent), evs, s)"
| "register_all cx (p # ps) retryable persistent evs s =
     (case register_one_proxy cx p evs s of
        (ConnLost, evs, s) \<Rightarrow> (None, evs, s)
      | (Retryable, evs, s) \<Rightarrow> register_all cx ps (retryable @ [p]) persistent evs s
      | (Persistent, evs, s) \<Rightarrow> register_all cx ps retryable (persistent @ [p]) evs s
      | (_, evs, s) \<Rightarrow> register_all cx ps retryable persistent evs s)"

section \<open>Retrying\<close>

fun retry_round ::
  "client_ctx \<Rightarrow> client_proxy list \<Rightarrow> client_proxy list \<Rightarrow> script \<Rightarrow> client_state
     \<Rightarrow> client_proxy list option \<times> script \<times> client_state" where
  \<comment> \<open>one round over the pending proxies, with those that are still refused\<close>
  "retry_round cx [] still evs s = (Some still, evs, s)"
| "retry_round cx (p # ps) still evs s =
     (case register_one_proxy cx p evs s of
        (RegOk, evs, s) \<Rightarrow>
          retry_round cx ps still evs (on_client_metrics inc_proxy_register_retry_success s)
      | (ConnLost, evs, s) \<Rightarrow> (None, evs, s)
      | (_, evs, s) \<Rightarrow> retry_round cx ps (still @ [p]) evs s)"

definition shutting_down :: "client_state \<Rightarrow> unit option" where
  "shutting_down s = (if ck_shutdown s then Some () else None)"

fun retry_rounds ::
  "client_ctx \<Rightarrow> nat \<Rightarrow> duration \<Rightarrow> duration \<Rightarrow> client_proxy list \<Rightarrow> script \<Rightarrow> client_state
     \<Rightarrow> script \<times> client_state" where
  \<comment> \<open>the rounds that are left, the next delay\<close>
  "retry_rounds cx 0 delay max_delay ps evs s = (evs, s)"
| "retry_rounds cx (Suc rounds) delay max_delay ps evs s =
     (case await cx shutting_down (Some delay) evs s of
        (Some _, evs, s) \<Rightarrow> (evs, s)
      | (None, evs, s) \<Rightarrow>
          (case retry_round cx ps [] evs s of
             (None, evs, s) \<Rightarrow> (evs, s)
           | (Some still, evs, s) \<Rightarrow>
               if still = [] then (evs, s)
               else retry_rounds cx rounds (min (delay * 2) max_delay) max_delay still evs s))"

definition retry_loop ::
  "client_ctx \<Rightarrow> client_proxy list \<Rightarrow> duration \<Rightarrow> duration \<Rightarrow> nat \<Rightarrow> script \<Rightarrow> client_state
     \<Rightarrow> script \<times> client_state" where
  "retry_loop cx ps initial max_delay rounds evs s =
     (if ps = [] then (evs, s) else retry_rounds cx rounds initial max_delay ps evs s)"

definition retry_registration ::
  "client_ctx \<Rightarrow> client_proxy list \<Rightarrow> client_proxy list \<Rightarrow> script \<Rightarrow> client_state
     \<Rightarrow> script \<times> client_state" where
  "retry_registration cx retryable persistent evs s =
     (let (evs, s) = retry_loop cx retryable (from_secs PROXY_REGISTER_RETRY_INITIAL)
                       (from_secs PROXY_REGISTER_RETRY_MAX_DELAY) PROXY_REGISTER_RETRY_MAX evs s
      in retry_loop cx persistent (from_secs PROXY_REGISTER_RETRY_PERSISTENT_DELAY_SECS)
           (from_secs PROXY_REGISTER_RETRY_PERSISTENT_DELAY_SECS) PROXY_REGISTER_RETRY_PERSISTENT_MAX
           evs s)"

section \<open>Facts\<close>

lemma on_metrics_resps [simp]: "resps_ok (on_client_metrics f s) = resps_ok s"
  by (simp add: resps_ok_def)

lemma spawn_preheat_frame [simp]:
  "ck_resps (spawn_preheat p s) = ck_resps s" "resps_ok (spawn_preheat p s) = resps_ok s"
  "ck_now (spawn_preheat p s) = ck_now s" "ck_running (spawn_preheat p s) = ck_running s"
  by (simp_all add: spawn_preheat_def resps_ok_def)

lemma drop_sender_now [simp]: "ck_now (drop_sender i s) = ck_now s"
  by (simp add: drop_sender_def split: option.split)

lemma remove_resp_frame [simp]:
  "hm_get (ck_resps (remove_resp n s)) n' = (if n' = n then None else hm_get (ck_resps s) n')"
  "ck_now (remove_resp n s) = ck_now s"
  by (simp_all add: remove_resp_def)

lemma insert_resp_frame [simp]:
  "hm_get (ck_resps (snd (insert_resp n s))) n' = (if n' = n then Some (fst (insert_resp n s)) else hm_get (ck_resps s) n')"
  "ck_now (snd (insert_resp n s)) = ck_now s"
  by (simp_all add: insert_resp_def Let_def)

lemma send_tx_only_removed:
  assumes "resps_ok s" and "send_tx cx msg evs s = (b, evs', s')"
  shows "only_removed s s'"
  using assms(2) await_only_removed [OF assms(1)]
  by (auto simp: send_tx_def split: prod.splits option.splits bool.splits)

lemma send_tx_time:
  "send_tx cx msg evs s = (b, evs', s') \<Longrightarrow> ck_now s' \<le> ck_now s + from_secs CONTROL_SEND_TIMEOUT"
  unfolding send_tx_def
  by (auto split: prod.splits option.splits bool.splits dest!: await_limit [OF _ refl])

text \<open>A value that a wait returns was ready in the state it returns.\<close>

lemma await_ready: "await cx ready limit evs s = (Some a, evs', s') \<Longrightarrow> ready s' = Some a"
proof (induction cx ready limit evs s rule: await.induct [case_names await])
  case (await cx ready limit evs s)
  show ?case
  proof (cases "ready s")
    case None
    note n = None
    show ?thesis
    proof (cases "heartbeat_due limit evs s")
      case (Some d)
      with n await show ?thesis by (simp add: await.simps [of cx ready limit evs s])
    next
      case None
      with n await.prems obtain w ev rest where "\<not> times_out limit evs" "evs = (w, ev) # rest"
        "await cx ready (map_option (\<lambda>l. l - w) limit) rest (client_turn cx ev (pass w s)) = (Some a, evs', s')"
        by (auto simp: await.simps [of cx ready limit evs s] split: if_splits list.splits)
      with await.IH(1) [OF n None] show ?thesis by blast
    qed
  qed (use await.prems in \<open>simp add: await.simps [of cx ready limit evs s]\<close>)
qed

lemma registration_state:
  assumes "resps_ok s" and "register_one_proxy cx p evs s = (r, evs', s')"
  shows "resps_ok s' \<and> hm_get (ck_resps s') (cp_name p) = None \<and>
    (\<forall>n i. hm_get (ck_resps s') n = Some i \<longrightarrow> hm_get (ck_resps s) n = Some i)"
proof -
  obtain i s1 where i: "insert_resp (cp_name p) s = (i, s1)" by fastforce
  have ok1: "resps_ok s1" using insert_resp_ok [OF assms(1), of "cp_name p"] i by simp
  have get1: "hm_get (ck_resps s1) n = (if n = cp_name p then Some i else hm_get (ck_resps s) n)" for n
    using insert_resp_frame(1) [of "cp_name p" s n] i by simp
  obtain b evs2 s2 where t: "send_tx cx (NewProxy (new_proxy_from_config p)) evs s1 = (b, evs2, s2)"
    by (metis prod_cases3)
  have o2: "only_removed s1 s2" by (rule send_tx_only_removed [OF ok1 t])
  then have ok2: "resps_ok s2" by (simp add: only_removed_def)
  show ?thesis
  proof (cases b)
    case False
    with assms(2) i t have "s' = remove_resp (cp_name p) s2" by (simp add: register_one_proxy_def)
    with remove_resp_ok [OF ok2] o2 get1 show ?thesis by (auto simp: only_removed_def split: if_splits)
  next
    case True
    obtain w evs3 s3 where a: "await cx (resp_ready i) (Some (from_secs NEW_PROXY_TIMEOUT)) evs2 s2 = (w, evs3, s3)"
      by (metis prod_cases3)
    have o3: "only_removed s2 s3" by (rule await_only_removed [OF ok2 a])
    then have ok3: "resps_ok s3" and sub: "hm_get (ck_resps s3) n = Some k \<Longrightarrow> hm_get (ck_resps s1) n = Some k" for n k
      using o2 by (auto simp: only_removed_def)
    have base: "hm_get (ck_resps s3) n = Some k \<Longrightarrow> n \<noteq> cp_name p \<Longrightarrow> hm_get (ck_resps s) n = Some k" for n k
      using sub [of n k] get1 [of n] by simp
    show ?thesis
    proof (cases "\<exists>x. w = Some (Some x)")
      case True
      then obtain x where x: "w = Some (Some x)" by blast
      from await_ready [of cx "resp_ready i"] a x have "ck_oneshots s3 i = OsSent x"
        by (fastforce simp: resp_ready_def split: oneshot.splits)
      then have "hm_get (ck_resps s3) (cp_name p) \<noteq> Some i" using resps_okD(1) [OF ok3] by auto
      then have "hm_get (ck_resps s3) (cp_name p) = None"
        using sub [of "cp_name p"] get1 [of "cp_name p"] by (cases "hm_get (ck_resps s3) (cp_name p)") auto
      moreover from this have "hm_get (ck_resps s3) n = Some k \<Longrightarrow> hm_get (ck_resps s) n = Some k" for n k
        using base by (cases "n = cp_name p") auto
      ultimately show ?thesis
        using ok3 x a t i \<open>b\<close> assms(2) by (auto simp: register_one_proxy_def split: if_splits)
    next
      case False
      with a t i \<open>b\<close> assms(2) have "s' = remove_resp (cp_name p) s3"
        by (auto simp: register_one_proxy_def split: option.splits)
      with remove_resp_ok [OF ok3] base show ?thesis by (auto split: if_splits)
    qed
  qed
qed

section \<open>What an outcome is based on\<close>

definition told :: "client_ctx \<Rightarrow> script \<Rightarrow> new_proxy_resp \<Rightarrow> bool" where
  \<comment> \<open>the script delivers this answer\<close>
  "told cx evs x \<longleftrightarrow>
     (\<exists>f n. Incoming f n \<in> snd ` set evs \<and> from_frame (cx_json cx) f = Inr (NewProxyResp x))"

definition awaiting :: "client_ctx \<Rightarrow> string \<Rightarrow> nat \<Rightarrow> script \<Rightarrow> client_state \<Rightarrow> bool" where
  \<comment> \<open>one-shot \<open>i\<close> is known under this name only, and holds nothing the script did not deliver for it\<close>
  "awaiting cx name i evs t \<longleftrightarrow>
     (\<forall>n. hm_get (ck_resps t) n = Some i \<longrightarrow> n = name) \<and>
     (\<forall>x. ck_oneshots t i = OsSent x \<longrightarrow> told cx evs x \<and> nr_proxy_name x = name)"

lemma awaiting_frame [simp]:
  "awaiting cx name i evs (on_client_metrics f t) = awaiting cx name i evs t"
  "awaiting cx name i evs (pass d t) = awaiting cx name i evs t"
  "awaiting cx name i evs (work_task cx k env t) = awaiting cx name i evs t"
  "awaiting cx name i evs (t\<lparr>ck_tx := x1\<rparr>) = awaiting cx name i evs t"
  "awaiting cx name i evs (t\<lparr>ck_out := x2\<rparr>) = awaiting cx name i evs t"
  "awaiting cx name i evs (t\<lparr>ck_heartbeat := x3\<rparr>) = awaiting cx name i evs t"
  "awaiting cx name i evs (t\<lparr>ck_pong_ts := x4\<rparr>) = awaiting cx name i evs t"
  "awaiting cx name i evs (t\<lparr>ck_spawned := x5\<rparr>) = awaiting cx name i evs t"
  "awaiting cx name i evs (t\<lparr>ck_shutdown := x6\<rparr>) = awaiting cx name i evs t"
  "awaiting cx name i evs (t\<lparr>ck_login_tx := x7\<rparr>) = awaiting cx name i evs t"
  "awaiting cx name i evs (t\<lparr>ck_login := x8\<rparr>) = awaiting cx name i evs t"
  "awaiting cx name i evs (t\<lparr>ck_running := x9\<rparr>) = awaiting cx name i evs t"
  "awaiting cx name i evs (t\<lparr>ck_ended := x10\<rparr>) = awaiting cx name i evs t"
  by (simp_all add: awaiting_def)

lemma awaiting_clear: "awaiting cx name i evs t \<Longrightarrow> awaiting cx name i evs (clear_resps t)"
  by (simp add: awaiting_def clear_resps_def)

lemma awaiting_stop: "awaiting cx name i evs t \<Longrightarrow> awaiting cx name i evs (stop_control t)"
  by (simp add: stop_control_def Let_def awaiting_clear)

lemma awaiting_answer:
  "awaiting cx name i evs t \<Longrightarrow> told cx evs r \<Longrightarrow> awaiting cx name i evs (answer_resp r t)"
  by (auto simp: awaiting_def answer_resp_def split: option.split)

lemma awaiting_turn:
  assumes "awaiting cx name i evs t" and "ev \<in> snd ` set evs"
  shows "awaiting cx name i evs (client_turn cx ev t)"
proof -
  have "awaiting cx name i evs (client_message msg n t)"
    if "ev = Incoming f n" "from_frame (cx_json cx) f = Inr msg" for f msg n
    using assms that awaiting_answer [OF assms(1)] awaiting_stop [OF assms(1)]
    by (auto simp: client_message_def told_def Let_def split: message.split option.split)
  then show ?thesis
    using assms(1)
    by (auto simp: client_turn_def control_event_def outbound_def heartbeat_tick_def Let_def
        case_prod_beta awaiting_stop split: client_event.split sum.split list.split message.split)
qed

lemma await_awaiting:
  assumes "awaiting cx name i evs s" and "await cx ready limit evs' s = (r, evs'', s')"
    and "snd ` set evs' \<subseteq> snd ` set evs"
  shows "awaiting cx name i evs s' \<and> snd ` set evs'' \<subseteq> snd ` set evs"
  using await_keeps_events [where P = "awaiting cx name i evs" and evs = evs' and cx = cx and s = s
      and ready = ready and limit = limit, OF awaiting_turn awaiting_stop] assms
  by (simp, blast)

lemma send_tx_failed:
  assumes "send_tx cx msg evs s = (False, evs', s')"
  shows "ch_closed (ck_tx s') \<or> ck_now s' = ck_now s + from_secs CONTROL_SEND_TIMEOUT"
proof -
  obtain w evs2 s2 where a: "await cx tx_room (Some (from_secs CONTROL_SEND_TIMEOUT)) evs s = (w, evs2, s2)"
    by (metis prod_cases3)
  with assms have s: "s2 = s'" "w \<noteq> Some True" by (auto simp: send_tx_def split: option.splits bool.splits)
  then consider "w = None" | "w = Some False" by (cases w) auto
  then show ?thesis
  proof cases
    case 1
    with await_timeout [OF a [unfolded 1] refl] s show ?thesis by simp
  next
    case 2
    with await_ready [OF a [unfolded 2]] s show ?thesis by (auto simp: tx_room_def split: if_splits)
  qed
qed

lemma send_tx_awaiting:
  assumes "awaiting cx name i evs s" and "send_tx cx msg evs' s = (b, evs'', s')"
    and "snd ` set evs' \<subseteq> snd ` set evs"
  shows "awaiting cx name i evs s' \<and> snd ` set evs'' \<subseteq> snd ` set evs"
proof -
  obtain w evs2 s2 where a: "await cx tx_room (Some (from_secs CONTROL_SEND_TIMEOUT)) evs' s = (w, evs2, s2)"
    by (metis prod_cases3)
  from await_awaiting [OF assms(1) a assms(3)] a assms(2) show ?thesis
    by (auto simp: send_tx_def split: option.splits bool.splits)
qed

lemma insert_resp_awaiting:
  assumes "resps_ok s" and "insert_resp name s = (i, s')"
  shows "awaiting cx name i evs s'"
  using assms resps_okD(2) [OF assms(1)]
  by (auto simp: insert_resp_def awaiting_def Let_def split: if_splits) blast

lemma as_str_eq_iff: "as_str e = as_str e' \<longleftrightarrow> e = e'"
  by (metis from_code_as_str option.inject)

lemma code_and:
  "is_some_and (Option.bind err from_code) P \<longleftrightarrow> (\<exists>e. err = Some (as_str e) \<and> P e)"
proof (cases err)
  case (Some c)
  then show ?thesis
    by (cases "from_code c") (auto simp: is_some_and_def as_str_eq_iff simp del: as_str.simps dest: from_code_Some)
qed (simp add: is_some_and_def)

lemma classify_cases:
  "classify_rejection err = Retryable \<longleftrightarrow> (\<exists>e. err = Some (as_str e) \<and> is_retryable e)"
  "classify_rejection err = Persistent \<longleftrightarrow> (\<exists>e. err = Some (as_str e) \<and> is_persistently_retryable e)"
  "classify_rejection err \<noteq> RegOk" "classify_rejection err \<noteq> ConnLost"
  by (auto simp: classify_rejection_def Let_def code_and as_str_eq_iff is_retryable_def
      is_persistently_retryable_def simp del: as_str.simps)

lemma registration_outcome:
  assumes "resps_ok s" and "register_one_proxy cx p evs s = (r, evs', s')"
  shows "case r of
      RegOk \<Rightarrow> \<exists>x. told cx evs x \<and> nr_proxy_name x = cp_name p \<and> nr_ok x
    | ConnLost \<Rightarrow> ch_closed (ck_tx s') \<or> ck_now s' = ck_now s + from_secs 5
    | _ \<Rightarrow>
        (\<exists>x. told cx evs x \<and> nr_proxy_name x = cp_name p \<and> \<not> nr_ok x \<and> classify_rejection (nr_error x) = r) \<or>
        (r = RegFailed \<and> (\<exists>i. ck_oneshots s' i = OsDropped)) \<or>
        (r = Retryable \<and> ck_now s + from_secs 10 \<le> ck_now s')" (is "?claim r s'")
proof -
  obtain i s1 where i: "insert_resp (cp_name p) s = (i, s1)" by fastforce
  have now1: "ck_now s1 = ck_now s" using insert_resp_frame(2) [of "cp_name p" s] i by simp
  obtain b evs2 s2 where t: "send_tx cx (NewProxy (new_proxy_from_config p)) evs s1 = (b, evs2, s2)"
    by (metis prod_cases3)
  show ?thesis
  proof (cases b)
    case False
    with assms(2) i t have "r = ConnLost" "s' = remove_resp (cp_name p) s2"
      by (simp_all add: register_one_proxy_def)
    with send_tx_failed [of cx _ evs s1 evs2 s2] t False now1 show ?thesis
      by (auto simp: remove_resp_def drop_sender_def CONTROL_SEND_TIMEOUT_def split: option.split)
  next
    case True
    obtain w evs3 s3 where a: "await cx (resp_ready i) (Some (from_secs NEW_PROXY_TIMEOUT)) evs2 s2 = (w, evs3, s3)"
      by (metis prod_cases3)
    have "awaiting cx (cp_name p) i evs s2 \<and> snd ` set evs2 \<subseteq> snd ` set evs"
      using send_tx_awaiting [OF insert_resp_awaiting [OF assms(1) i] t] by simp
    with await_awaiting [OF _ a] have s3: "awaiting cx (cp_name p) i evs s3" by blast
    have now2: "ck_now s \<le> ck_now s2" using t now1 await_clock
      by (fastforce simp: send_tx_def split: prod.splits option.splits bool.splits)
    consider "w = None" | "w = Some None" | x where "w = Some (Some x)" by (cases w) auto
    then show ?thesis
    proof cases
      case 1
      with a t i True assms(2) have "r = Retryable" "s' = remove_resp (cp_name p) s3"
        by (auto simp: register_one_proxy_def)
      with await_timeout [OF a [unfolded 1] refl] now2 show ?thesis by (simp add: NEW_PROXY_TIMEOUT_def)
    next
      case 2
      with a t i True assms(2) have "r = RegFailed" "s' = remove_resp (cp_name p) s3"
        by (simp_all add: register_one_proxy_def)
      moreover from await_ready [OF a [unfolded 2]] have "ck_oneshots s3 i = OsDropped"
        by (auto simp: resp_ready_def split: oneshot.splits)
      ultimately show ?thesis
        by (auto simp: remove_resp_def drop_sender_def split: option.split intro!: exI [of _ i])
    next
      case 3
      from await_ready [OF a [unfolded 3]] have "ck_oneshots s3 i = OsSent x"
        by (auto simp: resp_ready_def split: oneshot.splits)
      with s3 have x: "told cx evs x" "nr_proxy_name x = cp_name p" by (auto simp: awaiting_def)
      from 3 a t i True assms(2) have "r = (if nr_ok x then RegOk else classify_rejection (nr_error x))"
        by (auto simp: register_one_proxy_def split: if_splits)
      with x classify_cases [of "nr_error x"] show ?thesis
        by (cases r) (auto split: if_splits)
    qed
  qed
qed


definition demo_proxy :: client_proxy where
  "demo_proxy =
     \<lparr>cp_name = ''ssh'', cp_type = Tcp, local_ip = ''127.0.0.1'', local_port = 22,
      cp_remote_port = Some 6000, cp_custom_domains = None, pool_size = 1\<rparr>"

definition demo_ctx :: client_ctx where
  \<comment> \<open>a codec whose only answer confirms \<open>ssh\<close>\<close>
  "demo_ctx =
     \<lparr>cx_json = demo_json\<lparr>de_new_proxy_resp :=
        (\<lambda>_. Inr \<lparr>nr_proxy_name = ''ssh'', nr_ok = True, nr_error = None\<rparr>)\<rparr>,
      cx_display = describe_io_error, cx_heartbeat_timeout = from_secs 10\<rparr>"

definition demo_script :: script where
  "demo_script =
     [(1, Outbound 0), (1, Written 2), (1, Incoming (frame_new PROTOCOL_VERSION MSG_NEW_PROXY_RESP []) 7)]"

lemma demo_resps_ok: "resps_ok demo_client"
  by (simp add: demo_client_def demo_config_def client_state_new_def resps_ok_def)

lemma demo_client_registers: "fst (register_one_proxy demo_ctx demo_proxy demo_script demo_client) = RegOk"
  by (simp add: register_one_proxy_def insert_resp_def drop_sender_def demo_client_def demo_config_def client_state_new_def
      demo_proxy_def demo_script_def demo_ctx_def send_tx_def await.simps tx_room_def chan_new_def
      TX_QUEUE_DEPTH_def OUT_QUEUE_DEPTH_def try_send_def resp_ready_def heartbeat_due_def times_out_def
      sooner_def next_wait_def NEW_PROXY_TIMEOUT_def from_secs_def client_turn_def control_event_def
      outbound_def recv_many_def send_with_timeout_def pass_def from_frame_def frame_new_def msg_type_defs
      client_message_def answer_resp_def Let_def)


section \<open>How long retrying takes\<close>

fun delays :: "nat \<Rightarrow> duration \<Rightarrow> duration \<Rightarrow> duration" where
  \<comment> \<open>the sum of the delays before the rounds\<close>
  "delays 0 d max_delay = 0"
| "delays (Suc n) d max_delay = d + delays n (min (d * 2) max_delay) max_delay"

lemma delays_numeral [simp]:
  "delays (numeral k) d max_delay = d + delays (pred_numeral k) (min (d * 2) max_delay) max_delay"
  by (simp add: numeral_eq_Suc)

lemma register_time:
  assumes "register_one_proxy cx p evs s = (r, evs', s')"
  shows "ck_now s' \<le> ck_now s + from_secs 15"
proof -
  obtain i s1 where i: "insert_resp (cp_name p) s = (i, s1)" by fastforce
  have now1: "ck_now s1 = ck_now s" using insert_resp_frame(2) [of "cp_name p" s] i by simp
  obtain b evs2 s2 where t: "send_tx cx (NewProxy (new_proxy_from_config p)) evs s1 = (b, evs2, s2)"
    by (metis prod_cases3)
  from send_tx_time [OF t] now1 have now2: "ck_now s2 \<le> ck_now s + from_secs 5"
    by (simp add: CONTROL_SEND_TIMEOUT_def)
  obtain w evs3 s3 where a: "await cx (resp_ready i) (Some (from_secs NEW_PROXY_TIMEOUT)) evs2 s2 = (w, evs3, s3)"
    by (metis prod_cases3)
  from await_limit [OF a refl] now2 have "ck_now s3 \<le> ck_now s + from_secs 15"
    by (simp add: NEW_PROXY_TIMEOUT_def from_secs_def)
  with now2 assms i t a show ?thesis
    by (auto simp: register_one_proxy_def from_secs_def split: bool.splits option.splits if_splits)
qed

lemma retry_round_time:
  "retry_round cx ps still evs s = (r, evs', s') \<Longrightarrow>
     ck_now s' \<le> ck_now s + length ps * from_secs 15 \<and>
     (\<forall>x. r = Some x \<longrightarrow> length x \<le> length still + length ps)"
proof (induction ps arbitrary: still evs s)
  case (Cons p ps)
  obtain o1 evs1 s1 where g: "register_one_proxy cx p evs s = (o1, evs1, s1)" by (metis prod_cases3)
  note now1 = register_time [OF g]
  show ?case
  proof (cases "o1 = ConnLost")
    case True
    with Cons.prems g now1 show ?thesis by auto
  next
    case False
    with Cons.prems g obtain still' s2 where "retry_round cx ps still' evs1 s2 = (r, evs', s')"
      "ck_now s2 = ck_now s1" "length still' \<le> Suc (length still)"
      by (cases o1) (fastforce simp: on_client_metrics_def)+
    with Cons.IH [of still' evs1 s2] now1 show ?thesis by fastforce
  qed
qed auto

lemma retry_rounds_time:
  "retry_rounds cx rounds delay max_delay ps evs s = (evs', s') \<Longrightarrow>
     ck_now s' \<le> ck_now s + delays rounds delay max_delay + rounds * length ps * from_secs 15"
proof (induction rounds arbitrary: delay ps evs s)
  case (Suc n)
  obtain w evs1 s1 where a: "await cx shutting_down (Some delay) evs s = (w, evs1, s1)"
    by (metis prod_cases3)
  note now1 = await_limit [OF a refl]
  show ?case
  proof (cases w)
    case (Some x)
    with Suc.prems a now1 show ?thesis by (simp add: algebra_simps)
  next
    case None
    obtain r evs2 s2 where g: "retry_round cx ps [] evs1 s1 = (r, evs2, s2)" by (metis prod_cases3)
    note now2 = retry_round_time [OF g]
    have base: "ck_now s2 \<le> ck_now s + delay + length ps * from_secs 15" using now1 now2 by simp
    show ?thesis
    proof (cases "r = None \<or> r = Some []")
      case True
      with Suc.prems a None g have "s' = s2" by auto
      with base show ?thesis by (simp add: algebra_simps)
    next
      case False
      then obtain still where r: "r = Some still" "still \<noteq> []" by auto
      with Suc.prems a None g have e: "retry_rounds cx n (min (delay * 2) max_delay) max_delay still evs2 s2 = (evs', s')"
        by simp
      have l: "length still \<le> length ps" using now2 r by simp
      from Suc.IH [OF e] have "ck_now s' \<le> ck_now s2 + delays n (min (delay * 2) max_delay) max_delay +
          n * length still * from_secs 15" .
      also have "\<dots> \<le> ck_now s2 + delays n (min (delay * 2) max_delay) max_delay + n * length ps * from_secs 15"
        using l by (simp add: mult_le_mono)
      finally show ?thesis using base by (simp add: algebra_simps)
    qed
  qed
qed simp

lemma retry_loop_time:
  "retry_loop cx ps initial max_delay rounds evs s = (evs', s') \<Longrightarrow>
     ck_now s' \<le> ck_now s + delays rounds initial max_delay + rounds * length ps * from_secs 15"
  by (auto simp: retry_loop_def split: if_splits dest: retry_rounds_time)

text \<open>
  C38 --- Retrying ends: whatever the server does and however the connection behaves, the
  background retries of the refused proxies are over after 150 seconds of short delays, 600 of
  long ones, and 15 seconds (five to send, ten for the answer) for each of at most 8 attempts
  per proxy of the one list and 20 of the other.
\<close>

theorem retrying_ends:
  assumes "retry_registration cx retryable persistent evs s = (evs', s')"
  shows "ck_now s' \<le> ck_now s + from_secs (150 + 600 +
    15 * (8 * length retryable + 20 * length persistent))"
proof -
  obtain evs1 s1 where a: "retry_loop cx retryable (from_secs 2) (from_secs 30) 8 evs s = (evs1, s1)"
    by fastforce
  with assms have b: "retry_loop cx persistent (from_secs 30) (from_secs 30) 20 evs1 s1 = (evs', s')"
    by (simp add: retry_registration_def PROXY_REGISTER_RETRY_INITIAL_def PROXY_REGISTER_RETRY_MAX_DELAY_def
        PROXY_REGISTER_RETRY_MAX_def PROXY_REGISTER_RETRY_PERSISTENT_DELAY_SECS_def
        PROXY_REGISTER_RETRY_PERSISTENT_MAX_def)
  have "delays 8 (from_secs 2) (from_secs 30) = from_secs 150"
    "delays 20 (from_secs 30) (from_secs 30) = from_secs 600"
    by (simp_all add: from_secs_def)
  with retry_loop_time [OF a] retry_loop_time [OF b] show ?thesis
    by (simp add: from_secs_def algebra_simps)
qed

theorem retrying_ends_witness:
  "\<exists>evs' s'. retry_registration demo_ctx [demo_proxy] [] demo_script demo_client = (evs', s') \<and>
     ck_now s' \<le> from_secs 870"
proof -
  obtain evs' s' where r: "retry_registration demo_ctx [demo_proxy] [] demo_script demo_client = (evs', s')"
    by fastforce
  from retrying_ends [OF r] r show ?thesis by (simp add: demo_client_def demo_config_def client_state_new_def)
qed

end
