(* ===== verification/Platform.thy ===== *)
theory Platform
  imports Config
begin

text \<open>
  Platform differences and the command line's overrides: the home directory and the default path
  of the run id (\<open>rfrp-common/src/util/platform.rs\<close>). The environment is a function from variable
  names to values; joining paths is the file system's, a parameter.
\<close>

definition non_empty :: "string option \<Rightarrow> string option" where
  "non_empty v = (case v of Some s \<Rightarrow> if s = [] then None else Some s | None \<Rightarrow> None)"

datatype platform = Unix | Windows | OtherPlatform

definition home_dir :: "platform \<Rightarrow> fs \<Rightarrow> (string \<Rightarrow> string option) \<Rightarrow> string option" where
  "home_dir pl fs var =
     (case pl of
        Unix \<Rightarrow> non_empty (var ''HOME'')
      | Windows \<Rightarrow>
          (case non_empty (var ''USERPROFILE'') of
             Some p \<Rightarrow> Some p
           | None \<Rightarrow>
               Option.bind (non_empty (var ''HOMEDRIVE'')) (\<lambda>drive.
               Option.bind (non_empty (var ''HOMEPATH'')) (\<lambda>path.
                 Some (fs_join fs drive path))))
      | OtherPlatform \<Rightarrow> None)"

definition default_run_id_path :: "platform \<Rightarrow> fs \<Rightarrow> (string \<Rightarrow> string option) \<Rightarrow> string" where
  "default_run_id_path pl fs var =
     fs_join fs (fs_join fs (unwrap_or (home_dir pl fs var) ''.'') ''.rfrp'') ''run_id''"

lemma home_dir_not_empty: "home_dir Unix fs var \<noteq> Some []"
  by (simp add: home_dir_def non_empty_def split: option.split)

end
