(* ===== verification/Client.thy ===== *)
theory Client
  imports ClientReg Platform
begin

text \<open>
  The client process (\<open>rfrpc/src/client.rs\<close>): building it, its persistent run id, one connection from
  the name lookup to the end of the control loop, and the loop that reconnects with growing
  delays. What the network, the file system and the UUID library do are arguments; each attempt
  brings the script of events of its connection.
\<close>

section \<open>Building the client\<close>

record client =
  ce_config :: client_config
  ce_tls :: "client_tls option"
  ce_heartbeat_interval :: duration
  ce_heartbeat_timeout :: duration

definition client_new :: "tls_env \<Rightarrow> client_config \<Rightarrow> (error, client) result" where
  "client_new env config =
     (let c = cc_client config in
      rbind (if cl_tls_enable c \<or> cl_work_conn_tls c \<or> tls_server_name c \<noteq> None
             then rbind (client_tls_new env c) (\<lambda>t. Inr (Some t)) else Inr None) (\<lambda>tls.
        Inr \<lparr>ce_config = config, ce_tls = tls, ce_heartbeat_interval = cl_heartbeat_interval c,
             ce_heartbeat_timeout = cl_heartbeat_timeout c\<rparr>))"

definition with_heartbeat :: "duration \<Rightarrow> duration \<Rightarrow> client \<Rightarrow> client" where
  "with_heartbeat interval timeout cl =
     cl\<lparr>ce_heartbeat_interval := interval, ce_heartbeat_timeout := timeout\<rparr>"

lemma client_new_tls:
  assumes "client_new env config = Inr cl"
  shows "ce_config cl = config \<and> (cl_tls_enable (cc_client config) \<longrightarrow> ce_tls cl \<noteq> None)"
  using assms by (auto simp: client_new_def rbind_Inr_iff Let_def split: if_splits)

section \<open>The run id\<close>

definition resolve_run_id_path :: "string option \<Rightarrow> string \<Rightarrow> string" where
  \<comment> \<open>with the platform's default path\<close>
  "resolve_run_id_path file default_path =
     (case file of
        Some p \<Rightarrow> if trim p \<noteq> [] then p else default_path
      | None \<Rightarrow> default_path)"

record uuid_env =
  uu_parses :: "string \<Rightarrow> bool"
  uu_fresh :: string

record run_id_env =
  ri_read :: "(io_error, string) result"
  ri_create :: "(io_error, unit) result"

definition load_or_create_run_id :: "uuid_env \<Rightarrow> run_id_env \<Rightarrow> string \<times> string option" where
  \<comment> \<open>of the file at the resolved path; with what is written to it, if anything\<close>
  "load_or_create_run_id uu env =
     (let fresh = (uu_fresh uu, case ri_create env of Inr _ \<Rightarrow> Some (uu_fresh uu) | Inl e \<Rightarrow> None) in
      case ri_read env of
        Inl e \<Rightarrow> fresh
      | Inr t \<Rightarrow>
          let s = trim t in
          if s \<noteq> [] \<and> length s \<le> MAX_RUN_ID_LEN \<and> uu_parses uu s then (s, None) else fresh)"

section \<open>One connection\<close>

datatype connect_outcome = Reconnect bool | FatalExit string

datatype conn_error =
    ResolveFailed resolve_error
  | ConnectFailed io_error
  | ConnectTimedOut
  | TlsFailed error
  | LostDuringRegistration
  | TlsNotBuilt  \<comment> \<open>the \<open>expect\<close>\<close>

record net_env =
  ne_lookup :: "string \<Rightarrow> u16 \<Rightarrow> (string, socket_addr list) result"
  ne_connect :: attempt
  ne_tls :: attempt
  ne_took :: duration
  ne_taken :: nat

record process =
  pc_metrics :: client_metrics
  pc_now :: instant
  pc_shutdown :: bool

definition login_verdict :: "(string \<Rightarrow> string) \<Rightarrow> login_resp \<Rightarrow> connect_outcome option" where
  \<comment> \<open>\<open>None\<close> when the login was accepted\<close>
  "login_verdict lower resp =
     (if lr_ok resp then None
      else
        let reason = unwrap_or (lr_error resp) ''auth failed''; low = lower reason in
        if lr_error resp = None \<or> contains_str ''version mismatch'' low
           \<or> contains_str ''auth failed'' low
        then Some (FatalExit reason) else Some (Reconnect False))"

definition accept_login :: "client_config \<Rightarrow> login_resp \<Rightarrow> client_state \<Rightarrow> client_state" where
  "accept_login config resp s =
     on_client_metrics (set_connected True)
       (s\<lparr>ck_work_conn_tls := unwrap_or (lr_work_conn_tls resp) (cl_work_conn_tls (cc_client config)),
          ck_work_conn_token := lr_work_conn_token resp\<rparr>)"

definition wait_control :: "client_state \<Rightarrow> client_state" where
  \<comment> \<open>\<open>ctrl.await\<close> begins: what follows it happens when the loop stops, or now if it has\<close>
  "wait_control s =
     (let s = s\<lparr>ck_registered := True\<rparr> in
      if ck_running s then s
      else on_client_metrics (set_connected False) (clear_resps (s\<lparr>ck_ended := ck_now s\<rparr>)))"

definition process_of :: "client_state \<Rightarrow> process" where
  "process_of s = \<lparr>pc_metrics = ck_metrics s, pc_now = ck_now s, pc_shutdown = ck_shutdown s\<rparr>"

type_synonym conn_result = "(conn_error, connect_outcome) result option \<times> process"

definition serve_session :: "client_ctx \<Rightarrow> script \<Rightarrow> client_state \<Rightarrow> conn_result" where
  \<comment> \<open>after the login: registrations, background retries, the end of the control loop\<close>
  "serve_session cx evs s =
     (case register_all cx (hm_values (ck_proxies s)) [] [] evs s of
        (None, evs, s) \<Rightarrow> (Some (Inl LostDuringRegistration), process_of s)
      | (Some (retryable, persistent), evs, s) \<Rightarrow>
          let s = wait_control s;
              (evs, s) = (if retryable \<noteq> [] \<or> persistent \<noteq> []
                          then retry_registration cx retryable persistent evs s else (evs, s))
          in case await cx stopped None evs s of
               (None, _, s) \<Rightarrow> (None, process_of s)
             | (Some _, _, s) \<Rightarrow>
                 (Some (Inr (Reconnect True)), (process_of s)\<lparr>pc_now := ck_ended s\<rparr>))"

definition login_phase ::
  "(string \<Rightarrow> string) \<Rightarrow> client_ctx \<Rightarrow> client_config \<Rightarrow> nat \<Rightarrow> script \<Rightarrow> client_state \<Rightarrow> conn_result" where
  "login_phase lower cx config taken evs s =
     (case await cx ck_login (Some (from_secs LOGIN_TIMEOUT)) evs (start_control config taken s) of
        (None, _, s) \<Rightarrow> (Some (Inr (Reconnect False)), process_of s)
      | (Some resp, evs, s) \<Rightarrow>
          (case login_verdict lower resp of
             Some out \<Rightarrow> (Some (Inr out), process_of s)
           | None \<Rightarrow> serve_session cx evs (accept_login config resp s)))"

definition connect_once ::
  "(string \<Rightarrow> string) \<Rightarrow> json \<Rightarrow> (io_error \<Rightarrow> string) \<Rightarrow> client \<Rightarrow> string \<Rightarrow> net_env \<Rightarrow> script \<Rightarrow> process
     \<Rightarrow> conn_result" where
  \<comment> \<open>without a result when it does not return: nothing limits the TLS handshake\<close>
  "connect_once lower j display cl run_id env evs pc =
     (let config = ce_config cl; c = cc_client config;
          pc = pc\<lparr>pc_now := pc_now pc + ne_took env\<rparr>;
          cx = \<lparr>cx_json = j, cx_display = display, cx_heartbeat_timeout = ce_heartbeat_timeout cl\<rparr>;
          go = (\<lambda>addr. login_phase lower cx config (ne_taken env) evs
                  ((client_state_new addr run_id config (ce_tls cl) (pc_metrics pc) (pc_now pc))
                     \<lparr>ck_shutdown := pc_shutdown pc\<rparr>))
      in case resolve_server_addr (ne_lookup env) c of
           Inl e \<Rightarrow> (Some (Inl (ResolveFailed e)), pc)
         | Inr addr \<Rightarrow>
             (case ne_connect env of
                Errored e \<Rightarrow> (Some (Inl (ConnectFailed e)), pc)
              | Elapsed \<Rightarrow> (Some (Inl ConnectTimedOut), pc)
              | Ready \<Rightarrow>
                  if \<not> cl_tls_enable c then go addr
                  else if ce_tls cl = None then (Some (Inl TlsNotBuilt), pc)
                  else case ne_tls env of
                         Ready \<Rightarrow> go addr
                       | Elapsed \<Rightarrow> (None, pc)
                       | Errored e \<Rightarrow>
                           (case map_tls_connect_error display e of
                              Auth msg \<Rightarrow> (Some (Inr (FatalExit msg)), pc)
                            | err \<Rightarrow> (Some (Inl (TlsFailed err)), pc))))"

section \<open>The reconnect loop\<close>

definition should_reset_backoff :: "bool \<Rightarrow> duration \<Rightarrow> bool" where
  "should_reset_backoff connected lived \<longleftrightarrow>
     connected \<and> from_secs MIN_STABLE_CONNECTION_SECS \<le> lived"

definition wait_for_reconnect :: "duration \<Rightarrow> duration option \<Rightarrow> process \<Rightarrow> bool \<times> process" where
  \<comment> \<open>the shutdown may come after some time\<close>
  "wait_for_reconnect backoff cancel pc =
     (case cancel of
        Some d \<Rightarrow>
          if d < backoff then (False, pc\<lparr>pc_now := pc_now pc + d, pc_shutdown := True\<rparr>)
          else (True, pc\<lparr>pc_now := pc_now pc + backoff\<rparr>)
      | None \<Rightarrow> (True, pc\<lparr>pc_now := pc_now pc + backoff\<rparr>))"

record attempt_in =
  at_net :: net_env
  at_script :: script
  at_cancel :: "duration option"

record run_state =
  rn_live :: process
  rn_attempt :: u32
  rn_backoff :: duration
  rn_waits :: "(bool \<times> duration) list"
    \<comment> \<open>the delays waited so far, each with whether the connection before it was stable\<close>

definition run_start :: "process \<Rightarrow> run_state" where
  "run_start pc =
     \<lparr>rn_live = pc, rn_attempt = 0, rn_backoff = from_secs RECONNECT_BACKOFF_INITIAL, rn_waits = []\<rparr>"

definition reconnect ::
  "bool \<Rightarrow> duration option \<Rightarrow> process \<Rightarrow> run_state \<Rightarrow> bool \<times> run_state" where
  \<comment> \<open>the common part of both arms: count, reset the delay after a stable connection, wait, double\<close>
  "reconnect steady cancel pc r =
     (let pc = pc\<lparr>pc_metrics := inc_reconnect (pc_metrics pc)\<rparr>;
          r = (if steady then r\<lparr>rn_attempt := 0, rn_backoff := from_secs RECONNECT_BACKOFF_INITIAL\<rparr> else r);
          (go, pc) = wait_for_reconnect (rn_backoff r) cancel pc;
          r = r\<lparr>rn_live := pc, rn_waits := rn_waits r @ [(steady, rn_backoff r)]\<rparr>
      in if \<not> go then (False, r)
         else (True, r\<lparr>rn_backoff := min (rn_backoff r * 2) (from_secs RECONNECT_BACKOFF_MAX)\<rparr>))"

definition run_attempt ::
  "(attempt_in \<Rightarrow> process \<Rightarrow> conn_result) \<Rightarrow> attempt_in \<Rightarrow> run_state
     \<Rightarrow> (string, unit) result option option \<times> run_state" where
  \<comment> \<open>the body of the loop: \<open>None\<close> goes on; an attempt that does not return gives \<open>Some None\<close>\<close>
  "run_attempt connect a r =
     (if pc_shutdown (rn_live r) then (Some (Some (Inr ())), r)
      else
        let r = r\<lparr>rn_attempt := rn_attempt r + 1\<rparr>; started = pc_now (rn_live r);
            (res, pc) = connect a (rn_live r); r = r\<lparr>rn_live := pc\<rparr>
        in case res of
             None \<Rightarrow> (Some None, r)
           | Some (Inr (FatalExit reason)) \<Rightarrow> (Some (Some (Inl (''login fatal: '' @ reason))), r)
           | Some out \<Rightarrow>
               if pc_shutdown pc then (Some (Some (Inr ())), r)
               else
                 let steady = (case out of
                       Inr (Reconnect connected) \<Rightarrow> should_reset_backoff connected (pc_now pc - started)
                     | _ \<Rightarrow> False);
                     (go, r) = reconnect steady (at_cancel a) pc r
                 in (if go then None else Some (Some (Inr ())), r))"

fun run_loop ::
  "(attempt_in \<Rightarrow> process \<Rightarrow> conn_result) \<Rightarrow> attempt_in list \<Rightarrow> run_state
     \<Rightarrow> (string, unit) result option \<times> run_state" where
  \<comment> \<open>over the connection attempt; without a result while it runs\<close>
  "run_loop connect [] r = (None, r)"
| "run_loop connect (a # as) r =
     (case run_attempt connect a r of
        (Some res, r) \<Rightarrow> (res, r)
      | (None, r) \<Rightarrow> run_loop connect as r)"

definition client_run ::
  "(string \<Rightarrow> string) \<Rightarrow> json \<Rightarrow> (io_error \<Rightarrow> string) \<Rightarrow> client \<Rightarrow> string \<Rightarrow> attempt_in list \<Rightarrow> process
     \<Rightarrow> (string, unit) result option \<times> run_state" where
  "client_run lower j display cl run_id as pc =
     run_loop (\<lambda>a. connect_once lower j display cl run_id (at_net a) (at_script a)) as (run_start pc)"

section \<open>The delays\<close>

definition unsteady :: "bool list \<Rightarrow> nat" where
  \<comment> \<open>how many connections in a row, at the end of this list, were not stable; the first does not count\<close>
  "unsteady fs = length (takeWhile Not (rev (tl fs)))"

definition delay :: "nat \<Rightarrow> duration" where
  "delay k = from_secs (min (2 ^ k) 30)"

lemma delay_Suc: "min (delay k * 2) (from_secs 30) = delay (Suc k)"
  by (auto simp: delay_def from_secs_def min_def)

lemma unsteady_snoc:
  "unsteady (fs @ [b]) = (if fs = [] \<or> b then 0 else Suc (unsteady fs))"
  by (cases fs) (auto simp: unsteady_def)

definition delays_ok :: "run_state \<Rightarrow> bool" where
  "delays_ok r \<longleftrightarrow>
     map snd (rn_waits r) =
       map (\<lambda>i. delay (unsteady (take (Suc i) (map fst (rn_waits r))))) [0..<length (rn_waits r)] \<and>
     rn_backoff r = (if rn_waits r = [] then from_secs 1 else delay (Suc (unsteady (map fst (rn_waits r)))))"

lemma reconnect_delays_ok:
  assumes "delays_ok r"
  shows "delays_ok (snd (reconnect steady cancel pc r)) \<or> \<not> fst (reconnect steady cancel pc r)"
    and "map snd (rn_waits (snd (reconnect steady cancel pc r))) =
       map (\<lambda>i. delay (unsteady (take (Suc i) (map fst (rn_waits (snd (reconnect steady cancel pc r)))))))
         [0..<length (rn_waits (snd (reconnect steady cancel pc r)))]"
proof -
  let ?fs = "map fst (rn_waits r)"
  define b where "b = (if steady then from_secs 1 else rn_backoff r)"
  have b: "b = delay (unsteady (?fs @ [steady]))"
    using assms by (auto simp: b_def delays_ok_def unsteady_snoc delay_def)
  obtain go pc' where w: "wait_for_reconnect b cancel (pc\<lparr>pc_metrics := inc_reconnect (pc_metrics pc)\<rparr>) = (go, pc')"
    by fastforce
  have waits: "rn_waits (snd (reconnect steady cancel pc r)) = rn_waits r @ [(steady, b)]"
    and next_delay: "go \<Longrightarrow> rn_backoff (snd (reconnect steady cancel pc r)) = min (b * 2) (from_secs 30)"
    and fst: "fst (reconnect steady cancel pc r) = go"
    using w by (auto simp: reconnect_def b_def Let_def RECONNECT_BACKOFF_INITIAL_def RECONNECT_BACKOFF_MAX_def
        case_prod_beta split: if_splits)
  have old: "map snd (rn_waits r) = map (\<lambda>i. delay (unsteady (take (Suc i) ?fs))) [0..<length (rn_waits r)]"
    using assms by (simp add: delays_ok_def)
  have "map (\<lambda>i. delay (unsteady (take (Suc i) (?fs @ [steady])))) [0..<length (rn_waits r)] =
      map (\<lambda>i. delay (unsteady (take (Suc i) ?fs))) [0..<length (rn_waits r)]"
    by (rule map_cong) simp_all
  then show new: "map snd (rn_waits (snd (reconnect steady cancel pc r))) =
       map (\<lambda>i. delay (unsteady (take (Suc i) (map fst (rn_waits (snd (reconnect steady cancel pc r)))))))
         [0..<length (rn_waits (snd (reconnect steady cancel pc r)))]"
    unfolding waits using old b by simp
  show "delays_ok (snd (reconnect steady cancel pc r)) \<or> \<not> fst (reconnect steady cancel pc r)"
    using new next_delay fst b delay_Suc [of "unsteady (?fs @ [steady])"] by (auto simp: delays_ok_def waits)
qed

definition waits_ok :: "run_state \<Rightarrow> bool" where
  "waits_ok r \<longleftrightarrow> map snd (rn_waits r) =
     map (\<lambda>i. delay (unsteady (take (Suc i) (map fst (rn_waits r))))) [0..<length (rn_waits r)]"

lemma run_attempt_delays:
  assumes "delays_ok r" and "run_attempt connect a r = (res, q)"
  shows "waits_ok q \<and> (res = None \<longrightarrow> delays_ok q)"
proof (cases "pc_shutdown (rn_live r)")
  case True
  with assms show ?thesis by (auto simp: run_attempt_def delays_ok_def waits_ok_def)
next
  case False
  define r1 where "r1 = r\<lparr>rn_attempt := rn_attempt r + 1\<rparr>"
  obtain out pc where c: "connect a (rn_live r) = (out, pc)" by fastforce
  define r2 where "r2 = r1\<lparr>rn_live := pc\<rparr>"
  have ok: "delays_ok r2" using assms(1) by (simp add: r1_def r2_def delays_ok_def)
  note k = reconnect_delays_ok [OF ok, of _ "at_cancel a" pc]
  have "(\<exists>x. (res, q) = (Some x, r2)) \<or>
      (\<exists>steady. q = snd (reconnect steady (at_cancel a) pc r2) \<and>
         (res = None \<longrightarrow> fst (reconnect steady (at_cancel a) pc r2)))"
    using assms(2) False c
    by (cases out)
      (auto simp: run_attempt_def r1_def r2_def Let_def case_prod_beta
        split: sum.splits connect_outcome.splits if_splits)
  then show ?thesis
  proof
    assume "\<exists>x. (res, q) = (Some x, r2)"
    with ok show ?thesis by (auto simp: delays_ok_def waits_ok_def)
  next
    assume "\<exists>steady. q = snd (reconnect steady (at_cancel a) pc r2) \<and>
         (res = None \<longrightarrow> fst (reconnect steady (at_cancel a) pc r2))"
    with k show ?thesis unfolding waits_ok_def by blast
  qed
qed

lemma run_loop_delays: "delays_ok r \<Longrightarrow> waits_ok (snd (run_loop connect as r))"
proof (induction as arbitrary: r)
  case (Cons a as)
  obtain res q where a: "run_attempt connect a r = (res, q)" by fastforce
  from run_attempt_delays [OF Cons.prems a] Cons.IH [of q] a show ?case by (cases res) auto
qed (simp add: delays_ok_def waits_ok_def)


section \<open>How a run ends\<close>

definition login_told :: "json \<Rightarrow> script \<Rightarrow> login_resp \<Rightarrow> bool" where
  \<comment> \<open>the script delivers this answer to the login\<close>
  "login_told j evs x \<longleftrightarrow> (\<exists>f n. Incoming f n \<in> snd ` set evs \<and> from_frame j f = Inr (LoginResp x))"

definition login_known :: "client_ctx \<Rightarrow> script \<Rightarrow> client_state \<Rightarrow> bool" where
  "login_known cx evs t \<longleftrightarrow> (\<forall>x. ck_login t = Some x \<longrightarrow> login_told (cx_json cx) evs x)"

lemma login_known_frame [simp]:
  "login_known cx evs (on_client_metrics f t) = login_known cx evs t"
  "login_known cx evs (pass d t) = login_known cx evs t"
  "login_known cx evs (stop_control t) = login_known cx evs t"
  "login_known cx evs (answer_resp r t) = login_known cx evs t"
  "login_known cx evs (work_task cx k env t) = login_known cx evs t"
proof -
  show "login_known cx evs (on_client_metrics f t) = login_known cx evs t" for f t
    by (simp add: login_known_def on_client_metrics_def)
  with work_task_cases [of cx k env t] show "login_known cx evs (work_task cx k env t) = login_known cx evs t"
    by (auto simp: login_known_def on_client_metrics_def)
qed (simp_all add: login_known_def pass_def stop_control_def Let_def on_client_metrics_def clear_resps_def
    answer_resp_def split: option.split)

lemma login_known_turn:
  assumes "login_known cx evs t" and "ev \<in> snd ` set evs"
  shows "login_known cx evs (client_turn cx ev t)"
proof -
  have "login_known cx evs (client_message msg n t)"
    if "ev = Incoming f n" "from_frame (cx_json cx) f = Inr msg" for f msg n
  proof (cases "\<exists>r. msg = LoginResp r")
    case True
    then obtain r where r: "msg = LoginResp r" by blast
    with assms(2) that have "login_told (cx_json cx) evs r" by (auto simp: login_told_def)
    with assms(1) r show ?thesis by (auto simp: client_message_def login_known_def)
  next
    case False
    with assms show ?thesis
      by (auto simp: client_message_def Let_def split: message.split option.split)
        (simp_all add: login_known_def on_client_metrics_def)
  qed
  moreover have "login_known cx evs (outbound n t)" "login_known cx evs (heartbeat_tick d ts n t)" for n d ts
    using assms(1) by (auto simp: outbound_def heartbeat_tick_def Let_def case_prod_beta split: list.split message.split)
      (simp_all add: login_known_def)
  ultimately show ?thesis
    using assms(1)
    by (auto simp: client_turn_def control_event_def Let_def split: client_event.split sum.split)
      (simp_all add: login_known_def)
qed

lemma await_login:
  assumes "await cx ck_login limit evs s = (Some resp, evs', s')" and "ck_login s = None"
  shows "login_told (cx_json cx) evs resp"
proof -
  have "login_known cx evs s" using assms(2) by (simp add: login_known_def)
  then have "login_known cx evs s'"
    using await_keeps_events [where P = "login_known cx evs" and evs = evs and cx = cx and ready = ck_login
        and limit = limit and s = s, OF login_known_turn] assms(1) by simp
  with await_ready [OF assms(1)] show ?thesis by (simp add: login_known_def)
qed

definition refused_for_good :: "(string \<Rightarrow> string) \<Rightarrow> login_resp \<Rightarrow> bool" where
  "refused_for_good lower resp \<longleftrightarrow> \<not> lr_ok resp \<and>
     (case lr_error resp of
        None \<Rightarrow> True
      | Some e \<Rightarrow> contains_str ''version mismatch'' (lower e) \<or> contains_str ''auth failed'' (lower e))"

definition gave_reason :: "(string \<Rightarrow> string) \<Rightarrow> json \<Rightarrow> client \<Rightarrow> attempt_in \<Rightarrow> bool" where
  \<comment> \<open>why this attempt may be the last: a broken TLS handshake, or a login refused for good\<close>
  "gave_reason lower j cl a \<longleftrightarrow>
     (cl_tls_enable (cc_client (ce_config cl)) \<and> (\<exists>e. ne_tls (at_net a) = Errored e \<and> io_kind e = InvalidData)) \<or>
     (\<exists>resp. login_told j (at_script a) resp \<and> refused_for_good lower resp)"

lemma login_verdict_fatal: "login_verdict lower resp = Some (FatalExit m) \<Longrightarrow> refused_for_good lower resp"
  by (auto simp: login_verdict_def refused_for_good_def Let_def split: if_splits option.splits)

lemma start_control_login [simp]: "ck_login (start_control config taken s) = ck_login s"
  by (simp add: start_control_def stop_control_def Let_def case_prod_beta on_client_metrics_def clear_resps_def)

lemma login_phase_fatal:
  assumes "login_phase lower cx config taken evs s = (Some (Inr (FatalExit m)), pc)" and "ck_login s = None"
  shows "\<exists>resp. login_told (cx_json cx) evs resp \<and> refused_for_good lower resp"
proof -
  obtain w evs1 s1 where a: "await cx ck_login (Some (from_secs LOGIN_TIMEOUT)) evs (start_control config taken s) =
      (w, evs1, s1)" by (metis prod_cases3)
  have "\<not> (\<exists>m. fst (serve_session cx e t) = Some (Inr (FatalExit m)))" for e t
    by (auto simp: serve_session_def Let_def case_prod_beta split: option.splits prod.splits)
  with assms(1) a obtain resp where w: "w = Some resp" "login_verdict lower resp = Some (FatalExit m)"
    by (auto simp: login_phase_def split: option.splits) (metis fst_conv)
  from await_login [OF a [unfolded w(1)]] assms(2) login_verdict_fatal [OF w(2)] show ?thesis by auto
qed

lemma connect_once_fatal:
  assumes "connect_once lower j display cl run_id (at_net a) (at_script a) pc = (Some (Inr (FatalExit m)), pc')"
  shows "gave_reason lower j cl a"
proof -
  have "(\<exists>e. cl_tls_enable (cc_client (ce_config cl)) \<and> ne_tls (at_net a) = Errored e \<and> io_kind e = InvalidData) \<or>
      (\<exists>s cx. login_phase lower cx (ce_config cl) (ne_taken (at_net a)) (at_script a) s = (Some (Inr (FatalExit m)), pc') \<and>
         cx_json cx = j \<and> ck_login s = None)"
    using assms
    by (auto simp: connect_once_def Let_def client_state_new_def map_tls_connect_error_def
        split: sum.splits attempt.splits if_splits) fastforce+
  then show ?thesis unfolding gave_reason_def using login_phase_fatal by metis
qed

lemma run_attempt_ends:
  assumes "run_attempt connect a r = (Some (Some x), q)"
  shows "case x of Inr _ \<Rightarrow> pc_shutdown (rn_live q)
    | Inl msg \<Rightarrow> \<exists>reason. fst (connect a (rn_live r)) = Some (Inr (FatalExit reason)) \<and> msg = ''login fatal: '' @ reason"
proof (cases "pc_shutdown (rn_live r)")
  case False
  obtain out pc where c: "connect a (rn_live r) = (out, pc)" by fastforce
  have w: "\<not> fst (wait_for_reconnect b k p) \<Longrightarrow> pc_shutdown (snd (wait_for_reconnect b k p))" for b k p
    by (auto simp: wait_for_reconnect_def split: option.splits if_splits)
  have "\<not> fst (reconnect steady k p t) \<Longrightarrow> pc_shutdown (rn_live (snd (reconnect steady k p t)))" for steady k p t
    using w by (auto simp: reconnect_def Let_def case_prod_beta split: if_splits)
  with assms False c show ?thesis
    by (cases out)
      (auto simp: run_attempt_def Let_def case_prod_beta prod_eq_iff
        split: sum.splits connect_outcome.splits if_splits)
qed (use assms in \<open>auto simp: run_attempt_def\<close>)

text \<open>
  C13 --- The client ends only when it is told to: \<open>run\<close> returns normally only after a shutdown
  request, and with an error only when, in some attempt, the control connection's TLS handshake
  was broken by the peer's certificate or protocol, or the server refused the login without a
  reason, for its version, or as unauthorised. No other failure, however often it is repeated,
  ends it.
\<close>

theorem client_ends_only_when_told:
  "case client_run lower j display cl run_id as pc of
     (Some (Inr _), r) \<Rightarrow> pc_shutdown (rn_live r)
   | (Some (Inl msg), r) \<Rightarrow> \<exists>a \<in> set as. gave_reason lower j cl a
   | (None, r) \<Rightarrow> True"
proof -
  let ?c = "\<lambda>a. connect_once lower j display cl run_id (at_net a) (at_script a)"
  have "case run_loop ?c as r of
     (Some (Inr _), r) \<Rightarrow> pc_shutdown (rn_live r)
   | (Some (Inl msg), r) \<Rightarrow> \<exists>a \<in> set as. gave_reason lower j cl a
   | (None, r) \<Rightarrow> True" for r
  proof (induction as arbitrary: r)
    case (Cons a as)
    obtain x q where q: "run_attempt ?c a r = (x, q)" by fastforce
    show ?case
    proof (cases x)
      case None
      with Cons.IH [of q] q show ?thesis by (auto split: prod.splits option.splits sum.splits)
    next
      case (Some y)
      with q have e: "run_loop ?c (a # as) r = (y, q)" by simp
      have "\<exists>a \<in> set (a # as). gave_reason lower j cl a" if "y = Some (Inl msg)" for msg
      proof -
        from run_attempt_ends [OF q [unfolded Some that]] obtain reason
          where "fst (?c a (rn_live r)) = Some (Inr (FatalExit reason))" by auto
        then have "gave_reason lower j cl a" by (metis connect_once_fatal prod.collapse)
        then show ?thesis by simp
      qed
      moreover have "pc_shutdown (rn_live q)" if "y = Some (Inr u)" for u
        using run_attempt_ends [OF q [unfolded Some that]] by simp
      ultimately show ?thesis unfolding e by (auto split: option.split sum.split)
    qed
  qed simp
  then show ?thesis by (simp add: client_run_def)
qed

end
