(* ===== verification/EndToEnd.thy ===== *)
theory EndToEnd
  imports Server Client
begin

text \<open>
  Where server and client meet: what the client makes of the answer to its login, and the whole
  path of a user connection, from the server's request to the work connection that claims it.
\<close>

section \<open>Logins\<close>

text \<open>
  C9 --- Both sides draw the same conclusion from a login. The Login frame a client with a well-formed run id
  sends is never a protocol error; it is accepted only with the server's token, from an address that
  is not locked out, and within the limits, and the client then goes on with the token and the work
  connection mode of its session; refused with the right token and no lockout, which is for the
  number of sessions alone, the client tries again; and in every other case, also when its address is merely locked out for the rest
  of a minute, it exits for good.
\<close>

theorem login_agreed:
  fixes sconfig ip now st
  assumes frame: "to_frame j (login_message cconfig s) = Inr f"
    and codec: "json_inverse j (login_message cconfig s)"
    and run_id: "uuid_ok (ck_run_id s)" "length (ck_run_id s) \<le> MAX_RUN_ID_LEN"
    and lower: "lower ''too many sessions'' = ''too many sessions''"
  defines "right \<equiv> cl_token (cc_client cconfig) = sv_token (sc_server sconfig) \<and>
      length (cl_token (cc_client cconfig)) \<le> MAX_TOKEN_LEN \<and> fst (login_allowed ip now st)"
  shows "case fst (login_check j uuid_ok sconfig f ip now st) of
      Proceed r \<Rightarrow> r = ck_run_id s \<and> right \<and> \<not> over_limit r ip st \<and>
        (\<forall>se resp. login_resp_of sconfig se = LoginResp resp \<longrightarrow> login_verdict lower resp = None \<and>
           ck_work_conn_token (accept_login cconfig resp s) = Some (se_work_conn_token se) \<and>
           ck_work_conn_tls (accept_login cconfig resp s) = sv_work_conn_tls (sc_server sconfig))
    | Reject err \<Rightarrow> (right \<longrightarrow> over_limit (ck_run_id s) ip st) \<and>
        (\<forall>resp. reject_resp err = LoginResp resp \<longrightarrow>
           login_verdict lower resp = Some (if right then Reconnect False else FatalExit ''auth failed''))
    | Fail e \<Rightarrow> False"
proof -
  have m: "from_frame j f = Inr (login_message cconfig s)" by (rule from_to_frame [OF codec frame])
  have no: "\<not> contains_str ''version mismatch'' ''too many sessions''"
    "\<not> contains_str ''auth failed'' ''too many sessions''"
    by (simp_all add: has_prefix_def)
  obtain free st1 where a: "login_allowed ip now st = (free, st1)" by fastforce
  obtain g where g: "st1 = st\<lparr>st_login_failures := g\<rparr>" using login_allowed_fst [OF a] by blast
  have check: "fst (login_check j uuid_ok sconfig f ip now st) =
      (if \<not> right then Reject None
       else if over_limit (ck_run_id s) ip st then Reject (Some ''too many sessions'') else Proceed (ck_run_id s))"
    using run_id by (auto simp: login_check_def a g m login_message_def right_def verify_token_eq clear_eq Let_def not_less)
  show ?thesis
    unfolding check using no lower
    by (auto simp: reject_resp_def login_verdict_def login_resp_of_def accept_login_def on_client_metrics_def
        Let_def simp del: contains_str.simps)
qed

definition demo_login_json :: json where
  \<comment> \<open>a codec for the login of one client\<close>
  "demo_login_json =
     demo_json\<lparr>ser_login := (\<lambda>_. Inr []),
       de_login := (\<lambda>_. Inr \<lparr>lg_run_id = ck_run_id demo_client, lg_token = cl_token (cc_client demo_config),
         lg_version = PROTOCOL_VERSION\<rparr>)\<rparr>"

definition demo_locked :: server_state where
  "demo_locked = (server_state_new 0)\<lparr>st_login_failures := [(V4 [10, 0, 0, 9], (10, 0))]\<rparr>"

theorem login_agreed_witness:
  "\<exists>f err resp. to_frame demo_login_json (login_message demo_config demo_client) = Inr f \<and>
     fst (login_check demo_login_json (\<lambda>_. True) demo_open_config f (V4 [10, 0, 0, 9]) 1 demo_locked) = Reject err \<and>
     reject_resp err = LoginResp resp \<and>
     login_verdict to_ascii_lowercase resp = Some (FatalExit ''auth failed'')"
proof -
  let ?check = "\<lambda>f. login_check demo_login_json (\<lambda>_. True) demo_open_config f (V4 [10, 0, 0, 9]) 1 demo_locked"
  obtain f where f: "to_frame demo_login_json (login_message demo_config demo_client) = Inr f"
    by (simp add: to_frame_def login_message_def demo_login_json_def)
  have locked: "\<not> fst (login_allowed (V4 [10, 0, 0, 9]) 1 demo_locked)"
    by (simp add: login_allowed_def demo_locked_def LOGIN_FAILURE_LIMIT_def LOGIN_FAILURE_WINDOW_def
        from_secs_def hm_get_def Let_def)
  then have r: "fst (?check f) = Reject None" by (simp add: login_check_def case_prod_beta Let_def)
  have codec: "json_inverse demo_login_json (login_message demo_config demo_client)"
    by (simp add: login_message_def demo_login_json_def)
  have short: "length (ck_run_id demo_client) \<le> MAX_RUN_ID_LEN"
    by (simp add: demo_client_def client_state_new_def MAX_RUN_ID_LEN_def)
  have lower: "to_ascii_lowercase ''too many sessions'' = ''too many sessions''"
    by (simp add: to_ascii_lowercase_def ascii_lower_char_def)
  obtain resp where resp: "reject_resp None = LoginResp resp" by (simp add: reject_resp_def)
  from login_agreed [where uuid_ok = "\<lambda>_. True" and sconfig = demo_open_config and ip = "V4 [10, 0, 0, 9]"
      and now = 1 and st = demo_locked and lower = to_ascii_lowercase, OF f codec TrueI short lower] r resp locked
  have "login_verdict to_ascii_lowercase resp = Some (FatalExit ''auth failed'')" by simp
  with f r resp show ?thesis by blast
qed

section \<open>A user connection is served\<close>

lemma handle_started_size:
  assumes "handle_work_conn j display env req s = (Inr (Started f), s')"
  shows "length (f_payload f) \<le> FRAME_MAX_PAYLOAD"
proof -
  from assms have "fst (handle_work_conn j display env req s) = Inr (Started f)" by simp
  from handle_started [OF this] handle_reached have "send_start j env req s = (Inr (Started f), s')"
    using assms by fastforce
  from send_start_cases [OF this] show ?thesis by blast
qed

lemma serve_work_claims:
  assumes "hm_get (st_pending t) wk = Some pw" and "pw_user pw = Some user"
    and "pw_session_id pw = se_session_id (st_heap t a)" and "pw_proxy_name pw = name"
    and "\<not> is_udp_proxy t name" and "wk \<noteq> WORK_ID_POOL_RESERVED"
  shows "serve_work a \<lparr>sw_proxy_name = name, sw_work_id = wk, sw_work_conn_token = tok\<rparr> work now evs t =
    (BridgedWith user, t\<lparr>st_pending := hm_remove wk (st_pending t),
       st_bridges := (user, work, []) # st_bridges t\<rparr>)"
  using assms by (simp add: serve_work_def claim_pending_def Let_def)

text \<open>
  On the level of the session's shared state: the frame the client sends is taken for this user.
\<close>

lemma started_work_claims_user:
  assumes user: "dispatch_user_connection probe name handle a now st = (Waiting wk, st1)"
    and id: "wk \<noteq> WORK_ID_POOL_RESERVED"
    and login: "login_resp_of sconfig (st_heap st a) = LoginResp resp"
    and served: "handle_work_conn j display env \<lparr>rw_proxy_name = name, rw_work_id = wk\<rparr>
        (accept_login config resp c) = (Inr (Started f), c')"
    and codec: "json_inverse j (StartWorkConn \<lparr>sw_proxy_name = name, sw_work_id = wk,
        sw_work_conn_token = Some (se_work_conn_token (st_heap st a))\<rparr>)"
    and later: "hm_get (st_pending t) wk = hm_get (st_pending st1) wk" "session_for_proxy t name = Some a"
      "se_session_id (st_heap t a) = se_session_id (st_heap st a)"
      "se_work_conn_token (st_heap t a) = se_work_conn_token (st_heap st a)" "\<not> is_udp_proxy t name"
  shows "\<exists>user. uc_handle user = handle \<and>
    handle_work_connection j f work now' evs t =
      (Inr (BridgedWith user), t\<lparr>st_pending := hm_remove wk (st_pending t),
         st_bridges := (user, work, []) # st_bridges t\<rparr>)"
proof -
  from dispatch_cases [OF user] obtain u where u: "uc_handle u = handle" "wk = st_work_id st + 1"
    "st_pending st1 = hm_insert wk \<lparr>pw_proxy_name = name, pw_session_id = se_session_id (st_heap st a),
       pw_user = Some u, pw_created = now\<rparr> (st_pending st)" by auto
  let ?s = "accept_login config resp c"
  have token: "ck_work_conn_token ?s = Some (se_work_conn_token (st_heap st a))"
    using login by (auto simp: login_resp_of_def accept_login_def on_client_metrics_def)
  from handle_sends [OF served] have "to_frame j (StartWorkConn \<lparr>sw_proxy_name = name, sw_work_id = wk,
      sw_work_conn_token = ck_work_conn_token ?s\<rparr>) = Inr f" by simp
  with from_to_frame [OF codec] token have frame: "from_frame j f = Inr (StartWorkConn \<lparr>sw_proxy_name = name,
      sw_work_id = wk, sw_work_conn_token = Some (se_work_conn_token (st_heap st a))\<rparr>)" by simp
  have entry: "hm_get (st_pending t) wk = Some \<lparr>pw_proxy_name = name,
      pw_session_id = se_session_id (st_heap st a), pw_user = Some u, pw_created = now\<rparr>"
    using later(1) u(3) by simp
  have "serve_work a \<lparr>sw_proxy_name = name, sw_work_id = wk,
      sw_work_conn_token = Some (se_work_conn_token (st_heap st a))\<rparr> work now' evs t =
    (BridgedWith u, t\<lparr>st_pending := hm_remove wk (st_pending t), st_bridges := (u, work, []) # st_bridges t\<rparr>)"
    by (rule serve_work_claims [OF entry]) (simp_all add: later id)
  moreover have "verify_work_conn_token (st_heap t a) (Some (se_work_conn_token (st_heap st a)))"
    by (simp add: verify_work_conn_token_iff later(4))
  ultimately show ?thesis
    using u(1) by (intro exI [of _ u]) (simp add: handle_work_connection_def frame later(2))
qed

definition arrives_as :: "bool \<Rightarrow> frame \<Rightarrow> bytes \<Rightarrow> conn_in \<Rightarrow> bool" where
  \<comment> \<open>a connection that starts with this frame, in the clear or inside TLS, whose first byte is that
      of a handshake record\<close>
  "arrives_as is_tls f rest c \<longleftrightarrow>
     cn_first c = FirstBytes (wire f @ rest) \<and>
     (if is_tls then cn_peek c = Peeked (Some 0x16) \<and> cn_handshake c = HandshakeDone (Inr ())
      else cn_peek c = Peeked (Some (hd (wire f @ rest))))"

lemma first_byte_not_tls: "f_version f = PROTOCOL_VERSION \<Longrightarrow> hd (wire f @ rest) \<noteq> 0x16"
  by (simp add: wire_def header_bytes_def PROTOCOL_VERSION_def)

lemma work_conn_admitted:
  assumes "arrives_as is_tls f rest c" and "frame_ok f" and "f_msg_type f = MSG_START_WORK_CONN"
    and "is_tls \<longleftrightarrow> sv_work_conn_tls (sc_server config)" and "is_tls \<longrightarrow> tls"
  shows "handle_connection j lower config tls c x st =
    (let (r, st) = handle_work_connection j f (cn_handle c) (cn_now c) (cx_udp_events x) st
     in (rbind r (\<lambda>w. Inr (WorkServed w)), st))"
proof -
  have "read_one_frame (wire f @ rest) = Inr (f, rest)"
    by (simp add: read_one_frame_agrees decode_wire [OF assms(2)])
  then have ff: "first_frame (cn_first c) = Inr (f, rest)"
    using assms(1) by (simp add: arrives_as_def first_frame_def)
  have t: "MSG_START_WORK_CONN \<noteq> MSG_LOGIN" by (simp add: msg_type_defs)
  show ?thesis
  proof (cases is_tls)
    case True
    with assms ff t show ?thesis
      by (simp add: arrives_as_def handle_connection_def server_tls_accept_def map_err_def serve_first_frame_def Let_def)
  next
    case False
    moreover from assms(2) have "hd (wire f @ rest) \<noteq> 0x16" by (intro first_byte_not_tls) (simp add: frame_ok_def)
    ultimately show ?thesis
      using assms ff t by (simp add: arrives_as_def handle_connection_def serve_first_frame_def Let_def)
  qed
qed

text \<open>
  C1 --- End to end, a user connection reaches the local service: if a user arrives at a proxy of
  a client and has to wait, and the client, having logged in with the answer the server gave its
  session, serves the request for that id, then the connection it opens, in the clear or through TLS as
  that answer told it, passes the server's transport check, and its first frame makes the server
  bridge this very user with this work connection, as long as the entry, the session and the proxy's index
  are still in place when it arrives.
\<close>

theorem user_reaches_service:
  assumes user: "dispatch_user_connection probe name handle a now st = (Waiting wk, st1)"
    and id: "wk \<noteq> WORK_ID_POOL_RESERVED"
    and login: "login_resp_of sconfig (st_heap st a) = LoginResp resp"
    and served: "handle_work_conn j display env \<lparr>rw_proxy_name = name, rw_work_id = wk\<rparr>
        (accept_login config resp c) = (Inr (Started f), c')"
    and codec: "json_inverse j (StartWorkConn \<lparr>sw_proxy_name = name, sw_work_id = wk,
        sw_work_conn_token = Some (se_work_conn_token (st_heap st a))\<rparr>)"
    and later: "hm_get (st_pending t) wk = hm_get (st_pending st1) wk" "session_for_proxy t name = Some a"
      "se_session_id (st_heap t a) = se_session_id (st_heap st a)"
      "se_work_conn_token (st_heap t a) = se_work_conn_token (st_heap st a)" "\<not> is_udp_proxy t name"
    and work: "arrives_as (ck_work_conn_tls (accept_login config resp c)) f rest conn"
      "sv_work_conn_tls (sc_server sconfig) \<longrightarrow> tls"
  shows "\<exists>user. uc_handle user = handle \<and>
    handle_connection j lower sconfig tls conn x t =
      (Inr (WorkServed (BridgedWith user)), t\<lparr>st_pending := hm_remove wk (st_pending t),
         st_bridges := (user, cn_handle conn, []) # st_bridges t\<rparr>)"
proof -
  from started_work_claims_user [OF user id login served codec later, of "cn_handle conn" "cn_now conn" "cx_udp_events x"]
  obtain u where u: "uc_handle u = handle" "handle_work_connection j f (cn_handle conn) (cn_now conn) (cx_udp_events x) t =
      (Inr (BridgedWith u), t\<lparr>st_pending := hm_remove wk (st_pending t),
         st_bridges := (u, cn_handle conn, []) # st_bridges t\<rparr>)" by blast
  have agreed: "ck_work_conn_tls (accept_login config resp c) \<longleftrightarrow> sv_work_conn_tls (sc_server sconfig)"
    using login by (auto simp: login_resp_of_def accept_login_def on_client_metrics_def)
  note sent = handle_sends [OF served]
  from handle_started_size [OF served] have "frame_ok f" "f_msg_type f = MSG_START_WORK_CONN"
    using sent by (auto simp: frame_ok_def to_frame_type)
  from work_conn_admitted [OF work(1) this, of sconfig tls j lower x t] agreed work(2) u show ?thesis
    by (intro exI [of _ u]) simp
qed

definition demo_user_start :: start_work_conn where
  "demo_user_start = \<lparr>sw_proxy_name = ''ssh'', sw_work_id = 1, sw_work_conn_token = Some ''tok''\<rparr>"

definition demo_user_json :: json where
  \<comment> \<open>a codec for this one start message\<close>
  "demo_user_json =
     demo_json\<lparr>ser_start_work_conn := (\<lambda>_. Inr []), de_start_work_conn := (\<lambda>_. Inr demo_user_start)\<rparr>"

definition demo_reached :: work_env where
  "demo_reached =
     \<lparr>we_connect = Ready, we_tls = Ready, we_udp_bind = Inr (), we_udp_connect = Inr (),
      we_local = Ready, we_send = Inr ()\<rparr>"

definition demo_login_answer :: login_resp where
  "demo_login_answer =
     \<lparr>lr_ok = True, lr_error = None, lr_session_id = Some ''s1'', lr_work_conn_tls = Some False,
      lr_work_conn_token = Some ''tok''\<rparr>"

definition demo_served_client :: client_state where
  "demo_served_client = demo_client\<lparr>ck_proxies := [(''ssh'', demo_proxy)]\<rparr>"

lemma demo_dispatch:
  "fst (dispatch_user_connection (\<lambda>_. ProbePending) ''ssh'' 9 0 5 demo_work_state) = Waiting 1"
proof -
  obtain r st' where d: "dispatch_user_connection (\<lambda>_. ProbePending) ''ssh'' 9 0 5 demo_work_state = (r, st')"
    by fastforce
  have "st_work_id demo_work_state = 0" "pool_of 0 ''ssh'' demo_work_state = []"
    "active_connections (st_metrics demo_work_state) < st_max_active demo_work_state"
    by (simp_all add: demo_work_state_def login_commit_def index_proxy_def server_state_new_def pool_of_def
        session_new_def active_connections_def metrics_new_def zero_counters_def
        MAX_ACTIVE_CONNECTIONS_def Let_def)
  with dispatch_cases [OF d] d show ?thesis by (auto simp: handed_over_def)
qed

lemma demo_state_facts:
  "session_for_proxy demo_work_state ''ssh'' = Some 0" "\<not> is_udp_proxy demo_work_state ''ssh''"
  "login_resp_of demo_open_config (st_heap demo_work_state 0) = LoginResp demo_login_answer"
  "se_work_conn_token (st_heap demo_work_state 0) = ''tok''"
  by (simp_all add: demo_work_state_def login_commit_def index_proxy_def server_state_new_def session_new_def
      session_for_proxy_def is_udp_proxy_def login_resp_of_def demo_login_answer_def demo_open_config_def
      Let_def)

lemma demo_serves:
  "\<exists>f c'. handle_work_conn demo_user_json describe_io_error demo_reached \<lparr>rw_proxy_name = ''ssh'', rw_work_id = 1\<rparr>
     (accept_login config demo_login_answer demo_served_client) = (Inr (Started f), c')"
proof -
  let ?s = "accept_login config demo_login_answer demo_served_client"
  have s: "hm_get (ck_proxies ?s) ''ssh'' = Some demo_proxy" "\<not> ck_work_conn_tls ?s"
    "ck_work_conn_token ?s = Some ''tok''"
    by (simp_all add: accept_login_def on_client_metrics_def demo_served_client_def demo_login_answer_def hm_get_def)
  then have "reached demo_reached ?s demo_proxy"
    by (simp add: reached_def demo_reached_def demo_proxy_def)
  from handle_reached [OF _ this, of "\<lparr>rw_proxy_name = ''ssh'', rw_work_id = 1\<rparr>" demo_user_json describe_io_error] s
  have "handle_work_conn demo_user_json describe_io_error demo_reached \<lparr>rw_proxy_name = ''ssh'', rw_work_id = 1\<rparr> ?s =
      send_start demo_user_json demo_reached \<lparr>rw_proxy_name = ''ssh'', rw_work_id = 1\<rparr> ?s" by simp
  then show ?thesis
    by (simp add: send_start_def to_frame_def demo_user_json_def demo_reached_def frame_new_def encode_def map_err_def)
qed

theorem user_reaches_service_witness:
  "\<exists>f user st1. dispatch_user_connection (\<lambda>_. ProbePending) ''ssh'' 9 0 5 demo_work_state = (Waiting 1, st1) \<and>
     uc_handle user = 9 \<and>
     fst (handle_connection demo_user_json to_ascii_lowercase demo_open_config False
       (demo_conn\<lparr>cn_first := FirstBytes (wire f), cn_peek := Peeked (Some (hd (wire f)))\<rparr>) demo_tasks
       (demo_work_state\<lparr>st_pending := st_pending st1\<rparr>)) = Inr (WorkServed (BridgedWith user))"
proof -
  obtain st1 where d: "dispatch_user_connection (\<lambda>_. ProbePending) ''ssh'' 9 0 5 demo_work_state = (Waiting 1, st1)"
    using demo_dispatch by (metis prod.collapse)
  obtain f c' where s: "handle_work_conn demo_user_json describe_io_error demo_reached
      \<lparr>rw_proxy_name = ''ssh'', rw_work_id = 1\<rparr> (accept_login demo_config demo_login_answer demo_served_client) =
      (Inr (Started f), c')" using demo_serves by blast
  let ?conn = "demo_conn\<lparr>cn_first := FirstBytes (wire f), cn_peek := Peeked (Some (hd (wire f)))\<rparr>"
  let ?t = "demo_work_state\<lparr>st_pending := st_pending st1\<rparr>"
  have t: "session_for_proxy ?t ''ssh'' = Some 0" "\<not> is_udp_proxy ?t ''ssh''"
    using demo_state_facts(1,2) by (simp_all add: session_for_proxy_def is_udp_proxy_def split: option.splits)
  have codec: "json_inverse demo_user_json (StartWorkConn \<lparr>sw_proxy_name = ''ssh'', sw_work_id = 1,
      sw_work_conn_token = Some (se_work_conn_token (st_heap demo_work_state 0))\<rparr>)"
    by (simp add: demo_state_facts(4)) (simp add: demo_user_json_def demo_user_start_def)
  have id: "(1 :: u64) \<noteq> WORK_ID_POOL_RESERVED" by (simp add: WORK_ID_POOL_RESERVED_def)
  have conn: "arrives_as (ck_work_conn_tls (accept_login demo_config demo_login_answer demo_served_client)) f [] ?conn"
    by (simp add: arrives_as_def accept_login_def on_client_metrics_def demo_login_answer_def)
  have tls: "sv_work_conn_tls (sc_server demo_open_config) \<longrightarrow> False" by (simp add: demo_open_config_def)
  from user_reaches_service [OF d id demo_state_facts(3) s codec _ t(1) _ _ t(2) conn tls,
      of to_ascii_lowercase demo_tasks]
  obtain user where "uc_handle user = 9"
    "fst (handle_connection demo_user_json to_ascii_lowercase demo_open_config False ?conn demo_tasks ?t) =
       Inr (WorkServed (BridgedWith user))" by auto
  with d show ?thesis by blast
qed

end
