(* ===== verification/WebText.thy ===== *)
theory WebText
  imports Http Accept RateLimit SockAddr Msg
begin

text \<open>
  Text the two HTTP endpoints decode and produce: lossy UTF-8 decoding and substring replacement
  of the standard library, URL-encoded form values (\<open>percent_decode\<close> of \<open>rfrps/src/dashboard.rs\<close>),
  JSON values, whose printing is \<open>serde_json\<close>'s, and the accept loop the two endpoints have in
  common (\<open>run_dashboard\<close>, and \<open>run_status_server\<close> of \<open>rfrpc/src/status.rs\<close>).
\<close>

section \<open>Lossy UTF-8\<close>

definition byte_at :: "nat \<Rightarrow> string \<Rightarrow> nat" where
  "byte_at n s = (if n < length s then of_char (s ! n) else 0)"

definition between :: "nat \<Rightarrow> nat \<Rightarrow> nat \<Rightarrow> bool" where
  "between a b n \<longleftrightarrow> a \<le> n \<and> n \<le> b"

definition second_ok :: "nat \<Rightarrow> nat \<Rightarrow> bool" where
  \<comment> \<open>the second byte after a lead byte of three or four\<close>
  "second_ok a b =
     (if a = 224 then between 160 191 b else if a = 237 then between 128 159 b
      else if a = 240 then between 144 191 b else if a = 244 then between 128 143 b
      else between 128 191 b)"

definition utf8_chunk :: "string \<Rightarrow> nat \<times> bool" where
  \<comment> \<open>how many bytes the next step takes, and whether they are a character\<close>
  "utf8_chunk s =
     (let a = byte_at 0 s; b = byte_at 1 s; c = byte_at 2 s; d = byte_at 3 s in
      if a < 128 then (1, True)
      else if between 194 223 a then (if between 128 191 b then (2, True) else (1, False))
      else if between 224 239 a
      then (if \<not> second_ok a b then (1, False)
            else if \<not> between 128 191 c then (2, False) else (3, True))
      else if between 240 244 a
      then (if \<not> second_ok a b then (1, False)
            else if \<not> between 128 191 c then (2, False)
            else if \<not> between 128 191 d then (3, False) else (4, True))
      else (1, False))"

definition REPLACEMENT :: string where
  "REPLACEMENT = [CHR 0xEF, CHR 0xBF, CHR 0xBD]"

lemma utf8_chunk_pos: "0 < fst (utf8_chunk s)"
  by (simp add: utf8_chunk_def Let_def)

function from_utf8_lossy :: "string \<Rightarrow> string" where
  "from_utf8_lossy s =
     (if s = [] then []
      else let (n, ok) = utf8_chunk s in
           (if ok then take n s else REPLACEMENT) @ from_utf8_lossy (drop n s))"
  by pat_completeness auto
termination
proof (relation "measure length")
  fix s n ok x
  assume "s \<noteq> []" "x = utf8_chunk s" "(n, ok) = x"
  then show "(drop n s, s) \<in> measure length" using utf8_chunk_pos [of s] by (metis drop_eq_Nil2 fst_conv
      in_measure length_drop diff_less length_greater_0_conv)
qed simp

declare from_utf8_lossy.simps [simp del]

lemma of_char_in: "byte_in a b c \<longleftrightarrow> between a b (of_char c)" "cont_byte c \<longleftrightarrow> between 128 191 (of_char c)"
  by (auto simp: byte_in_def cont_byte_def between_def Let_def)

lemma utf8_chunk_valid:
  assumes "utf8_valid (a # t)"
  shows "\<exists>n. utf8_chunk (a # t) = (n, True) \<and> utf8_valid (drop n (a # t))"
proof -
  have a: "byte_at 0 (a # t) = of_char a" by (simp add: byte_at_def)
  show ?thesis
  proof (cases "byte_in 0 127 a")
    case True
    then have "utf8_chunk (a # t) = (1, True)"
      by (simp add: of_char_in between_def utf8_chunk_def a Let_def)
    moreover have "utf8_valid t" using assms True by simp
    ultimately show ?thesis by (intro exI [of _ 1]) simp
  next
    case big: False
    with assms obtain b s1 where t: "t = b # s1" by (cases t) auto
    have b: "byte_at 1 (a # t) = of_char b" by (simp add: byte_at_def t)
    show ?thesis
    proof (cases "byte_in 194 223 a")
      case True
      with assms big have bb: "cont_byte b" "utf8_valid s1" by (simp_all add: t)
      with True have "utf8_chunk (a # t) = (2, True)"
        by (simp add: of_char_in between_def utf8_chunk_def a b [simplified] Let_def)
      with bb show ?thesis by (intro exI [of _ 2]) (simp add: t numeral_2_eq_2)
    next
      case big2: False
      with assms big obtain c s2 where s1: "s1 = c # s2" by (cases s1) (auto simp: t)
      have c: "byte_at 2 (a # t) = of_char c" by (simp add: byte_at_def t s1 numeral_2_eq_2)
      show ?thesis
      proof (cases "byte_in 224 239 a")
        case True
        then have "byte_in 224 224 a \<longleftrightarrow> of_char a = (224 :: nat)" "byte_in 237 237 a \<longleftrightarrow> of_char a = (237 :: nat)"
          by (auto simp: of_char_in between_def)
        note eqs = this
        from True assms big big2 have v: "cont_byte b" "cont_byte c" "utf8_valid s2"
          "byte_in 224 224 a \<longrightarrow> byte_in 160 191 b" "byte_in 237 237 a \<longrightarrow> byte_in 128 159 b"
          by (simp_all add: t s1)
        with eqs True have "second_ok (of_char a) (of_char b)"
          by (simp add: second_ok_def of_char_in between_def)
        with v True have "utf8_chunk (a # t) = (3, True)"
          by (simp add: of_char_in between_def utf8_chunk_def a b [simplified] c Let_def)
        with v show ?thesis by (intro exI [of _ 3]) (simp add: t s1 numeral_3_eq_3)
      next
        case False
        with assms big big2 obtain d s3 where s2: "s2 = d # s3" by (cases s2) (auto simp: t s1)
        have d: "byte_at 3 (a # t) = of_char d" by (simp add: byte_at_def t s1 s2 numeral_3_eq_3)
        from False assms big big2 have v: "cont_byte b" "cont_byte c" "cont_byte d" "utf8_valid s3"
          "byte_in 240 244 a" "byte_in 240 240 a \<longrightarrow> byte_in 144 191 b"
          "byte_in 244 244 a \<longrightarrow> byte_in 128 143 b"
          by (simp_all add: t s1 s2)
        moreover have "byte_in 240 240 a \<longleftrightarrow> of_char a = (240 :: nat)"
          "byte_in 244 244 a \<longleftrightarrow> of_char a = (244 :: nat)"
          using v(5) by (auto simp: of_char_in between_def)
        ultimately have "second_ok (of_char a) (of_char b)"
          by (simp add: second_ok_def of_char_in between_def)
        with v have "utf8_chunk (a # t) = (4, True)"
          by (simp add: of_char_in between_def utf8_chunk_def a b [simplified] c d Let_def)
        with v show ?thesis by (intro exI [of _ 4]) (simp add: t s1 s2 eval_nat_numeral)
      qed
    qed
  qed
qed

lemma utf8_valid_append: "utf8_valid s \<Longrightarrow> utf8_valid t \<Longrightarrow> utf8_valid (s @ t)"
proof (induction s rule: length_induct)
  case (1 s)
  note IH = 1(1) [rule_format, OF _ _ 1(3)]
  show ?case
  proof (cases s)
    case Nil
    with 1(3) show ?thesis by simp
  next
    case (Cons a r)
    show ?thesis
    proof (cases "byte_in 0 127 a")
      case True
      with 1(2) IH [of r] show ?thesis by (simp add: Cons)
    next
      case big: False
      with 1(2) obtain b r1 where r: "r = b # r1" by (cases r) (auto simp: Cons)
      show ?thesis
      proof (cases "byte_in 194 223 a")
        case True
        with 1(2) big IH [of r1] show ?thesis by (simp add: Cons r)
      next
        case big2: False
        with 1(2) big obtain c r2 where r1: "r1 = c # r2" by (cases r1) (auto simp: Cons r)
        show ?thesis
        proof (cases "byte_in 224 239 a")
          case True
          with 1(2) big big2 IH [of r2] show ?thesis by (simp add: Cons r r1)
        next
          case False
          with 1(2) big big2 obtain d r3 where r2: "r2 = d # r3" by (cases r2) (auto simp: Cons r r1)
          with False 1(2) big big2 IH [of r3] show ?thesis by (simp add: Cons r r1)
        qed
      qed
    qed
  qed
qed

lemma lossy_valid: "utf8_valid s \<Longrightarrow> from_utf8_lossy s = s"
proof (induction s rule: length_induct)
  case (1 s)
  show ?case
  proof (cases s)
    case Nil
    then show ?thesis by (simp add: from_utf8_lossy.simps)
  next
    case (Cons a t)
    from utf8_chunk_valid 1(2) obtain n where n: "utf8_chunk s = (n, True)" "utf8_valid (drop n s)"
      unfolding Cons by blast
    have "length (drop n s) < length s" using utf8_chunk_pos [of s] n(1) Cons by simp
    with 1(1) n have "from_utf8_lossy (drop n s) = drop n s" by blast
    with n(1) have "from_utf8_lossy s = take n s @ drop n s"
      by (subst from_utf8_lossy.simps) (simp add: Cons)
    then show ?thesis by simp
  qed
qed

section \<open>Replacing substrings\<close>

function str_replace :: "string \<Rightarrow> string \<Rightarrow> string \<Rightarrow> string" where
  \<comment> \<open>\<open>replace\<close> with a non-empty pattern\<close>
  "str_replace p by [] = []"
| "str_replace p by (c # s) =
     (if p \<noteq> [] \<and> has_prefix p (c # s) then by @ str_replace p by (drop (length p) (c # s))
      else c # str_replace p by s)"
  by pat_completeness auto
termination
  by (relation "measure (\<lambda>(p, by, s). length s)") (auto simp: neq_Nil_conv)

lemma str_replace_char: "str_replace [c] by s = concat (map (\<lambda>x. if x = c then by else [x]) s)"
  by (induction s) (auto simp: has_prefix_def)

section \<open>Form values\<close>

definition hex_val :: "char \<Rightarrow> nat option" where
  "hex_val c =
     (let n = of_char c :: nat in
      if 48 \<le> n \<and> n \<le> 57 then Some (n - 48)
      else if 97 \<le> n \<and> n \<le> 102 then Some (n - 97 + 10)
      else if 65 \<le> n \<and> n \<le> 70 then Some (n - 65 + 10)
      else None)"

fun percent_bytes :: "string \<Rightarrow> string" where
  \<comment> \<open>the loop over the bytes\<close>
  "percent_bytes [] = []"
| "percent_bytes (b # s) =
     (if b = CHR ''+'' then CHR '' '' # percent_bytes s
      else if b = CHR ''%''
      then (case s of
              x # y # rest \<Rightarrow>
                (case (hex_val x, hex_val y) of
                   (Some h, Some l) \<Rightarrow> char_of (h * 16 + l) # percent_bytes rest
                 | _ \<Rightarrow> CHR ''%'' # percent_bytes s)
            | _ \<Rightarrow> b # percent_bytes s)
      else b # percent_bytes s)"

definition percent_decode :: "string \<Rightarrow> string" where
  "percent_decode s = from_utf8_lossy (percent_bytes s)"

definition hex_char :: "nat \<Rightarrow> char" where
  "hex_char n = char_of (if n < 10 then 48 + n else 55 + n)"

definition percent_encode :: "string \<Rightarrow> string" where
  \<comment> \<open>what a browser may send: every byte as \<open>%XX\<close>\<close>
  "percent_encode s =
     concat (map (\<lambda>c. [CHR ''%'', hex_char (of_char c div 16), hex_char (of_char c mod 16)]) s)"

lemma hex_val_char: "n < 16 \<Longrightarrow> hex_val (hex_char n) = Some n"
  by (auto simp: hex_val_def hex_char_def Let_def)

lemma percent_bytes_encode: "percent_bytes (percent_encode s) = s"
proof (induction s)
  case (Cons c s)
  have "(of_char c :: nat) < 16 * 16" using nat_of_char_less_256 [of c] by simp
  then have "(of_char c :: nat) div 16 < 16" by (rule less_mult_imp_div_less)
  then show ?case
    using Cons hex_val_char [of "of_char c div 16"] hex_val_char [of "of_char c mod 16"]
    by (simp add: percent_encode_def)
qed (simp add: percent_encode_def)

lemma percent_decode_encode: "utf8_valid s \<Longrightarrow> percent_decode (percent_encode s) = s"
  by (simp add: percent_decode_def percent_bytes_encode lossy_valid)

lemma length_percent_encode: "length (percent_encode s) = 3 * length s"
  by (induction s) (simp_all add: percent_encode_def)

lemma hex_char_in: "n < 16 \<Longrightarrow> hex_char n \<in> set ''0123456789ABCDEF''"
proof -
  have "list_all (\<lambda>n. hex_char n \<in> set ''0123456789ABCDEF'') [0..<16]" by code_simp
  then show "n < 16 \<Longrightarrow> ?thesis" by (simp add: list_all_iff)
qed

lemma percent_encode_chars: "set (percent_encode s) \<subseteq> set ''%0123456789ABCDEF''"
proof -
  have "(of_char c :: nat) < 16 * 16" for c using nat_of_char_less_256 [of c] by simp
  then have "(of_char c :: nat) div 16 < 16" "(of_char c :: nat) mod 16 < 16" for c
    by (simp_all add: less_mult_imp_div_less)
  then have "hex_char (of_char c div 16) \<in> set ''0123456789ABCDEF''"
    "hex_char (of_char c mod 16) \<in> set ''0123456789ABCDEF''" for c
    by (simp_all only: hex_char_in)
  then have "set [CHR ''%'', hex_char (of_char c div 16), hex_char (of_char c mod 16)]
      \<subseteq> insert (CHR ''%'') (set ''0123456789ABCDEF'')" for c by simp
  then have "set (percent_encode s) \<subseteq> insert (CHR ''%'') (set ''0123456789ABCDEF'')"
    unfolding percent_encode_def set_concat set_map by blast
  then show ?thesis by simp
qed

section \<open>JSON values\<close>

datatype json_value =
    JNull
  | JBool bool
  | JNum int
  | JStr string
  | JArr "json_value list"
  | JObj "(string \<times> json_value) list"

definition JOpt :: "('a \<Rightarrow> json_value) \<Rightarrow> 'a option \<Rightarrow> json_value" where
  "JOpt f v = (case v of None \<Rightarrow> JNull | Some a \<Rightarrow> f a)"

definition JWord :: "'w :: len word \<Rightarrow> json_value" where
  "JWord w = JNum (uint w)"

definition PKG_VERSION :: string where
  "PKG_VERSION = ''0.1.0''"

definition LF :: string where "LF = [CHR 0x0A]"

definition dq :: "string \<Rightarrow> string" where
  \<comment> \<open>a string literal here cannot hold a double quote: a backquote stands for it\<close>
  "dq s = map (\<lambda>c. if c = CHR 0x60 then CHR 0x22 else c) s"

fun kind_name :: "proxy_type \<Rightarrow> string" where
  \<comment> \<open>the lower-case names of serde\<close>
  "kind_name Tcp = ''tcp''"
| "kind_name Udp = ''udp''"
| "kind_name Http = ''http''"
| "kind_name Https = ''https''"

section \<open>Requests\<close>

type_synonym reads = "(duration \<times> read_outcome) list"

datatype reply =
    Replied string     \<comment> \<open>the bytes written before the connection is closed\<close>
  | Closed             \<comment> \<open>no answer\<close>
  | Waiting            \<comment> \<open>the task still waits for the client\<close>

definition with_head ::
  "instant \<Rightarrow> ip_addr \<Rightarrow> reads \<Rightarrow> ip_addr rate_limiter \<Rightarrow> (instant \<Rightarrow> string \<Rightarrow> reply)
     \<Rightarrow> reply \<times> ip_addr rate_limiter" where
  \<comment> \<open>the start of either \<open>handle_request\<close>: read the head, then ask the limiter at the time it is read\<close>
  "with_head now ip rs limiter respond =
     (let timeout = from_secs HTTP_HEAD_TIMEOUT in
      case read_request_head timeout [] rs of
        (Inl e, _) \<Rightarrow> (Closed, limiter)
      | (Inr None, _) \<Rightarrow> (Closed, limiter)
      | (Inr (Some head), left) \<Rightarrow>
          let now = now + (timeout - left); (ok, limiter) = allow ip now limiter in
          if \<not> ok
          then (Replied (write_response 429 ''text/plain'' (''Too Many Requests'' @ LF) None), limiter)
          else (respond now head, limiter))"

lemma with_head_cong:
  assumes "\<And>now head left. read_request_head (from_secs HTTP_HEAD_TIMEOUT) [] rs = (Inr (Some head), left) \<Longrightarrow>
    f now head = g now head"
  shows "with_head now ip rs limiter f = with_head now ip rs limiter g"
  using assms
  by (auto simp: with_head_def Let_def split: prod.splits sum.splits option.splits)

lemma with_head_limiter: "snd (with_head now ip rs limiter f) = snd (with_head now ip rs limiter g)"
  by (auto simp: with_head_def Let_def split: prod.splits sum.splits option.splits)

section \<open>The accept loop\<close>

datatype 'q http_event =
    HttpAccepted
  | HttpAcceptError io_error
  | HttpServe 'q       \<comment> \<open>the task of an accepted connection\<close>
  | HttpShutdown

record http_run =
  hr_retry :: accept_retry
  hr_limiter :: "ip_addr rate_limiter"
  hr_replies :: "reply list"
  hr_slept :: duration

definition http_start :: http_run where
  "http_start =
     \<lparr>hr_retry = accept_retry_new, hr_limiter = rate_limiter_new 100 (from_secs 60), hr_replies = [],
      hr_slept = 0\<rparr>"

definition http_turn ::
  "('q \<Rightarrow> ip_addr rate_limiter \<Rightarrow> reply \<times> ip_addr rate_limiter) \<Rightarrow> 'q http_event \<Rightarrow> http_run
     \<Rightarrow> bool \<times> http_run" where
  \<comment> \<open>one turn of the \<open>select!\<close>; the flag tells that the loop is left\<close>
  "http_turn serve ev s =
     (case ev of
        HttpAccepted \<Rightarrow> (False, s\<lparr>hr_retry := record_ok (hr_retry s)\<rparr>)
      | HttpAcceptError e \<Rightarrow>
          let (retry, backoff) = record_err (hr_retry s) in
          (False, s\<lparr>hr_retry := retry, hr_slept := hr_slept s + backoff\<rparr>)
      | HttpServe q \<Rightarrow>
          let (r, limiter) = serve q (hr_limiter s) in
          (False, s\<lparr>hr_limiter := limiter, hr_replies := hr_replies s @ [r]\<rparr>)
      | HttpShutdown \<Rightarrow> (True, s))"

fun http_loop ::
  "('q \<Rightarrow> ip_addr rate_limiter \<Rightarrow> reply \<times> ip_addr rate_limiter) \<Rightarrow> 'q http_event list \<Rightarrow> http_run
     \<Rightarrow> bool \<times> http_run" where
  "http_loop serve [] s = (False, s)"
| "http_loop serve (ev # evs) s =
     (case http_turn serve ev s of
        (True, s) \<Rightarrow> (True, s)
      | (False, s) \<Rightarrow> http_loop serve evs s)"

lemma http_loop_stops: "fst (http_loop serve evs s) \<longleftrightarrow> HttpShutdown \<in> set evs"
  by (induction serve evs s rule: http_loop.induct)
    (auto simp: http_turn_def Let_def split: http_event.splits prod.splits bool.splits)

end
