(* ===== verification/Base64.thy ===== *)
theory Base64
  imports Strings
begin

text \<open>
  What the dashboard relies on of the \<open>base64\<close> crate, as a locale: encoded text decodes to what was
  encoded, and uses the standard alphabet only. The standard encoding of RFC 4648, with padding and
  canonical trailing bits, is an instance of it; the dashboard's definitions take the codec as an
  argument.
\<close>

definition B64_CHARS :: string where
  "B64_CHARS = ''ABCDEFGHIJKLMNOPQRSTUVWXYZabcdefghijklmnopqrstuvwxyz0123456789+/''"

record base64 =
  b64_enc :: "string \<Rightarrow> string"
  b64_dec :: "string \<Rightarrow> string option"

locale base64_codec =
  fixes enc :: "string \<Rightarrow> string" and dec :: "string \<Rightarrow> string option"
  assumes dec_enc: "dec (enc s) = Some s"
    and enc_chars: "set (enc s) \<subseteq> insert (CHR ''='') (set B64_CHARS)"
begin

lemma enc_inj: "enc s = enc t \<longleftrightarrow> s = t"
  by (metis dec_enc option.inject)

lemma enc_clean: "c \<notin> insert (CHR ''='') (set B64_CHARS) \<Longrightarrow> c \<notin> set (enc s)"
  using enc_chars by blast

end

section \<open>RFC 4648\<close>

definition b64_char :: "nat \<Rightarrow> char" where
  "b64_char n = B64_CHARS ! n"

definition b64_val :: "char \<Rightarrow> nat option" where
  "b64_val c = find (\<lambda>n. b64_char n = c) [0..<64]"

fun b64_encode :: "nat list \<Rightarrow> string" where
  \<comment> \<open>of the byte values\<close>
  "b64_encode [] = []"
| "b64_encode [a] = [b64_char (a div 4), b64_char (a mod 4 * 16), CHR ''='', CHR ''='']"
| "b64_encode [a, b] =
     [b64_char (a div 4), b64_char (a mod 4 * 16 + b div 16), b64_char (b mod 16 * 4), CHR ''='']"
| "b64_encode (a # b # c # r) =
     b64_char (a div 4) # b64_char (a mod 4 * 16 + b div 16) #
     b64_char (b mod 16 * 4 + c div 64) # b64_char (c mod 64) # b64_encode r"

fun b64_decode :: "string \<Rightarrow> nat list option" where
  "b64_decode [] = Some []"
| "b64_decode (w # x # y # z # r) =
     (case (b64_val w, b64_val x) of
        (Some p, Some q) \<Rightarrow>
          if y = CHR ''='' then
            (if z = CHR ''='' \<and> r = [] \<and> q mod 16 = 0 then Some [p * 4 + q div 16] else None)
          else (case b64_val y of
            None \<Rightarrow> None
          | Some u \<Rightarrow>
              if z = CHR ''='' then
                (if r = [] \<and> u mod 4 = 0
                 then Some [p * 4 + q div 16, q mod 16 * 16 + u div 4] else None)
              else (case (b64_val z, b64_decode r) of
                (Some v, Some bs) \<Rightarrow>
                  Some ((p * 4 + q div 16) # (q mod 16 * 16 + u div 4) # (u mod 4 * 64 + v) # bs)
              | _ \<Rightarrow> None))
      | _ \<Rightarrow> None)"
| "b64_decode _ = None"

definition rfc4648 :: base64 where
  "rfc4648 =
     \<lparr>b64_enc = (\<lambda>s. b64_encode (map of_char s)),
      b64_dec = (\<lambda>s. map_option (map char_of) (b64_decode s))\<rparr>"

lemma b64_chars: "distinct B64_CHARS" "length B64_CHARS = 64" "CHR ''='' \<notin> set B64_CHARS"
  by (simp_all add: B64_CHARS_def)

lemma b64_char_in: "n < 64 \<Longrightarrow> b64_char n \<in> set B64_CHARS"
  by (simp add: b64_char_def b64_chars)

lemma b64_char_pad: "n < 64 \<Longrightarrow> b64_char n \<noteq> CHR ''=''"
  using b64_char_in b64_chars(3) by metis

lemma b64_val_char: "n < 64 \<Longrightarrow> b64_val (b64_char n) = Some n"
proof -
  assume n: "n < 64"
  then have "\<forall>j < n. b64_char j \<noteq> b64_char n"
    by (simp add: b64_char_def b64_chars nth_eq_iff_index_eq)
  with n show ?thesis unfolding b64_val_def find_Some_iff by (intro exI [of _ n]) simp
qed

lemma byte_parts:
  assumes "n < (256 :: nat)"
  shows "n div 4 < 64" "n div 16 < 16" "n div 64 < 4"
  using assms by (simp_all add: less_mult_imp_div_less)

lemma sextets:
  assumes "n < (256 :: nat)"
  shows "m mod 4 * 16 < 64" "m mod 4 * 16 + n div 16 < 64" "m mod 16 * 4 < 64"
    "m mod 16 * 4 + n div 64 < 64"
proof -
  have "m mod 4 < 4" "m mod 16 < 16" by simp_all
  with byte_parts [OF assms] show "m mod 4 * 16 < 64" "m mod 4 * 16 + n div 16 < 64"
    "m mod 16 * 4 < 64" "m mod 16 * 4 + n div 64 < 64" by linarith+
qed

lemma b64_decode_encode: "list_all (\<lambda>n. n < 256) ns \<Longrightarrow> b64_decode (b64_encode ns) = Some ns"
  by (induction ns rule: b64_encode.induct)
    (simp_all add: b64_val_char b64_char_pad byte_parts sextets)

lemma b64_encode_chars:
  "list_all (\<lambda>n. n < 256) ns \<Longrightarrow> set (b64_encode ns) \<subseteq> insert (CHR ''='') (set B64_CHARS)"
  by (induction ns rule: b64_encode.induct) (simp_all add: b64_char_in byte_parts sextets)

lemma bytes_in_range: "list_all (\<lambda>n. n < 256) (map of_char s :: nat list)"
  by (simp add: list_all_iff nat_of_char_less_256)

interpretation rfc4648: base64_codec "b64_enc rfc4648" "b64_dec rfc4648"
  by unfold_locales
    (simp_all add: rfc4648_def b64_decode_encode b64_encode_chars bytes_in_range comp_def)

end
