(* ===== verification/Dashboard.thy ===== *)
theory Dashboard
  imports MetricsRender WebText Base64 Config_Server Auth
begin

text \<open>
  The server's dashboard (\<open>rfrps/src/dashboard.rs\<close>): who is let in, the login form and its cookie,
  and the routes. The parameters in \<open>dash_env\<close> are the crates \<open>httparse\<close>, \<open>base64\<close> and \<open>serde_json\<close>
  and the embedded file \<open>page.html\<close>. A request comes with the reads its connection delivers: those of
  the head, and those that come after it.
\<close>

record dash_env =
  de_httparse :: httparse
  de_base64 :: base64
  de_json :: "json_value \<Rightarrow> string"
  de_json_pretty :: "json_value \<Rightarrow> string"
  de_page :: string

definition SESSION_COOKIE :: string where "SESSION_COOKIE = ''rfrp_dashboard''"

definition MAX_LOGIN_BODY :: nat where "MAX_LOGIN_BODY = 4096"

section \<open>Credentials\<close>

fun find_map :: "('a \<Rightarrow> 'b option) \<Rightarrow> 'a list \<Rightarrow> 'b option" where
  "find_map f [] = None"
| "find_map f (x # xs) = (case f x of Some y \<Rightarrow> Some y | None \<Rightarrow> find_map f xs)"

definition cookie_value :: "string \<Rightarrow> string \<Rightarrow> string option" where
  "cookie_value cookie name =
     find_map
       (\<lambda>pair. case split_once ''='' pair of
          None \<Rightarrow> None
        | Some (k, v) \<Rightarrow> if trim k = name then Some (trim v) else None)
       (split_char CHR '';'' cookie)"

definition decode_basic :: "base64 \<Rightarrow> string \<Rightarrow> (string \<times> string) option" where
  "decode_basic b encoded =
     (case b64_dec b encoded of
        None \<Rightarrow> None
      | Some decoded \<Rightarrow> if utf8_valid decoded then split_once '':'' decoded else None)"

definition credentials_ok :: "dashboard_section \<Rightarrow> string \<times> string \<Rightarrow> bool" where
  "credentials_ok cfg up = (verify_token (da_user cfg) (fst up) \<and> verify_token (da_password cfg) (snd up))"

definition header_credentials :: "base64 \<Rightarrow> request_head \<Rightarrow> (string \<times> string) option" where
  "header_credentials b req =
     (case rq_authorization req of
        None \<Rightarrow> None
      | Some auth \<Rightarrow>
          (case strip_prefix ''Basic '' auth of
             None \<Rightarrow> None
           | Some encoded \<Rightarrow> decode_basic b (trim encoded)))"

definition cookie_credentials :: "base64 \<Rightarrow> request_head \<Rightarrow> (string \<times> string) option" where
  "cookie_credentials b req =
     (case rq_cookie req of
        None \<Rightarrow> None
      | Some cookie \<Rightarrow>
          (case cookie_value cookie SESSION_COOKIE of
             None \<Rightarrow> None
           | Some v \<Rightarrow> decode_basic b v))"

definition authorized :: "base64 \<Rightarrow> request_head \<Rightarrow> dashboard_section \<Rightarrow> bool" where
  \<comment> \<open>the first decodable pair decides\<close>
  "authorized b req cfg =
     (case header_credentials b req of
        Some up \<Rightarrow> credentials_ok cfg up
      | None \<Rightarrow>
          (case cookie_credentials b req of
             Some up \<Rightarrow> credentials_ok cfg up
           | None \<Rightarrow> False))"

section \<open>The login form\<close>

definition after_head :: "string \<Rightarrow> string" where
  \<comment> \<open>the bytes of the body that came with the head\<close>
  "after_head head = (case split_once (CRLF @ CRLF) head of None \<Rightarrow> [] | Some (_, rest) \<Rightarrow> rest)"

fun read_body_loop :: "nat \<Rightarrow> string \<Rightarrow> reads \<Rightarrow> (io_error, string) result option" where
  \<comment> \<open>\<open>None\<close> while a read is still pending: there is no deadline\<close>
  "read_body_loop len body [] = (if length body < len then None else Some (Inr (take len body)))"
| "read_body_loop len body ((_, r) # rs) =
     (if length body < len
      then (case r of
              Failed e \<Rightarrow> Some (Inl e)
            | Got d \<Rightarrow>
                if d = [] then Some (Inr (take len body))
                else read_body_loop len (body @ take (min (length d) (len - length body)) d) rs)
      else Some (Inr (take len body)))"

definition read_body :: "string \<Rightarrow> nat \<Rightarrow> reads \<Rightarrow> (io_error, string) result option" where
  "read_body head len rs = read_body_loop len (after_head head) rs"

definition form_pair :: "string \<Rightarrow> string \<times> string \<Rightarrow> string \<times> string" where
  \<comment> \<open>one turn of the loop over the pairs\<close>
  "form_pair pair up =
     (case split_once ''='' pair of
        None \<Rightarrow> up
      | Some (k, v) \<Rightarrow>
          let key = percent_decode k in
          if key = ''user'' \<or> key = ''username'' then (percent_decode v, snd up)
          else if key = ''password'' \<or> key = ''pass'' then (fst up, percent_decode v)
          else up)"

definition parse_login_form :: "string \<Rightarrow> string \<times> string" where
  "parse_login_form body = fold form_pair (split_char CHR ''&'' (from_utf8_lossy body)) ([], [])"

section \<open>Pages\<close>

definition TXT_LOGIN :: string where
  "TXT_LOGIN = map char_of [231, 153, 187, 229, 189, 149 :: nat]"

definition TXT_USER :: string where
  "TXT_USER = map char_of [231, 148, 168, 230, 136, 183, 229, 144, 141 :: nat]"

definition TXT_PASSWORD :: string where
  "TXT_PASSWORD = map char_of [229, 175, 134, 231, 160, 129 :: nat]"

definition TXT_BAD_LOGIN :: string where
  "TXT_BAD_LOGIN = map char_of [231, 148, 168, 230, 136, 183, 229, 144, 141, 230, 136, 150, 229, 175, 134, 231, 160, 129, 233, 148, 153, 232, 175, 175 :: nat]"

definition LOGIN_HEAD :: string where
  "LOGIN_HEAD =
     dq ''<!DOCTYPE html><html lang=`zh-CN`><head><meta charset=`utf-8`><meta na'' @
     dq ''me=`viewport` content=`width=device-width,initial-scale=1`><title>rfrp'' @
     dq '' dashboard '' @
     TXT_LOGIN @
     dq ''</title><style>body{font-family:system-ui,sans-serif;background:#f5f6f'' @
     dq ''8;margin:0;display:flex;align-items:center;justify-content:center;min-'' @
     dq ''height:100vh}form{background:#fff;padding:2rem;border-radius:8px;box-s'' @
     dq ''hadow:0 2px 12px rgba(0,0,0,.08);width:280px}h1{font-size:1.1rem;margi'' @
     dq ''n:0 0 1rem}label{display:block;font-size:.85rem;color:#555;margin:.6re'' @
     dq ''m 0 .2rem}input{width:100%;box-sizing:border-box;padding:.5rem;border:'' @
     dq ''1px solid #ccc;border-radius:4px}button{margin-top:1.2rem;width:100%;p'' @
     dq ''adding:.55rem;border:0;border-radius:4px;background:#2563eb;color:#fff'' @
     dq '';font-size:.95rem;cursor:pointer}.error{color:#b91c1c;font-size:.85rem'' @
     dq '';margin:.6rem 0 0}</style></head><body><form method=`post` action=`/lo'' @
     dq ''gin`><h1>rfrp dashboard</h1>''"

definition LOGIN_TAIL :: string where
  "LOGIN_TAIL =
     dq ''<label for=`u`>'' @
     TXT_USER @
     dq ''</label><input id=`u` name=`user` autocomplete=`username` autofocus><l'' @
     dq ''abel for=`p`>'' @
     TXT_PASSWORD @
     dq ''</label><input id=`p` name=`password` type=`password` autocomplete=`cu'' @
     dq ''rrent-password`><button type=`submit`>'' @
     TXT_LOGIN @
     dq ''</button></form></body></html>''"

definition render_login_page :: "string option \<Rightarrow> string" where
  "render_login_page err =
     LOGIN_HEAD @
     (case err of None \<Rightarrow> [] | Some e \<Rightarrow> dq ''<p class=`error`>'' @ html_escape e @ ''</p>'') @
     LOGIN_TAIL"

definition write_login_page :: "string option \<Rightarrow> string" where
  "write_login_page err =
     write_response 401 ''text/html; charset=utf-8'' (render_login_page err)
       (Some ''Cache-Control: no-store'')"

definition health_response :: "server_state \<Rightarrow> nat \<times> string" where
  "health_response st =
     (if mt_accepting (st_metrics st) then (200, ''ok'' @ LF)
      else (503, ''unhealthy: accept loop failing'' @ LF))"

definition entry_json :: "string \<times> proxy_entry \<Rightarrow> json_value" where
  "entry_json ne =
     JObj [(''name'', JStr (fst ne)), (''kind'', JStr (kind_name (pe_kind (snd ne)))),
           (''remote_port'', JOpt JWord (pe_remote_port (snd ne))),
           (''domains'', JArr (map JStr (pe_custom_domains (snd ne))))]"

definition session_json :: "session \<Rightarrow> json_value" where
  "session_json s =
     JObj [(''run_id'', JStr (se_run_id s)), (''session_id'', JStr (se_session_id s)),
           (''proxies'', JArr (map entry_json (se_proxies s)))]"

definition stats_json :: "metrics \<Rightarrow> string \<times> nat \<Rightarrow> json_value" where
  "stats_json m na =
     JObj [(''name'', JStr (fst na)),
           (''bytes_up'', JWord (ct_read (sh_extra (mt_shared m) (snd na)))),
           (''bytes_down'', JWord (ct_write (sh_extra (mt_shared m) (snd na)))),
           (''connections_total'', JWord (mt_proxy_connections m (snd na))),
           (''active_connections'', JNum (ct_active (sh_extra (mt_shared m) (snd na))))]"

definition metrics_json :: "metrics \<Rightarrow> json_value" where
  "metrics_json m =
     JObj [(''total_connections'', JWord (mt_total_connections m)),
           (''active_connections'', JNum (active_connections m)),
           (''bytes_up'', JWord (ct_read (sh_main (mt_shared m)))),
           (''bytes_down'', JWord (ct_write (sh_main (mt_shared m)))),
           (''accepted_total'', JWord (mt_accepted_total m)),
           (''accept_errors_total'', JWord (mt_accept_errors_total m)),
           (''udp_dropped_total'', JWord (mt_udp_dropped_total m)),
           (''accepting'', JBool (mt_accepting m))]"

definition status_json :: "instant \<Rightarrow> server_state \<Rightarrow> json_value" where
  "status_json now st =
     (let g = gauges_of st; m = st_metrics st in
      JObj [(''version'', JStr PKG_VERSION),
            (''uptime_seconds'', JNum (int (uptime_secs now m))),
            (''sessions'', JArr (map (\<lambda>a. session_json (st_heap st a)) (hm_values (st_sessions st)))),
            (''pending_work'', JNum (int (ga_pending_work g))),
            (''udp_sessions'', JNum (int (ga_udp_sessions g))),
            (''proxies'', JNum (int (ga_proxies g))),
            (''pooled_work_conns'', JNum (int (ga_pooled_work_conns g))),
            (''rtt_ms'', JWord (mt_rtt_ms m)),
            (''proxy_stats'', JArr (map (stats_json m) (sort_key fst (st_proxy_stats st)))),
            (''metrics'', metrics_json m)])"

definition bootstrap_json :: "dash_env \<Rightarrow> instant \<Rightarrow> server_state \<Rightarrow> string" where
  \<comment> \<open>the status as it is put into the page's script block\<close>
  "bootstrap_json env now st =
     str_replace ''&'' (CHR 0x5C # ''u0026'')
       (str_replace ''>'' (CHR 0x5C # ''u003e'')
          (str_replace ''<'' (CHR 0x5C # ''u003c'') (de_json env (status_json now st))))"

definition render_html :: "dash_env \<Rightarrow> instant \<Rightarrow> server_state \<Rightarrow> string" where
  "render_html env now st =
     str_replace ''__BOOTSTRAP__'' (bootstrap_json env now st)
       (str_replace ''__VERSION__'' PKG_VERSION (de_page env))"

section \<open>A request\<close>

definition text_reply :: "nat \<Rightarrow> string \<Rightarrow> string option \<Rightarrow> reply" where
  \<comment> \<open>a plain-text response of one line\<close>
  "text_reply status line hdr = Replied (write_response status ''text/plain'' (line @ LF) hdr)"

definition session_cookie :: "base64 \<Rightarrow> string \<times> string \<Rightarrow> string" where
  "session_cookie b up = SESSION_COOKIE @ ''='' @ b64_enc b (fst up @ '':'' @ snd up)"

definition login_reply ::
  "dash_env \<Rightarrow> dashboard_section \<Rightarrow> string \<Rightarrow> request_head \<Rightarrow> reads \<Rightarrow> reply" where
  \<comment> \<open>the branch for \<open>POST /login\<close>\<close>
  "login_reply env cfg head req body_reads =
     (if MAX_LOGIN_BODY < rq_content_length req then text_reply 400 ''Bad Request'' None
      else case read_body head (rq_content_length req) body_reads of
             None \<Rightarrow> Waiting
           | Some (Inl e) \<Rightarrow> Closed
           | Some (Inr body) \<Rightarrow>
               let up = parse_login_form body in
               if credentials_ok cfg up
               then Replied (write_response 302 ''text/plain'' []
                      (Some (''Location: /'' @ CRLF @ ''Set-Cookie: '' @ session_cookie (de_base64 env) up @
                             ''; HttpOnly; SameSite=Strict; Path=/'')))
               else Replied (write_login_page (Some TXT_BAD_LOGIN)))"

definition route ::
  "dash_env \<Rightarrow> instant \<Rightarrow> server_state \<Rightarrow> string \<Rightarrow> reply" where
  \<comment> \<open>the routes behind the login\<close>
  "route env now st path =
     (if path = ''/login'' then Replied (write_response 302 ''text/plain'' [] (Some ''Location: /''))
      else if path = ''/logout''
      then Replied (write_response 302 ''text/plain'' []
             (Some (''Location: /'' @ CRLF @ ''Set-Cookie: '' @ SESSION_COOKIE @
                    ''=; Max-Age=0; HttpOnly; SameSite=Strict; Path=/'')))
      else if path = ''/''
      then Replied (write_response 200 ''text/html; charset=utf-8'' (render_html env now st) None)
      else if path = ''/api/status''
      then Replied (write_response 200 ''application/json'' (de_json_pretty env (status_json now st)) None)
      else if path = ''/metrics''
      then Replied (write_response 200 ''text/plain; version=0.0.4'' (render_prometheus now st) None)
      else text_reply 404 ''Not Found'' None)"

definition dashboard_reply ::
  "dash_env \<Rightarrow> dashboard_section \<Rightarrow> server_state \<Rightarrow> reads \<Rightarrow> instant \<Rightarrow> string \<Rightarrow> reply" where
  \<comment> \<open>\<open>handle_request\<close> once the head is read and the limiter has let it pass\<close>
  "dashboard_reply env cfg st body_reads now head =
     (let req = parse_request_head (de_httparse env) head in
      if rq_path req = ''/healthz''
      then (let (status, body) = health_response st in
            Replied (write_response status ''text/plain'' body None))
      else let authenticated = authorized (de_base64 env) req cfg in
        if eq_ignore_ascii_case (rq_method req) ''POST'' \<and> rq_path req = ''/login''
        then login_reply env cfg head req body_reads
        else if \<not> authenticated
        then (if rq_accept_html req \<or> rq_path req = ''/login'' then Replied (write_login_page None)
              else text_reply 401 ''Unauthorized''
                     (Some (dq ''WWW-Authenticate: Basic realm=`rfrp dashboard`'')))
        else route env now st (rq_path req))"

definition handle_dashboard_request ::
  "dash_env \<Rightarrow> dashboard_section \<Rightarrow> server_state \<Rightarrow> instant \<Rightarrow> ip_addr \<Rightarrow> reads \<Rightarrow> reads
     \<Rightarrow> ip_addr rate_limiter \<Rightarrow> reply \<times> ip_addr rate_limiter" where
  "handle_dashboard_request env cfg st now ip head_reads body_reads limiter =
     with_head now ip head_reads limiter (dashboard_reply env cfg st body_reads)"

definition run_dashboard ::
  "dash_env \<Rightarrow> dashboard_section \<Rightarrow> (server_state \<times> instant \<times> ip_addr \<times> reads \<times> reads) http_event list
     \<Rightarrow> bool \<times> http_run" where
  \<comment> \<open>each request sees the state the server has when its task runs\<close>
  "run_dashboard env cfg evs =
     http_loop (\<lambda>(st, now, ip, hs, bs). handle_dashboard_request env cfg st now ip hs bs) evs http_start"

section \<open>Facts about credentials\<close>

lemma credentials_ok_iff: "credentials_ok cfg up \<longleftrightarrow> up = (da_user cfg, da_password cfg)"
  by (cases up) (auto simp: credentials_ok_def verify_token_eq)

lemma decode_basic_Some:
  "decode_basic b e = Some (u, p) \<Longrightarrow> b64_dec b e = Some (u @ '':'' @ p) \<and> CHR '':'' \<notin> set u"
proof -
  assume a: "decode_basic b e = Some (u, p)"
  then obtain d where d: "b64_dec b e = Some d" "split_once '':'' d = Some (u, p)"
    by (auto simp: decode_basic_def split: option.splits if_splits)
  have "CHR '':'' \<notin> set u" using d(2)
    by (induction d arbitrary: u) (auto simp: has_prefix_def split: if_splits)
  with d split_once_Some [OF d(2)] show ?thesis by simp
qed

definition presented :: "request_head \<Rightarrow> string set" where
  \<comment> \<open>the encoded credentials a request carries\<close>
  "presented req =
     {trim e | e. \<exists>a. rq_authorization req = Some a \<and> strip_prefix ''Basic '' a = Some e} \<union>
     {v. \<exists>c. rq_cookie req = Some c \<and> cookie_value c SESSION_COOKIE = Some v}"

lemma authorized_needs_credentials:
  assumes "authorized b req cfg"
  shows "CHR '':'' \<notin> set (da_user cfg)"
    and "\<exists>e \<in> presented req. b64_dec b e = Some (da_user cfg @ '':'' @ da_password cfg)"
proof -
  from assms have "header_credentials b req = Some (da_user cfg, da_password cfg) \<or>
      cookie_credentials b req = Some (da_user cfg, da_password cfg)"
    by (auto simp: authorized_def credentials_ok_iff split: option.splits)
  then have "\<exists>e \<in> presented req. decode_basic b e = Some (da_user cfg, da_password cfg)"
    by (auto simp: header_credentials_def cookie_credentials_def presented_def split: option.splits)
  with decode_basic_Some show "CHR '':'' \<notin> set (da_user cfg)"
    "\<exists>e \<in> presented req. b64_dec b e = Some (da_user cfg @ '':'' @ da_password cfg)" by blast+
qed

section \<open>Facts about the form\<close>

definition login_form :: "string \<Rightarrow> string \<Rightarrow> string" where
  \<comment> \<open>the body a browser submits\<close>
  "login_form user pass =
     ''user='' @ percent_encode user @ ''&password='' @ percent_encode pass"

definition delivered_bytes :: "reads \<Rightarrow> string" where
  "delivered_bytes rs = concat (map (\<lambda>(_, r). case r of Got d \<Rightarrow> d | Failed _ \<Rightarrow> []) rs)"

definition data_reads :: "reads \<Rightarrow> bool" where
  "data_reads rs = list_all (\<lambda>(_, r). case r of Got d \<Rightarrow> d \<noteq> [] | Failed _ \<Rightarrow> False) rs"

lemma read_body_loop_all:
  "data_reads rs \<Longrightarrow> len \<le> length (body @ delivered_bytes rs) \<Longrightarrow>
     read_body_loop len body rs = Some (Inr (take len (body @ delivered_bytes rs)))"
  by (induction len body rs rule: read_body_loop.induct)
    (auto simp: data_reads_def delivered_bytes_def min_def split: read_outcome.splits)

lemma percent_encode_ascii: "c \<in> set (percent_encode s) \<Longrightarrow> (of_char c :: nat) < 128 \<and> c \<notin> set ''&=;''"
  using percent_encode_chars [of s] by auto

lemma login_form_ascii: "utf8_valid (login_form u p)"
  by (rule utf8_ascii) (auto simp: login_form_def list_all_iff dest: percent_encode_ascii)

lemma parse_login_form_ok:
  assumes "utf8_valid u" "utf8_valid p"
  shows "parse_login_form (login_form u p) = (u, p)"
proof -
  have u: "CHR ''&'' \<notin> set (''user='' @ percent_encode u)"
    and p: "CHR ''&'' \<notin> set (''password='' @ percent_encode p)"
    by (auto dest: percent_encode_ascii)
  have "split_char CHR ''&'' (login_form u p) = [''user='' @ percent_encode u, ''password='' @ percent_encode p]"
    using split_char_append [OF u, of "''password='' @ percent_encode p"] split_char_none [OF p]
    by (simp add: login_form_def)
  moreover have "split_once ''='' (''user'' @ CHR ''='' # t) = Some (''user'', t)"
    "split_once ''='' (''password'' @ CHR ''='' # t) = Some (''password'', t)" for t
    by (rule split_once_char; simp)+
  moreover have "percent_decode ''user'' = ''user''" "percent_decode ''password'' = ''password''" by code_simp+
  ultimately show ?thesis using assms
    by (simp add: parse_login_form_def lossy_valid [OF login_form_ascii] form_pair_def Let_def
        percent_decode_encode)
qed

section \<open>Facts about the cookie\<close>

lemma session_cookie_value:
  assumes "base64_codec (b64_enc b) (b64_dec b)"
  shows "cookie_value (session_cookie b up) SESSION_COOKIE = Some (b64_enc b (fst up @ '':'' @ snd up))"
proof -
  define e where "e = b64_enc b (fst up @ '':'' @ snd up)"
  have chars: "list_all (\<lambda>c. 33 \<le> (of_char c :: nat) \<and> (of_char c :: nat) < 128)
      (CHR ''='' # B64_CHARS @ SESSION_COOKIE)" by (simp add: B64_CHARS_def SESSION_COOKIE_def)
  have "set e \<subseteq> insert (CHR ''='') (set B64_CHARS)"
    unfolding e_def by (rule base64_codec.enc_chars [OF assms])
  moreover have ws: "list_all no_ws (CHR ''='' # B64_CHARS @ SESSION_COOKIE)"
    using chars unfolding list_all_iff by (blast intro: no_ws_char)
  ultimately have "list_all no_ws e" by (auto simp: list_all_iff)
  moreover from ws have "list_all no_ws SESSION_COOKIE" by simp
  ultimately have trims: "trim e = e" "trim SESSION_COOKIE = SESSION_COOKIE" by (simp_all add: trim_no_ws)
  have "CHR '';'' \<notin> set e"
    unfolding e_def by (rule base64_codec.enc_clean [OF assms]) (simp add: B64_CHARS_def)
  then have "split_char CHR '';'' (SESSION_COOKIE @ CHR ''='' # e) = [SESSION_COOKIE @ CHR ''='' # e]"
    by (intro split_char_none) (simp add: SESSION_COOKIE_def)
  moreover have "split_once ''='' (SESSION_COOKIE @ CHR ''='' # e) = Some (SESSION_COOKIE, e)"
    by (rule split_once_char) (simp add: SESSION_COOKIE_def)
  ultimately show ?thesis by (simp add: cookie_value_def session_cookie_def trims flip: e_def [simplified])
qed

lemma session_cookie_authorizes:
  assumes "base64_codec (b64_enc b) (b64_dec b)"
    and "utf8_valid (da_user cfg)" "utf8_valid (da_password cfg)" "CHR '':'' \<notin> set (da_user cfg)"
    and "rq_authorization req = None"
    and "rq_cookie req = Some (session_cookie b (da_user cfg, da_password cfg))"
  shows "authorized b req cfg"
proof -
  have "utf8_valid (da_user cfg @ '':'' @ da_password cfg)"
    by (intro utf8_valid_append assms) (simp add: byte_in_def assms)
  then have "decode_basic b (b64_enc b (da_user cfg @ '':'' @ da_password cfg)) =
      Some (da_user cfg, da_password cfg)"
    using base64_codec.dec_enc [OF assms(1)] split_once_char [OF assms(4)] by (simp add: decode_basic_def)
  then show ?thesis
    using session_cookie_value [OF assms(1), of "(da_user cfg, da_password cfg)"] assms(5,6)
    by (simp add: authorized_def header_credentials_def cookie_credentials_def credentials_ok_iff)
qed

lemma login_reply_form:
  assumes "utf8_valid u" "utf8_valid p" "rq_content_length req = length (login_form u p)"
    and "length (login_form u p) \<le> MAX_LOGIN_BODY"
    and "after_head head @ delivered_bytes bs = login_form u p" "data_reads bs"
  shows "login_reply env cfg head req bs =
    (if (u, p) = (da_user cfg, da_password cfg)
     then Replied (write_response 302 ''text/plain'' []
            (Some (''Location: /'' @ CRLF @ ''Set-Cookie: '' @ session_cookie (de_base64 env) (u, p) @
                   ''; HttpOnly; SameSite=Strict; Path=/'')))
     else Replied (write_login_page (Some TXT_BAD_LOGIN)))"
proof -
  have "read_body head (length (login_form u p)) bs = Some (Inr (login_form u p))"
    unfolding read_body_def using assms(5,6) by (subst read_body_loop_all) simp_all
  then show ?thesis using assms(3,4) parse_login_form_ok [OF assms(1,2)]
    by (simp add: login_reply_def Let_def credentials_ok_iff not_less)
qed

section \<open>The script block\<close>

lemma bootstrap_chars: "set (bootstrap_json env now st) \<inter> {CHR ''<'', CHR ''>'', CHR ''&''} = {}"
  by (auto simp: bootstrap_json_def str_replace_char split: if_splits)

section \<open>Properties\<close>

text \<open>
  C11 --- The dashboard is guarded: whatever is asked, from whatever address and with whatever body,
  the answer to a request that is not authorized and not for \<open>/healthz\<close> is the same in every state of
  the server, so it discloses nothing of it; and a request is authorized only when its header or its
  cookie decodes to exactly the configured user and password, which no request does when the
  configured user contains a colon.
\<close>

theorem dashboard_guarded:
  assumes "\<And>head left. read_request_head (from_secs HTTP_HEAD_TIMEOUT) [] hs = (Inr (Some head), left) \<Longrightarrow>
    rq_path (parse_request_head (de_httparse env) head) \<noteq> ''/healthz'' \<and>
    \<not> authorized (de_base64 env) (parse_request_head (de_httparse env) head) cfg"
  shows "handle_dashboard_request env cfg st now ip hs bs limiter =
      handle_dashboard_request env cfg st' now ip hs bs limiter \<and>
    (authorized b req cfg \<longrightarrow>
      CHR '':'' \<notin> set (da_user cfg) \<and>
      (\<exists>e \<in> presented req. b64_dec b e = Some (da_user cfg @ '':'' @ da_password cfg)))"
proof -
  have "dashboard_reply env cfg st bs t head = dashboard_reply env cfg st' bs t head"
    if "read_request_head (from_secs HTTP_HEAD_TIMEOUT) [] hs = (Inr (Some head), left)" for t head left
    using assms [OF that] by (simp add: dashboard_reply_def Let_def)
  then have "handle_dashboard_request env cfg st now ip hs bs limiter =
      handle_dashboard_request env cfg st' now ip hs bs limiter"
    unfolding handle_dashboard_request_def by (rule with_head_cong)
  with authorized_needs_credentials [of b req cfg] show ?thesis by blast
qed


definition demo_dash_env :: "parsed_request \<Rightarrow> dash_env" where
  "demo_dash_env r =
     \<lparr>de_httparse = (\<lambda>n s. Some r), de_base64 = rfc4648, de_json = (\<lambda>j. ''{}''),
      de_json_pretty = (\<lambda>j. ''{}''), de_page = ''__BOOTSTRAP__''\<rparr>"

definition demo_dash_cfg :: dashboard_section where
  "demo_dash_cfg = \<lparr>da_addr = ''127.0.0.1:7500'', da_user = ''ad min'', da_password = ''se:cr&t''\<rparr>"

definition demo_get :: parsed_request where
  "demo_get =
     \<lparr>pr_method = Some ''GET'', pr_path = Some ''/metrics'',
      pr_headers = [(''Authorization'', ''Basic !'')]\<rparr>"

definition demo_post :: parsed_request where
  "demo_post =
     \<lparr>pr_method = Some ''POST'', pr_path = Some ''/login'',
      pr_headers = [(''Content-Length'', ''54'')]\<rparr>"

lemma demo_get_unauthorized:
  "parse_request_head (de_httparse (demo_dash_env demo_get)) head =
     request_head_default\<lparr>rq_path := ''/metrics'', rq_authorization := Some ''Basic !''\<rparr>"
  "\<not> authorized (de_base64 (demo_dash_env demo_get))
     (request_head_default\<lparr>rq_path := ''/metrics'', rq_authorization := Some ''Basic !''\<rparr>) demo_dash_cfg"
proof -
  have "apply_header (request_head_default\<lparr>rq_method := ''GET'', rq_path := ''/metrics''\<rparr>)
      (''Authorization'', ''Basic !'') =
    request_head_default\<lparr>rq_path := ''/metrics'', rq_authorization := Some ''Basic !''\<rparr>" by code_simp
  then show "parse_request_head (de_httparse (demo_dash_env demo_get)) head =
     request_head_default\<lparr>rq_path := ''/metrics'', rq_authorization := Some ''Basic !''\<rparr>"
    by (simp add: demo_dash_env_def demo_get_def parse_request_head_def)
  have "header_credentials rfc4648 (request_head_default\<lparr>rq_authorization := Some ''Basic !''\<rparr>) = None"
    by code_simp
  then show "\<not> authorized (de_base64 (demo_dash_env demo_get))
     (request_head_default\<lparr>rq_path := ''/metrics'', rq_authorization := Some ''Basic !''\<rparr>) demo_dash_cfg"
    by (simp add: demo_dash_env_def authorized_def header_credentials_def cookie_credentials_def
        request_head_default_def)
qed

theorem dashboard_guarded_witness:
  "handle_dashboard_request (demo_dash_env demo_get) demo_dash_cfg (server_state_new 0) 0 (V4 [1, 2, 3, 4])
       [(1, Got (''GET'' @ CRLF @ CRLF))] [] (rate_limiter_new 100 60) =
   handle_dashboard_request (demo_dash_env demo_get) demo_dash_cfg
       ((server_state_new 0)\<lparr>st_metrics := inc_accept_error (metrics_new 0)\<rparr>) 0 (V4 [1, 2, 3, 4])
       [(1, Got (''GET'' @ CRLF @ CRLF))] [] (rate_limiter_new 100 60)"
proof -
  have "rq_path (parse_request_head (de_httparse (demo_dash_env demo_get)) head) \<noteq> ''/healthz'' \<and>
    \<not> authorized (de_base64 (demo_dash_env demo_get))
       (parse_request_head (de_httparse (demo_dash_env demo_get)) head) demo_dash_cfg" for head
    unfolding demo_get_unauthorized(1) using demo_get_unauthorized(2) by simp
  from dashboard_guarded [OF this] show ?thesis by blast
qed

definition demo_form_head :: string where
  "demo_form_head = ''POST /login HTTP/1.1'' @ CRLF @ CRLF @ take 20 (login_form ''ad min'' ''se:cr&t'')"


end
