(* ===== verification/StatusEndpoint.thy ===== *)
theory StatusEndpoint
  imports WebText ClientMetrics Config_Client
begin

text \<open>
  The client's optional status endpoint (\<open>rfrpc/src/status.rs\<close>): a read-only page, its JSON and the
  metrics text, without a login. The parameters are the crates \<open>httparse\<close> and \<open>serde_json\<close>.
\<close>

record status_env =
  sn_httparse :: httparse
  sn_json_pretty :: "json_value \<Rightarrow> string"

fun kind_debug :: "proxy_type \<Rightarrow> string" where
  \<comment> \<open>the derived \<open>Debug\<close>\<close>
  "kind_debug Tcp = ''Tcp''"
| "kind_debug Udp = ''Udp''"
| "kind_debug Http = ''Http''"
| "kind_debug Https = ''Https''"

definition show_u16 :: "u16 \<Rightarrow> string" where
  "show_u16 w = show_nat (unat w)"

definition port_debug :: "u16 option \<Rightarrow> string" where
  "port_debug p = (case p of None \<Rightarrow> ''None'' | Some w \<Rightarrow> ''Some('' @ show_u16 w @ '')'')"

definition client_proxy_json :: "client_proxy \<Rightarrow> json_value" where
  "client_proxy_json p =
     JObj [(''name'', JStr (cp_name p)), (''kind'', JStr (kind_name (cp_type p))),
           (''local'', JStr (local_ip p @ '':'' @ show_u16 (local_port p))),
           (''remote_port'', JOpt JWord (cp_remote_port p)),
           (''domains'', JOpt (\<lambda>ds. JArr (map JStr ds)) (cp_custom_domains p)),
           (''pool_size'', JWord (pool_size p))]"

definition client_status_json :: "instant \<Rightarrow> client_config \<Rightarrow> client_metrics \<Rightarrow> json_value" where
  "client_status_json now cfg m =
     JObj [(''version'', JStr PKG_VERSION),
           (''uptime_seconds'', JNum (int (client_uptime_secs now m))),
           (''connected'', JBool (cm_connected m)),
           (''rtt_ms'', JWord (cm_rtt_ms m)),
           (''server'', JStr (server_addr (cc_client cfg) @ '':'' @ show_u16 (server_port (cc_client cfg)))),
           (''tls'', JBool (cl_tls_enable (cc_client cfg))),
           (''work_conn_tls'', JBool (cl_work_conn_tls (cc_client cfg))),
           (''proxies'', JArr (map client_proxy_json (cc_proxies cfg))),
           (''metrics'',
            JObj [(''reconnects_total'', JWord (cm_reconnects m)),
                  (''work_conns_total'', JWord (cm_work_conns m)),
                  (''work_conn_failures_total'', JWord (cm_work_conn_failures m)),
                  (''proxy_register_failures_total'', JWord (cm_register_failures m)),
                  (''proxy_register_retry_success_total'', JWord (cm_retry_success m))])]"

section \<open>The page\<close>

definition proxy_row :: "client_proxy \<Rightarrow> string" where
  "proxy_row p =
     ''<tr><td>'' @ html_escape (cp_name p) @ ''</td><td>'' @ kind_debug (cp_type p) @
     ''</td><td>'' @ html_escape (local_ip p) @ '':'' @ show_u16 (local_port p) @ ''</td><td>'' @
     port_debug (cp_remote_port p) @ ''</td><td>'' @ show_nat (unat (pool_size p)) @ ''</td></tr>''"

definition show_truth :: "bool \<Rightarrow> string" where
  \<comment> \<open>\<open>Display\<close> of a \<open>bool\<close>\<close>
  "show_truth b = (if b then ''true'' else ''false'')"

definition client_render_html :: "instant \<Rightarrow> client_config \<Rightarrow> client_metrics \<Rightarrow> string" where
  "client_render_html now cfg m =
     dq ''<html><head><title>rfrp client status</title><meta http-equiv=`refresh` content=`5`></head><body>'' @
     ''<h1>rfrp client <small>v'' @ PKG_VERSION @ ''</small></h1><p>server: '' @
     html_escape (server_addr (cc_client cfg)) @ '':'' @ show_u16 (server_port (cc_client cfg)) @
     '' | connected: '' @ show_truth (cm_connected m) @ '' | uptime: '' @ show_nat (client_uptime_secs now m) @
     ''s</p><pre>'' @ html_escape (client_render now m) @ ''</pre><h2>Proxies</h2>'' @
     ''<table border=1><tr><th>name</th><th>type</th><th>local</th><th>remote_port</th><th>pool</th></tr>'' @
     concat (map proxy_row (cc_proxies cfg)) @ ''</table></body></html>''"

section \<open>A request\<close>

definition client_route ::
  "status_env \<Rightarrow> instant \<Rightarrow> client_config \<Rightarrow> client_metrics \<Rightarrow> string \<Rightarrow> nat \<times> string \<times> string" where
  \<comment> \<open>status, content type and body of the answer\<close>
  "client_route env now cfg m path =
     (if path = ''/healthz''
      then (if cm_connected m then (200, ''text/plain'', ''ok'' @ LF)
            else (503, ''text/plain'', ''unhealthy: control connection down'' @ LF))
      else if path = ''/'' then (200, ''text/html; charset=utf-8'', client_render_html now cfg m)
      else if path = ''/api/status''
      then (200, ''application/json'', sn_json_pretty env (client_status_json now cfg m))
      else if path = ''/metrics'' then (200, ''text/plain; version=0.0.4'', client_render now m)
      else (404, ''text/plain'', ''Not Found'' @ LF))"

definition handle_status_request ::
  "status_env \<Rightarrow> client_config \<Rightarrow> client_metrics \<Rightarrow> instant \<Rightarrow> ip_addr \<Rightarrow> reads
     \<Rightarrow> ip_addr rate_limiter \<Rightarrow> reply \<times> ip_addr rate_limiter" where
  "handle_status_request env cfg m now ip rs limiter =
     with_head now ip rs limiter
       (\<lambda>now head.
          let path = rq_path (parse_request_head (sn_httparse env) head);
              (status, content_type, body) = client_route env now cfg m path
          in Replied (write_response status content_type body None))"

definition run_status_server ::
  "status_env \<Rightarrow> client_config \<Rightarrow> (client_metrics \<times> instant \<times> ip_addr \<times> reads) http_event list
     \<Rightarrow> bool \<times> http_run" where
  "run_status_server env cfg evs =
     http_loop (\<lambda>(m, now, ip, rs). handle_status_request env cfg m now ip rs) evs http_start"

section \<open>The markup of the page\<close>

definition markup :: "string \<Rightarrow> string" where
  "markup s = filter (\<lambda>c. c = CHR ''<'' \<or> c = CHR ''>'') s"

lemma markup_simps [simp]:
  "markup [] = []" "markup (c # s) = (if c = CHR ''<'' \<or> c = CHR ''>'' then c # markup s else markup s)"
  "markup (s @ t) = markup s @ markup t"
  by (simp_all add: markup_def)

lemma markup_none: "CHR ''<'' \<notin> set s \<Longrightarrow> CHR ''>'' \<notin> set s \<Longrightarrow> markup s = []"
  by (auto simp: markup_def filter_empty_conv)

lemma markup_escaped [simp]: "markup (html_escape s) = []"
  using html_escape_chars [of s] by (intro markup_none) auto

lemma markup_number [simp]: "markup (show_nat n) = []"
  using show_nat_digits [of n] by (intro markup_none) (auto simp: list_all_iff is_digit_def)

lemma markup_small [simp]:
  "markup (show_u16 w) = []" "markup (port_debug p) = []" "markup (kind_debug k) = []"
  "markup (show_truth b) = []"
  by (simp_all add: show_u16_def port_debug_def show_truth_def split: option.split) (cases k; simp)

definition tags :: "nat \<Rightarrow> string" where
  "tags n = concat (replicate n ''<>'')"

lemma markup_row: "markup (proxy_row p) = tags 12"
  by (simp add: proxy_row_def tags_def eval_nat_numeral)

lemma markup_rows: "markup (concat (map proxy_row ps)) = tags (12 * length ps)"
  by (induction ps) (simp_all add: markup_row tags_def replicate_add)

lemma markup_page:
  "markup (client_render_html now cfg m) = tags (33 + 12 * length (cc_proxies cfg))"
proof -
  have add: "tags (m + n) = tags m @ tags n" for m n by (simp add: tags_def replicate_add)
  have t: "tags (33 + k) = tags 30 @ tags k @ tags 3" for k
    using add [of 30 "k + 3"] add [of k 3] by (simp add: add.commute)
  show ?thesis unfolding t
    by (simp add: client_render_html_def markup_rows dq_def PKG_VERSION_def)
      (simp add: tags_def eval_nat_numeral)
qed

section \<open>Properties\<close>

text \<open>
  No text of the configuration or of the counters can change the structure of the client's
  status page: whatever names and addresses are configured, its angle brackets are those of the
  template, in opening and closing pairs, thirty-three pairs and
  twelve for each proxy.
\<close>

theorem status_page_structure:
  "markup (client_render_html now cfg m) = concat (replicate (33 + 12 * length (cc_proxies cfg)) ''<>'')"
  using markup_page by (simp only: tags_def)

end
