(* ===== verification/ControlWriter.thy ===== *)
theory ControlWriter
  imports Channel Frame Msg "HOL-Library.Sublist"
begin

text \<open>
  The task that writes a control connection: it takes messages from the bounded queue and puts
  their frames on the stream, and says goodbye with a \<open>Close\<close> frame when the process shuts down or,
  on the server, when the session is replaced (\<open>rfrps/src/control.rs\<close>, \<open>rfrpc/src/control.rs\<close>,
  \<open>graceful_close\<close> of \<open>util/control.rs\<close>). What the operating system does with a write is an
  argument; so is the time at which the branches of the \<open>select!\<close> become ready.
\<close>

section \<open>One frame\<close>

datatype write_outcome =
    Delivered
  | Failed nat   \<comment> \<open>an error, after so many bytes of the frame\<close>
  | Stalled nat  \<comment> \<open>no progress after so many bytes: a timeout, where there is one\<close>

record writer =
  wt_queue :: "message chan"
  wt_out :: bytes    \<comment> \<open>what got out on the stream\<close>
  wt_shut :: bool    \<comment> \<open>the write side was shut down in order\<close>
  wt_running :: bool

definition writer_new :: "nat \<Rightarrow> writer" where
  "writer_new depth =
     \<lparr>wt_queue = chan_new depth, wt_out = [], wt_shut = False, wt_running = True\<rparr>"

definition put :: "bytes \<Rightarrow> writer \<Rightarrow> writer" where
  "put b w = w\<lparr>wt_out := wt_out w @ b\<rparr>"

definition feed_frame :: "frame \<Rightarrow> write_outcome \<Rightarrow> writer \<Rightarrow> write_outcome \<times> writer" where
  \<comment> \<open>\<open>FramedWrite::send\<close>: a frame the codec refuses puts nothing on the stream\<close>
  "feed_frame f oc w =
     (case encode f [] of
        Inl e \<Rightarrow> (Failed 0, w)
      | Inr b \<Rightarrow>
          (oc, put (case oc of Delivered \<Rightarrow> b | Failed k \<Rightarrow> take k b | Stalled k \<Rightarrow> take k b) w))"

definition end_writer :: "writer \<Rightarrow> writer" where
  \<comment> \<open>the task ends and the queue loses its receiver\<close>
  "end_writer w = w\<lparr>wt_running := False, wt_queue := close_chan (wt_queue w)\<rparr>"

definition graceful_close :: "json \<Rightarrow> string \<Rightarrow> write_outcome \<Rightarrow> writer \<Rightarrow> writer" where
  \<comment> \<open>the frame is sent without a timeout, so a stalled write is never followed by the shutdown\<close>
  "graceful_close j reason oc w =
     (let (oc, w) = (case to_frame j (Close (Some reason)) of
                      Inr frame \<Rightarrow> feed_frame frame oc w
                    | Inl e \<Rightarrow> (Failed 0, w))
      in case oc of Stalled k \<Rightarrow> w | _ \<Rightarrow> w\<lparr>wt_shut := True\<rparr>)"

definition write_message :: "json \<Rightarrow> message \<Rightarrow> write_outcome \<Rightarrow> writer \<Rightarrow> writer" where
  \<comment> \<open>a message taken from the queue\<close>
  "write_message j msg oc w =
     (case to_frame j msg of
        Inr frame \<Rightarrow>
          (case feed_frame frame oc w of
             (Delivered, w) \<Rightarrow> w
           | (_, w) \<Rightarrow> end_writer w)
      | Inl e \<Rightarrow> end_writer w)"

section \<open>The two tasks\<close>

datatype writer_event =
    Offered message               \<comment> \<open>another task queues a message, if there is room\<close>
  | RxMessage write_outcome       \<comment> \<open>\<open>rx.recv()\<close> has a message\<close>
  | RxClosed bool write_outcome   \<comment> \<open>\<open>rx.recv()\<close> is \<open>None\<close>; whether shutdown was requested\<close>
  | ShutdownSeen write_outcome
  | StopSeen write_outcome        \<comment> \<open>the session is replaced or ends\<close>
  | Aborted "nat option"          \<comment> \<open>not done a second after the loop ended; what got out of a frame\<close>

definition take_message :: "json \<Rightarrow> write_outcome \<Rightarrow> writer \<Rightarrow> writer" where
  "take_message j oc w =
     (case ch_queue (wt_queue w) of
        [] \<Rightarrow> w
      | msg # _ \<Rightarrow> write_message j msg oc (w\<lparr>wt_queue := snd (recv_many 1 (wt_queue w))\<rparr>))"

definition abort_writer :: "json \<Rightarrow> nat option \<Rightarrow> writer \<Rightarrow> writer" where
  \<comment> \<open>the task is dropped where it waits: for a message, or in the middle of a write\<close>
  "abort_writer j in_write w =
     end_writer (case in_write of None \<Rightarrow> w | Some k \<Rightarrow> take_message j (Stalled k) w)"

definition offer :: "message \<Rightarrow> writer \<Rightarrow> writer" where
  "offer msg w = w\<lparr>wt_queue := snd (try_send msg (wt_queue w))\<rparr>"

definition server_writer_turn :: "json \<Rightarrow> writer_event \<Rightarrow> writer \<Rightarrow> writer" where
  "server_writer_turn j ev w =
     (case ev of
        Offered msg \<Rightarrow> offer msg w
      | RxMessage oc \<Rightarrow> take_message j oc w
      | RxClosed cancelled oc \<Rightarrow>
          if ch_queue (wt_queue w) \<noteq> [] then w
          else end_writer (if cancelled then graceful_close j ''server shutdown'' oc w else w)
      | ShutdownSeen oc \<Rightarrow> end_writer (graceful_close j ''server shutdown'' oc w)
      | StopSeen oc \<Rightarrow> end_writer (graceful_close j ''session replaced'' oc w)
      | Aborted in_write \<Rightarrow> abort_writer j in_write w)"

definition client_writer_turn :: "json \<Rightarrow> writer_event \<Rightarrow> writer \<Rightarrow> writer" where
  "client_writer_turn j ev w =
     (case ev of
        Offered msg \<Rightarrow> offer msg w
      | RxMessage oc \<Rightarrow> take_message j oc w
      | RxClosed cancelled oc \<Rightarrow>
          if ch_queue (wt_queue w) \<noteq> [] then w
          else end_writer (if cancelled then graceful_close j ''client shutdown'' oc w else w)
      | ShutdownSeen oc \<Rightarrow> end_writer (graceful_close j ''client shutdown'' oc w)
      | StopSeen oc \<Rightarrow> w
      | Aborted in_write \<Rightarrow> abort_writer j in_write w)"

fun run_writer :: "(writer_event \<Rightarrow> writer \<Rightarrow> writer) \<Rightarrow> writer_event list \<Rightarrow> writer \<Rightarrow> writer" where
  "run_writer turn [] w = w"
| "run_writer turn (ev # evs) w =
     (if wt_running w then run_writer turn evs (turn ev w) else w)"

fun offered :: "writer_event list \<Rightarrow> message list" where
  "offered [] = []"
| "offered (Offered msg # evs) = msg # offered evs"
| "offered (_ # evs) = offered evs"

section \<open>The contract of a writer\<close>

text \<open>
  What either task may do to the stream: nothing, one whole frame of the next message, or a last
  piece of a frame, of the next message or of a \<open>Close\<close>, before it ends.
\<close>

definition sendable :: "json \<Rightarrow> message \<Rightarrow> frame \<Rightarrow> bool" where
  "sendable j msg f \<longleftrightarrow> to_frame j msg = Inr f \<and> frame_ok f"

definition starts_frame :: "json \<Rightarrow> message \<Rightarrow> bytes \<Rightarrow> bool" where
  "starts_frame j msg b \<longleftrightarrow> b = [] \<or> (\<exists>f. sendable j msg f \<and> prefix b (wire f))"

inductive writer_step :: "json \<Rightarrow> string set \<Rightarrow> writer \<Rightarrow> writer \<Rightarrow> bool" for j goodbyes where
  Idle: "wt_out w' = wt_out w \<Longrightarrow> ch_received (wt_queue w') = ch_received (wt_queue w) \<Longrightarrow>
    writer_step j goodbyes w w'"
| Wrote: "sendable j msg f \<Longrightarrow> wt_out w' = wt_out w @ wire f \<Longrightarrow>
    ch_received (wt_queue w') = ch_received (wt_queue w) @ [msg] \<Longrightarrow> writer_step j goodbyes w w'"
| CutShort: "\<not> wt_running w' \<Longrightarrow> starts_frame j msg b \<Longrightarrow> wt_out w' = wt_out w @ b \<Longrightarrow>
    ch_received (wt_queue w') = ch_received (wt_queue w) @ [msg] \<Longrightarrow> writer_step j goodbyes w w'"
| LastWords: "\<not> wt_running w' \<Longrightarrow> r \<in> goodbyes \<Longrightarrow> starts_frame j (Close (Some r)) b \<Longrightarrow>
    wt_out w' = wt_out w @ b \<Longrightarrow> ch_received (wt_queue w') = ch_received (wt_queue w) \<Longrightarrow>
    writer_step j goodbyes w w'"

inductive_cases writer_stepE: "writer_step j goodbyes w w'"

lemma encode_Nil:
  "f_version f = PROTOCOL_VERSION \<Longrightarrow>
   (\<exists>e. encode f [] = Inl e) \<or> (encode f [] = Inr (wire f) \<and> frame_ok f)"
  using encode_Inr [of f "[]"] by (cases "encode f []") (auto simp: encode_def frame_ok_def split: if_splits)

lemma feed_frame_cases:
  assumes "to_frame j msg = Inr f" and "feed_frame f oc w = (r, w')"
  obtains (refused) k where "r = Failed k" "w' = w"
    | (whole) "r = Delivered" "oc = Delivered" "sendable j msg f" "w' = put (wire f) w"
    | (part) k where "r = Failed k \<or> r = Stalled k" "oc = r" "sendable j msg f" "w' = put (take k (wire f)) w"
proof -
  have "f_version f = PROTOCOL_VERSION" using assms(1) by (simp add: to_frame_type)
  from encode_Nil [OF this] assms that show thesis
    by (cases oc) (auto simp: feed_frame_def sendable_def)
qed

lemma starts_frame_take: "sendable j msg f \<Longrightarrow> starts_frame j msg (take k (wire f))"
  by (auto simp: starts_frame_def take_is_prefix)

lemma starts_frame_Nil [simp]: "starts_frame j msg []"
  by (simp add: starts_frame_def)

lemma ended [simp]:
  "wt_running (end_writer w) = False" "wt_out (end_writer w) = wt_out w"
  "wt_queue (end_writer w) = close_chan (wt_queue w)"
  by (simp_all add: end_writer_def)

lemma closed_received [simp]: "ch_received (close_chan c) = ch_received c"
  by (simp add: close_chan_def)

lemma graceful_close_out:
  "\<exists>b. wt_out (graceful_close j r oc w) = wt_out w @ b \<and> starts_frame j (Close (Some r)) b \<and>
     wt_queue (graceful_close j r oc w) = wt_queue w"
proof (cases "to_frame j (Close (Some r))")
  case (Inl e)
  then show ?thesis by (intro exI [of _ "[]"]) (simp add: graceful_close_def)
next
  case (Inr f)
  obtain o' w' where s: "feed_frame f oc w = (o', w')" by fastforce
  have e: "wt_out (graceful_close j r oc w) = wt_out w'" "wt_queue (graceful_close j r oc w) = wt_queue w'"
    by (auto simp: graceful_close_def Inr s split: write_outcome.split)
  from Inr s show ?thesis
  proof (cases rule: feed_frame_cases)
    case refused
    with e show ?thesis by (intro exI [of _ "[]"]) simp
  next
    case whole
    with e starts_frame_take [OF whole(3), of "length (wire f)"] show ?thesis
      by (auto simp: put_def)
  next
    case (part k)
    with e starts_frame_take [OF part(3), of k] show ?thesis by (auto simp: put_def)
  qed
qed

lemma goodbye_step: "r \<in> goodbyes \<Longrightarrow> writer_step j goodbyes w (end_writer (graceful_close j r oc w))"
  using graceful_close_out [of j r oc w] by (auto intro: LastWords)

lemma take_message_step: "writer_step j goodbyes w (take_message j oc w)"
proof (cases "ch_queue (wt_queue w)")
  case Nil
  then show ?thesis by (auto simp: take_message_def intro: Idle)
next
  case (Cons msg q)
  define v where "v = w\<lparr>wt_queue := snd (recv_many 1 (wt_queue w))\<rparr>"
  have t: "take_message j oc w = write_message j msg oc v" and r: "wt_out v = wt_out w"
    "ch_received (wt_queue v) = ch_received (wt_queue w) @ [msg]"
    using Cons by (simp_all add: v_def take_message_def recv_many_def Let_def)
  show ?thesis
  proof (cases "to_frame j msg")
    case (Inl e)
    with r show ?thesis unfolding t by (intro CutShort [where b = "[]"]) (auto simp: write_message_def)
  next
    case (Inr f)
    obtain o' w' where s: "feed_frame f oc v = (o', w')" by fastforce
    have m: "write_message j msg oc v = (if o' = Delivered then w' else end_writer w')"
      by (cases o') (simp_all add: write_message_def Inr s)
    from Inr s show ?thesis
    proof (cases rule: feed_frame_cases)
      case refused
      with m r show ?thesis unfolding t by (intro CutShort [where b = "[]"]) auto
    next
      case whole
      with m r show ?thesis unfolding t by (intro Wrote [of j msg f]) (auto simp: put_def)
    next
      case (part k)
      with m r starts_frame_take [OF part(3), of k] show ?thesis unfolding t
        by (intro CutShort [of _ j msg "take k (wire f)"]) (auto simp: put_def)
    qed
  qed
qed

lemma end_step: "writer_step j goodbyes w v \<Longrightarrow> writer_step j goodbyes w (end_writer v)"
  by (elim writer_stepE) (auto intro: Idle Wrote CutShort LastWords)

lemma abort_step: "writer_step j goodbyes w (abort_writer j in_write w)"
  by (cases in_write) (simp_all add: abort_writer_def Idle end_step take_message_step)

lemma offer_step: "writer_step j goodbyes w (offer msg w)"
  by (rule Idle) (simp_all add: offer_def try_send_def)

section \<open>What the queue loses\<close>

lemma put_queue [simp]: "wt_queue (put b w) = wt_queue w"
  by (simp add: put_def)

lemma feed_frame_queue: "wt_queue (snd (feed_frame f oc w)) = wt_queue w"
  by (simp add: feed_frame_def split: sum.split)

lemma write_message_queue:
  "wt_queue (write_message j msg oc w) \<in> {wt_queue w, close_chan (wt_queue w)}"
  using feed_frame_queue [of _ oc w]
  by (auto simp: write_message_def split: sum.split prod.split write_outcome.split) (metis snd_conv)+

text \<open>
  On the queue a turn of a writer is what the model of the whole server lets a writer do: take some
  messages, or end.
\<close>

lemma take_message_queue:
  "\<exists>n. wt_queue (take_message j oc w) \<in>
     {snd (recv_many n (wt_queue w)), close_chan (snd (recv_many n (wt_queue w)))}"
proof (cases "ch_queue (wt_queue w)")
  case Nil
  then show ?thesis by (intro exI [of _ 0]) (simp add: take_message_def recv_many_def)
next
  case (Cons m q)
  then show ?thesis
    using write_message_queue [of j m oc "w\<lparr>wt_queue := snd (recv_many 1 (wt_queue w))\<rparr>"]
    by (intro exI [of _ 1]) (simp add: take_message_def del: One_nat_def)
qed

lemma closed_history: "prefix (ch_history (close_chan c)) (ch_history c)"
  by (simp add: ch_history_def close_chan_def)

lemma take_message_history: "prefix (ch_history (wt_queue (take_message j oc w))) (ch_history (wt_queue w))"
proof -
  obtain n where "wt_queue (take_message j oc w) \<in>
      {snd (recv_many n (wt_queue w)), close_chan (snd (recv_many n (wt_queue w)))}"
    using take_message_queue by blast
  then show ?thesis using closed_history [of "snd (recv_many n (wt_queue w))"] by auto
qed

section \<open>A run of a writer\<close>

definition spoken :: "json \<Rightarrow> message list \<Rightarrow> bytes \<Rightarrow> bytes \<Rightarrow> bool" where
  \<comment> \<open>the frames of these messages, then \<open>b\<close>\<close>
  "spoken j ms out b \<longleftrightarrow> (\<exists>fs. list_all2 (sendable j) ms fs \<and> out = concat (map wire fs) @ b)"

definition writer_inv :: "json \<Rightarrow> string set \<Rightarrow> writer \<Rightarrow> bool" where
  "writer_inv j goodbyes w \<longleftrightarrow>
     (let received = ch_received (wt_queue w) in
      spoken j received (wt_out w) [] \<or>
      \<not> wt_running w \<and>
        ((\<exists>ms m b. received = ms @ [m] \<and> spoken j ms (wt_out w) b \<and> starts_frame j m b) \<or>
         (\<exists>r \<in> goodbyes. \<exists>b. spoken j received (wt_out w) b \<and> starts_frame j (Close (Some r)) b)))"

lemma spoken_append: "spoken j ms out [] \<Longrightarrow> spoken j ms (out @ b) b"
  by (auto simp: spoken_def)

lemma spoken_snoc: "spoken j ms out [] \<Longrightarrow> sendable j m f \<Longrightarrow> spoken j (ms @ [m]) (out @ wire f) []"
proof -
  assume "spoken j ms out []" "sendable j m f"
  then obtain fs where "list_all2 (sendable j) (ms @ [m]) (fs @ [f])" "out = concat (map wire fs)"
    by (auto simp: spoken_def intro: list_all2_appendI)
  then show ?thesis unfolding spoken_def by (intro exI [of _ "fs @ [f]"]) simp
qed

lemma writer_step_inv:
  assumes "writer_step j goodbyes w w'" "writer_inv j goodbyes w" "wt_running w"
  shows "writer_inv j goodbyes w'"
  using assms
proof (induction rule: writer_step.induct)
  case (Wrote msg f w' w)
  then show ?case by (simp add: writer_inv_def Let_def spoken_snoc)
next
  case (CutShort w' msg b w)
  then have "spoken j (ch_received (wt_queue w)) (wt_out w') b"
    by (simp add: writer_inv_def Let_def spoken_append)
  with CutShort show ?case by (auto simp: writer_inv_def Let_def)
next
  case (LastWords w' r b w)
  then have "spoken j (ch_received (wt_queue w)) (wt_out w') b"
    by (simp add: writer_inv_def Let_def spoken_append)
  with LastWords show ?case by (auto simp: writer_inv_def Let_def)
qed (simp add: writer_inv_def Let_def)

lemma subseq_self_append [simp]: "subseq xs (xs @ ys)"
  by (simp add: prefix_imp_subseq)

locale control_writer =
  fixes j :: json and goodbyes :: "string set" and turn :: "writer_event \<Rightarrow> writer \<Rightarrow> writer"
  assumes turn_step: "writer_step j goodbyes w (turn ev w)"
    and turn_history: "subseq (ch_history (wt_queue (turn ev w))) (ch_history (wt_queue w) @ offered [ev])"
begin

lemma run_inv: "writer_inv j goodbyes w \<Longrightarrow> writer_inv j goodbyes (run_writer turn evs w)"
  by (induction evs arbitrary: w) (auto intro: writer_step_inv [OF turn_step])

lemma run_history:
  "subseq (ch_history (wt_queue (run_writer turn evs w))) (ch_history (wt_queue w) @ offered evs)"
proof (induction evs arbitrary: w)
  case (Cons ev evs)
  have e: "offered (ev # evs) = offered [ev] @ offered evs" by (cases ev) simp_all
  have "subseq (ch_history (wt_queue (turn ev w)) @ offered evs)
      ((ch_history (wt_queue w) @ offered [ev]) @ offered evs)"
    by (intro list_emb_append_mono turn_history) simp
  with Cons [of "turn ev w"] have
    "subseq (ch_history (wt_queue (run_writer turn evs (turn ev w)))) (ch_history (wt_queue w) @ offered (ev # evs))"
    unfolding e append_assoc [symmetric] by (rule subseq_order.trans)
  then show ?case by simp
qed simp

end

lemma offer_history: "subseq (ch_history (wt_queue (offer m w))) (ch_history (wt_queue w) @ [m])"
  by (simp add: offer_def try_send_history)

lemma graceful_close_queue [simp]: "wt_queue (graceful_close j r oc w) = wt_queue w"
  using graceful_close_out [of j r oc w] by blast

lemma abort_history: "prefix (ch_history (wt_queue (abort_writer j in_write w))) (ch_history (wt_queue w))"
  using take_message_history [of j _ w] closed_history prefix_order.trans
  by (fastforce simp: abort_writer_def split: option.split)

lemmas writer_histories = offer_history prefix_imp_subseq [OF abort_history] prefix_imp_subseq [OF take_message_history]
  prefix_imp_subseq [OF closed_history]

interpretation sw: control_writer j "{''server shutdown'', ''session replaced''}" "server_writer_turn j" for j
proof
  fix w ev
  show "writer_step j {''server shutdown'', ''session replaced''} w (server_writer_turn j ev w)"
    by (cases ev) (auto simp: server_writer_turn_def take_message_step offer_step abort_step intro: goodbye_step Idle)
  show "subseq (ch_history (wt_queue (server_writer_turn j ev w))) (ch_history (wt_queue w) @ offered [ev])"
    by (cases ev) (auto simp: server_writer_turn_def writer_histories)
qed

interpretation cw: control_writer j "{''client shutdown''}" "client_writer_turn j" for j
proof
  fix w ev
  show "writer_step j {''client shutdown''} w (client_writer_turn j ev w)"
    by (cases ev) (auto simp: client_writer_turn_def take_message_step offer_step abort_step intro: goodbye_step Idle)
  show "subseq (ch_history (wt_queue (client_writer_turn j ev w))) (ch_history (wt_queue w) @ offered [ev])"
    by (cases ev) (auto simp: client_writer_turn_def writer_histories)
qed

section \<open>What the other side reads\<close>

definition peer_reads :: "json \<Rightarrow> bytes \<Rightarrow> (error, message) result list" where
  "peer_reads j b = map (from_frame j) (fst (drain decode (length b) b))"

lemma wire_length: "6 \<le> length (wire f)"
  by (simp add: wire_def header_bytes_def)

lemma wires_length: "length fs \<le> length (concat (map wire fs))"
proof (induction fs)
  case (Cons f fs)
  with wire_length [of f] show ?case by simp
qed simp

lemma frames_parse:
  "list_all2 (sendable j) ms fs \<Longrightarrow> \<forall>m \<in> set ms. json_inverse j m \<Longrightarrow> map (from_frame j) fs = map Inr ms"
  by (induction rule: list_all2_induct) (auto simp: sendable_def from_to_frame)

lemma drain_piece:
  assumes "sendable j m f" "prefix b (wire f)"
  shows "fst (drain decode n b) = [] \<or> fst (drain decode n b) = [f]"
proof -
  obtain xs r e where d: "drain decode n b = (xs, r, e)" by (metis prod_cases3)
  from assms(2) obtain t where "b @ t = concat (map wire [f])" by (auto simp: prefix_def)
  with fc.drain_prefix [OF d this] assms(1) have "xs = take (length xs) [f]"
    by (simp add: sendable_def)
  with d show ?thesis by (cases "length xs") auto
qed

lemma peer_reads_frames:
  assumes "list_all2 (sendable j) ms fs" "\<forall>m \<in> set ms. json_inverse j m"
  obtains n where "peer_reads j (concat (map wire fs) @ b) =
    map Inr ms @ map (from_frame j) (fst (drain decode n b))"
proof -
  let ?out = "concat (map wire fs) @ b"
  have ok: "list_all frame_ok fs" using assms(1) by (induction rule: list_all2_induct) (auto simp: sendable_def)
  have "length fs \<le> length ?out" using wires_length [of fs] by simp
  from fc.drain_enc [OF ok this, of b] have
    "fst (drain decode (length ?out) ?out) = fs @ fst (drain decode (length ?out - length fs) b)"
    by (simp add: case_prod_beta)
  with frames_parse [OF assms] show thesis
    by (intro that [of "length ?out - length fs"]) (simp add: peer_reads_def)
qed

lemma drain_Nil: "fst (drain decode n []) = []"
  using fc.dec_Nil by (cases n) simp_all

lemma peer_reads_all:
  assumes "spoken j ms out []" "\<forall>m \<in> set ms. json_inverse j m"
  shows "peer_reads j out = map Inr ms"
proof -
  from assms(1) obtain fs where fs: "list_all2 (sendable j) ms fs" "out = concat (map wire fs) @ []"
    by (auto simp: spoken_def)
  from peer_reads_frames [OF fs(1) assms(2), of "[]"] obtain n where
    "peer_reads j (concat (map wire fs) @ []) = map Inr ms @ map (from_frame j) (fst (drain decode n []))" .
  with fs(2) show ?thesis by (simp add: drain_Nil)
qed

lemma peer_reads_spoken:
  assumes "spoken j ms out b" "starts_frame j m b" "\<forall>m \<in> set ms. json_inverse j m" "json_inverse j m"
  shows "peer_reads j out = map Inr ms \<or> peer_reads j out = map Inr (ms @ [m])"
proof -
  from assms(1) obtain fs where fs: "list_all2 (sendable j) ms fs" "out = concat (map wire fs) @ b"
    by (auto simp: spoken_def)
  from peer_reads_frames [OF fs(1) assms(3), of b] obtain n where
    p: "peer_reads j (concat (map wire fs) @ b) = map Inr ms @ map (from_frame j) (fst (drain decode n b))" .
  from assms(2) show ?thesis unfolding starts_frame_def
  proof
    assume "b = []"
    with p fs(2) show ?thesis by (simp add: drain_Nil)
  next
    assume "\<exists>f. sendable j m f \<and> prefix b (wire f)"
    then obtain f where f: "sendable j m f" "prefix b (wire f)" by blast
    then have "from_frame j f = Inr m" using assms(4) by (simp add: sendable_def from_to_frame)
    with p fs(2) drain_piece [OF f, of n] show ?thesis by auto
  qed
qed

lemma peer_reads_inv:
  assumes "writer_inv j goodbyes w" and "\<forall>m \<in> set (ch_received (wt_queue w)). json_inverse j m"
    and "\<forall>r \<in> goodbyes. json_inverse j (Close (Some r))"
  shows "\<exists>ms. prefix ms (ch_received (wt_queue w)) \<and> (wt_running w \<longrightarrow> ms = ch_received (wt_queue w)) \<and>
    (peer_reads j (wt_out w) = map Inr ms \<or>
     \<not> wt_running w \<and> (\<exists>r \<in> goodbyes. peer_reads j (wt_out w) = map Inr (ms @ [Close (Some r)])))"
proof -
  let ?r = "ch_received (wt_queue w)"
  from assms(1) consider (all) "spoken j ?r (wt_out w) []"
    | (cut) ms m b where "\<not> wt_running w" "?r = ms @ [m]" "spoken j ms (wt_out w) b" "starts_frame j m b"
    | (bye) r b where "\<not> wt_running w" "r \<in> goodbyes" "spoken j ?r (wt_out w) b" "starts_frame j (Close (Some r)) b"
    by (auto simp: writer_inv_def Let_def)
  then show ?thesis
  proof cases
    case all
    from peer_reads_all [OF this assms(2)] show ?thesis by blast
  next
    case cut
    then have "\<forall>m \<in> set ms. json_inverse j m" "json_inverse j m" using assms(2) by auto
    with peer_reads_spoken [OF cut(3,4)] cut show ?thesis
      by (metis prefix_def prefix_order.refl)
  next
    case bye
    then have "json_inverse j (Close (Some r))" using assms(3) by blast
    with peer_reads_spoken [OF bye(3,4) assms(2)] bye show ?thesis by blast
  qed
qed

section \<open>Properties\<close>

definition goodbyes :: "string set" where
  "goodbyes = {''server shutdown'', ''session replaced'', ''client shutdown''}"

definition writer_turns :: "json \<Rightarrow> (writer_event \<Rightarrow> writer \<Rightarrow> writer) set" where
  \<comment> \<open>either side\<close>
  "writer_turns j = {server_writer_turn j, client_writer_turn j}"

lemma subseq_set_subset: "subseq xs ys \<Longrightarrow> set xs \<subseteq> set ys"
  by (induction rule: list_emb.induct) auto

lemma offered_subseq: "subseq ms (offered evs) \<Longrightarrow> \<forall>m. Offered m \<in> set evs \<longrightarrow> P m \<Longrightarrow> \<forall>m \<in> set ms. P m"
proof -
  have "\<forall>m \<in> set (offered evs). Offered m \<in> set evs" by (induction evs rule: offered.induct) auto
  then show "subseq ms (offered evs) \<Longrightarrow> \<forall>m. Offered m \<in> set evs \<longrightarrow> P m \<Longrightarrow> ?thesis"
    using subseq_set_subset [of ms] by blast
qed

lemma writer_new_inv: "writer_inv j gs (writer_new depth)"
  by (simp add: writer_inv_def Let_def writer_new_def chan_new_def spoken_def)

lemma either_run:
  assumes "turn \<in> writer_turns j"
  shows "writer_inv j goodbyes (run_writer turn evs (writer_new depth)) \<and>
    subseq (ch_history (wt_queue (run_writer turn evs (writer_new depth)))) (offered evs)"
proof -
  have mono: "writer_inv j gs w \<Longrightarrow> gs \<subseteq> goodbyes \<Longrightarrow> writer_inv j goodbyes w" for gs w
    by (auto simp: writer_inv_def Let_def)
  have new: "ch_history (wt_queue (writer_new depth)) = []"
    by (simp add: writer_new_def chan_new_def ch_history_def)
  from assms show ?thesis
    using mono [OF sw.run_inv [OF writer_new_inv, of j evs depth]] mono [OF cw.run_inv [OF writer_new_inv, of j evs depth]]
      sw.run_history [of j evs "writer_new depth"] cw.run_history [of j evs "writer_new depth"]
    by (auto simp: writer_turns_def new goodbyes_def)
qed

text \<open>
  C10 --- Whatever the network does to the writes, and whenever either writer task is stopped, the
  peer reads the control messages that were queued, each as it was sent and in their order, up to a
  point: all that were taken from the queue while the task runs, and afterwards possibly all but
  the one being written, or all and one Close message with a reason. No write error, timeout or
  shutdown tears, repeats or reorders a message.
\<close>

theorem control_writer_delivers:
  fixes depth
  assumes "turn \<in> writer_turns j"
    and "\<forall>m. Offered m \<in> set evs \<longrightarrow> json_inverse j m"
    and "\<forall>r \<in> goodbyes. json_inverse j (Close (Some r))"
  defines "w \<equiv> run_writer turn evs (writer_new depth)"
  shows "subseq (ch_received (wt_queue w) @ ch_queue (wt_queue w)) (offered evs) \<and>
    (\<exists>ms. prefix ms (ch_received (wt_queue w)) \<and> (wt_running w \<longrightarrow> ms = ch_received (wt_queue w)) \<and>
      (peer_reads j (wt_out w) = map Inr ms \<or>
       \<not> wt_running w \<and> (\<exists>r \<in> goodbyes. peer_reads j (wt_out w) = map Inr (ms @ [Close (Some r)]))))"
proof -
  from either_run [OF assms(1)] have i: "writer_inv j goodbyes w"
    and h: "subseq (ch_received (wt_queue w) @ ch_queue (wt_queue w)) (offered evs)"
    by (simp_all add: w_def ch_history_def)
  have "\<forall>m \<in> set (ch_received (wt_queue w)). json_inverse j m"
    using offered_subseq [OF h assms(2)] by simp
  from peer_reads_inv [OF i this assms(3)] h show ?thesis by blast
qed

definition demo_close_json :: json where
  \<comment> \<open>heartbeats, and the bare reason of a \<open>Close\<close>\<close>
  "demo_close_json =
     demo_json\<lparr>ser_close := \<lambda>r. Inr (map of_char (unwrap_or r [])),
               de_close := \<lambda>b. Inr (Some (map byte_char b))\<rparr>"

definition demo_writer_events :: "writer_event list" where
  "demo_writer_events =
     [Offered (Heartbeat 7), Offered (Heartbeat 8), RxMessage Delivered, RxMessage (Stalled 3)]"

theorem control_writer_delivers_witness:
  "\<exists>ms. subseq ms [Heartbeat 7, Heartbeat 8] \<and>
     (peer_reads demo_close_json (wt_out (run_writer (server_writer_turn demo_close_json) demo_writer_events
        (writer_new 256))) = map Inr ms \<or>
      (\<exists>r \<in> goodbyes. peer_reads demo_close_json (wt_out (run_writer (server_writer_turn demo_close_json)
        demo_writer_events (writer_new 256))) = map Inr (ms @ [Close (Some r)])))"
proof -
  let ?w = "run_writer (server_writer_turn demo_close_json) demo_writer_events (writer_new 256)"
  have hb: "json_inverse demo_close_json (Heartbeat ts)" for ts
    using demo_json_heartbeat [of ts] by (simp add: demo_close_json_def)
  have "subseq (ch_received (wt_queue ?w) @ ch_queue (wt_queue ?w)) (offered demo_writer_events) \<and>
    (\<exists>ms. prefix ms (ch_received (wt_queue ?w)) \<and> (wt_running ?w \<longrightarrow> ms = ch_received (wt_queue ?w)) \<and>
      (peer_reads demo_close_json (wt_out ?w) = map Inr ms \<or>
       \<not> wt_running ?w \<and> (\<exists>r \<in> goodbyes. peer_reads demo_close_json (wt_out ?w) = map Inr (ms @ [Close (Some r)]))))"
  proof (rule control_writer_delivers)
    show "server_writer_turn demo_close_json \<in> writer_turns demo_close_json"
      by (simp add: writer_turns_def)
    show "\<forall>m. Offered m \<in> set demo_writer_events \<longrightarrow> json_inverse demo_close_json m"
      using hb by (auto simp: demo_writer_events_def simp del: json_inverse.simps)
    show "\<forall>r \<in> goodbyes. json_inverse demo_close_json (Close (Some r))"
      by (simp add: demo_close_json_def unwrap_or_def comp_def)
  qed
  then obtain ms where ms: "prefix ms (ch_received (wt_queue ?w))"
      "peer_reads demo_close_json (wt_out ?w) = map Inr ms \<or>
       (\<exists>r \<in> goodbyes. peer_reads demo_close_json (wt_out ?w) = map Inr (ms @ [Close (Some r)]))"
    and s: "subseq (ch_received (wt_queue ?w) @ ch_queue (wt_queue ?w)) [Heartbeat 7, Heartbeat 8]"
    by (auto simp: demo_writer_events_def)
  from ms(1) have "subseq ms (ch_received (wt_queue ?w) @ ch_queue (wt_queue ?w))"
    using prefix_imp_subseq subseq_order.trans subseq_self_append by blast
  with s ms(2) show ?thesis using subseq_order.trans by blast
qed

end
