(* ===== verification/Heartbeat.thy ===== *)
theory Heartbeat
  imports Control
begin

text \<open>
  The heartbeat task of a control session (\<open>rfrps/src/control.rs\<close>): round by round it queues a
  \<open>Heartbeat\<close> and waits for its answer; the first round that fails ends the session. What the other
  tasks do with the outgoing queue between two rounds is an argument.
\<close>

record hb_round =
  rd_ts :: u64                                  \<comment> \<open>\<open>now_ms()\<close>\<close>
  rd_between :: "message chan \<Rightarrow> message chan"  \<comment> \<open>the queue since the last round\<close>
  rd_taken :: nat                               \<comment> \<open>what the writer takes while the send waits\<close>
  rd_pong :: u64                                \<comment> \<open>the last answer when the wait starts\<close>
  rd_wakes :: "(duration \<times> u64) list"

definition rd_send :: "hb_round \<Rightarrow> message chan \<Rightarrow> bool \<times> message chan" where
  "rd_send r q = send_with_timeout (rd_taken r) (Heartbeat (rd_ts r)) (rd_between r q)"

definition run_round :: "duration \<Rightarrow> hb_round \<Rightarrow> message chan \<Rightarrow> bool \<times> message chan" where
  \<comment> \<open>the flag tells that the connection is given up\<close>
  "run_round timeout r q =
     (let (sent, q) = rd_send r q in
      (if \<not> sent then True else hb_wait (rd_ts r) timeout (rd_pong r) (rd_wakes r), q))"

fun heartbeat_task ::
  "duration \<Rightarrow> hb_round list \<Rightarrow> message chan \<Rightarrow> nat option \<times> message chan" where
  \<comment> \<open>the round in which it notifies \<open>disconnect\<close>\<close>
  "heartbeat_task timeout [] q = (None, q)"
| "heartbeat_task timeout (r # rs) q =
     (case run_round timeout r q of
        (True, q) \<Rightarrow> (Some 0, q)
      | (False, q) \<Rightarrow> map_prod (map_option Suc) id (heartbeat_task timeout rs q))"

definition queue_at :: "duration \<Rightarrow> hb_round list \<Rightarrow> message chan \<Rightarrow> nat \<Rightarrow> message chan" where
  "queue_at timeout rs q n = fold (\<lambda>r q. snd (run_round timeout r q)) (take n rs) q"

lemma heartbeat_task_first:
  "fst (heartbeat_task timeout rs q) = Some n \<longleftrightarrow>
     n < length rs \<and> fst (run_round timeout (rs ! n) (queue_at timeout rs q n)) \<and>
     (\<forall>m < n. \<not> fst (run_round timeout (rs ! m) (queue_at timeout rs q m)))"
proof (induction rs arbitrary: q n)
  case (Cons r rs)
  obtain b q' where r: "run_round timeout r q = (b, q')" by fastforce
  have z: "queue_at timeout (r # rs) q 0 = q" by (simp add: queue_at_def)
  have s: "queue_at timeout (r # rs) q (Suc m) = queue_at timeout rs q' m" for m
    by (simp add: queue_at_def r)
  show ?case
  proof (cases b)
    case True
    with r z show ?thesis by (cases n) auto
  next
    case False
    with r z s Cons [of q'] show ?thesis by (cases n) (auto simp: All_less_Suc2)
  qed
qed simp

lemma heartbeat_task_some:
  "n < length rs \<Longrightarrow> fst (run_round timeout (rs ! n) (queue_at timeout rs q n)) \<Longrightarrow>
   \<exists>m \<le> n. fst (heartbeat_task timeout rs q) = Some m"
proof -
  let ?P = "\<lambda>m. fst (run_round timeout (rs ! m) (queue_at timeout rs q m))"
  assume n: "n < length rs" "?P n"
  have "?P (LEAST m. ?P m)" "(LEAST m. ?P m) \<le> n" using n(2) by (rule LeastI, rule Least_le)
  moreover have "\<not> ?P m" if "m < (LEAST m. ?P m)" for m using that by (rule not_less_Least)
  ultimately show ?thesis using n(1) unfolding heartbeat_task_first by (meson le_less_trans)
qed

definition answered_by :: "duration \<Rightarrow> hb_round \<Rightarrow> bool" where
  \<comment> \<open>the answer to the round's heartbeat, or to a later one, is seen after less than this\<close>
  "answered_by t r \<longleftrightarrow>
     (\<exists>k < length (rd_wakes r). sum_list (map fst (take (Suc k) (rd_wakes r))) < t \<and>
        rd_ts r \<le> snd (rd_wakes r ! k))"

lemma run_round_fails:
  "fst (run_round timeout r q) \<longleftrightarrow>
     \<not> fst (rd_send r q) \<or> hb_wait (rd_ts r) timeout (rd_pong r) (rd_wakes r)"
  by (simp add: run_round_def case_prod_beta)

lemma hb_wait_answered: "answered_by timeout r \<Longrightarrow> \<not> hb_wait (rd_ts r) timeout v (rd_wakes r)"
  using hb_wait_complete [of _ "rd_wakes r" timeout "rd_ts r"] by (auto simp: answered_by_def)

lemma hb_wait_unanswered:
  "\<not> answered_by (timeout + 1) r \<Longrightarrow> v < rd_ts r \<Longrightarrow> hb_wait (rd_ts r) timeout v (rd_wakes r)"
  using hb_wait_sound [of "rd_ts r" timeout v "rd_wakes r"] leD
  unfolding answered_by_def by (fastforce simp: less_Suc_eq_le)

section \<open>Properties\<close>

text \<open>
  C26 --- The heartbeat task of the server ends a session if and only if the peer is gone. If it ends
  the session in round \<open>n\<close>, the heartbeat of that round could not be queued, or no answer to it was
  seen before the timeout; and as soon as one round's heartbeat cannot be queued, or is not answered
  within the timeout, the session is ended, in that round or before.
\<close>

theorem heartbeat_task_exact:
  "(fst (heartbeat_task timeout rs q) = Some n \<longrightarrow>
      n < length rs \<and>
      (\<not> fst (rd_send (rs ! n) (queue_at timeout rs q n)) \<or> \<not> answered_by timeout (rs ! n))) \<and>
   (n < length rs \<and>
      (\<not> fst (rd_send (rs ! n) (queue_at timeout rs q n)) \<or>
       (rd_pong (rs ! n) < rd_ts (rs ! n) \<and> \<not> answered_by (timeout + 1) (rs ! n))) \<longrightarrow>
    (\<exists>m \<le> n. fst (heartbeat_task timeout rs q) = Some m))"
proof (intro conjI impI)
  assume "fst (heartbeat_task timeout rs q) = Some n"
  then show "n < length rs"
    "\<not> fst (rd_send (rs ! n) (queue_at timeout rs q n)) \<or> \<not> answered_by timeout (rs ! n)"
    unfolding heartbeat_task_first run_round_fails using hb_wait_answered by blast+
next
  assume a: "n < length rs \<and> (\<not> fst (rd_send (rs ! n) (queue_at timeout rs q n)) \<or>
    (rd_pong (rs ! n) < rd_ts (rs ! n) \<and> \<not> answered_by (timeout + 1) (rs ! n)))"
  then have "fst (run_round timeout (rs ! n) (queue_at timeout rs q n))"
    unfolding run_round_fails using hb_wait_unanswered by blast
  with a show "\<exists>m \<le> n. fst (heartbeat_task timeout rs q) = Some m"
    using heartbeat_task_some by blast
qed

definition demo_round :: "u64 \<Rightarrow> (duration \<times> u64) list \<Rightarrow> hb_round" where
  "demo_round ts wakes =
     \<lparr>rd_ts = ts, rd_between = snd \<circ> recv_many 1, rd_taken = 0, rd_pong = 0, rd_wakes = wakes\<rparr>"

theorem heartbeat_task_exact_witness:
  "\<exists>m \<le> 1. fst (heartbeat_task 10 [demo_round 7 [(3, 7)], demo_round 9 [(4, 7)]] (chan_new 256)) = Some m"
proof -
  have "rd_pong (demo_round 9 [(4, 7)]) < rd_ts (demo_round 9 [(4, 7)]) \<and>
      \<not> answered_by (10 + 1) (demo_round 9 [(4, 7)])"
    by (simp add: demo_round_def answered_by_def)
  with heartbeat_task_exact [of 10 "[demo_round 7 [(3, 7)], demo_round 9 [(4, 7)]]" "chan_new 256" 1]
  show ?thesis by simp
qed

end
