(* ===== verification/Loops.thy ===== *)
theory Loops
  imports Server
begin

text \<open>
  The listening tasks of the server: the accept loop of a proxy (\<open>rfrps/src/listener.rs\<close>), of the two
  kinds of virtual hosts (\<open>rfrps/src/vhost.rs\<close>), the receive loop of a UDP proxy (\<open>rfrps/src/udp.rs\<close>), and
  the background tasks \<open>Server::run\<close> starts. A script of events says what the sockets, the timers and
  the other tasks do; they all share the contract \<open>listening\<close>.
\<close>

section \<open>The loops\<close>

datatype ('c, 'h) listen_event =
    Arrives 'c
  | AcceptFails io_error
  | Handles 'h             \<comment> \<open>a spawned task, or the timer\<close>
  | OtherTasks "server_state \<Rightarrow> server_state"
  | ShutdownRequested

record 'r listen_run =
  lr_retry :: accept_retry
  lr_slept :: duration
  lr_state :: server_state
  lr_done :: "'r list"

definition listen_start :: "server_state \<Rightarrow> 'r listen_run" where
  "listen_start st = \<lparr>lr_retry = accept_retry_new, lr_slept = 0, lr_state = st, lr_done = []\<rparr>"

definition accepted_one :: "'r listen_run \<Rightarrow> 'r listen_run" where
  "accepted_one s = s\<lparr>lr_retry := record_ok (lr_retry s)\<rparr>"

definition back_off :: "'r listen_run \<Rightarrow> 'r listen_run" where
  "back_off s =
     (let (retry, backoff) = record_err (lr_retry s)
      in s\<lparr>lr_retry := retry, lr_slept := lr_slept s + backoff\<rparr>)"

definition handled :: "'r \<times> server_state \<Rightarrow> 'r listen_run \<Rightarrow> 'r listen_run" where
  "handled r s = s\<lparr>lr_done := lr_done s @ [fst r], lr_state := snd r\<rparr>"

definition meanwhile :: "(server_state \<Rightarrow> server_state) \<Rightarrow> 'r listen_run \<Rightarrow> 'r listen_run" where
  "meanwhile g s = s\<lparr>lr_state := g (lr_state s)\<rparr>"

fun listen_loop :: "('e \<Rightarrow> 's \<Rightarrow> bool \<times> 's) \<Rightarrow> 'e list \<Rightarrow> 's \<Rightarrow> bool \<times> 's" where
  \<comment> \<open>a turn tells whether the loop is left\<close>
  "listen_loop turn [] s = (False, s)"
| "listen_loop turn (ev # evs) s =
     (case turn ev s of
        (True, s) \<Rightarrow> (True, s)
      | (False, s) \<Rightarrow> listen_loop turn evs s)"

type_synonym user_arrival = "(nat \<Rightarrow> probe) \<times> nat \<times> instant"

definition proxy_accept_turn ::
  "string \<Rightarrow> nat \<Rightarrow> (user_arrival, unit) listen_event \<Rightarrow> dispatched listen_run
     \<Rightarrow> bool \<times> dispatched listen_run" where
  "proxy_accept_turn proxy_name session ev s =
     (case ev of
        Arrives (probe, user, now) \<Rightarrow>
          let s = accepted_one s in
          (False, handled (dispatch_user_connection probe proxy_name user session now (lr_state s)) s)
      | AcceptFails e \<Rightarrow> (False, back_off s)
      | Handles _ \<Rightarrow> (False, s)
      | OtherTasks g \<Rightarrow> (False, meanwhile g s)
      | ShutdownRequested \<Rightarrow> (True, s))"

type_synonym http_user = "(nat \<Rightarrow> probe) \<times> head_parser \<times> nat \<times> instant \<times> (duration \<times> read_outcome) list"
type_synonym http_outcome = "(io_error, (route \<times> string) option) result"

definition http_vhost_turn ::
  "(string \<Rightarrow> string) \<Rightarrow> (unit, http_user) listen_event \<Rightarrow> http_outcome listen_run
     \<Rightarrow> bool \<times> http_outcome listen_run" where
  "http_vhost_turn lower ev s =
     (case ev of
        Arrives _ \<Rightarrow> (False, accepted_one s)
      | AcceptFails e \<Rightarrow> (False, back_off s)
      | Handles (probe, hp, handle, now, reads) \<Rightarrow>
          (False, handled (handle_http_connection lower probe hp handle now reads (lr_state s)) s)
      | OtherTasks g \<Rightarrow> (False, meanwhile g s)
      | ShutdownRequested \<Rightarrow> (True, s))"

definition serve_tls_user ::
  "(string \<Rightarrow> string) \<Rightarrow> handshake \<Rightarrow> string option \<Rightarrow> http_user \<Rightarrow> server_state
     \<Rightarrow> http_outcome option \<times> server_state" where
  \<comment> \<open>the task of an accepted connection; no outcome when the handshake fails or takes too long\<close>
  "serve_tls_user lower hs sni user st =
     (case hs of
        HandshakeTimeout \<Rightarrow> (None, st)
      | HandshakeDone r \<Rightarrow>
          (case server_tls_accept r of
             Inl e \<Rightarrow> (None, st)
           | Inr _ \<Rightarrow>
               let (probe, hp, handle, now, reads) = user;
                   (r, st) = handle_https_connection lower probe hp sni handle now reads st
               in (Some r, st)))"

definition https_vhost_turn ::
  "(string \<Rightarrow> string) \<Rightarrow> (unit, handshake \<times> string option \<times> http_user) listen_event
     \<Rightarrow> http_outcome option listen_run \<Rightarrow> bool \<times> http_outcome option listen_run" where
  "https_vhost_turn lower ev s =
     (case ev of
        Arrives _ \<Rightarrow> (False, accepted_one s)
      | AcceptFails e \<Rightarrow> (False, back_off s)
      | Handles (hs, sni, user) \<Rightarrow> (False, handled (serve_tls_user lower hs sni user (lr_state s)) s)
      | OtherTasks g \<Rightarrow> (False, meanwhile g s)
      | ShutdownRequested \<Rightarrow> (True, s))"

type_synonym datagrams = "(socket_addr \<times> bytes) \<times> (socket_addr \<times> bytes) option list \<times> instant"

definition on_udp :: "(udp_ctx \<Rightarrow> udp_ctx \<times> 'r) \<Rightarrow> nat \<Rightarrow> server_state \<Rightarrow> 'r \<times> server_state" where
  \<comment> \<open>an operation on the UDP proxy at this address and the counters it shares\<close>
  "on_udp f u st =
     (let ((p, m, wk), r) = f (st_udp_heap st u, st_metrics st, st_work_id st)
      in (r, st\<lparr>st_udp_heap := (st_udp_heap st)(u := p), st_metrics := m, st_work_id := wk\<rparr>))"

definition sweep_period :: "udp_proxy \<Rightarrow> duration" where
  \<comment> \<open>a quarter of the timeout in whole seconds, at least one second\<close>
  "sweep_period p = from_secs (max (up_session_timeout p div from_secs 1 div 4) 1)"

definition udp_listener_turn ::
  "nat \<Rightarrow> (datagrams, instant) listen_event \<Rightarrow> u64 list listen_run \<Rightarrow> bool \<times> u64 list listen_run" where
  \<comment> \<open>with the work ids that are requested; the timer ticks every \<open>sweep_period\<close>\<close>
  "udp_listener_turn u ev s =
     (case ev of
        Arrives (d, rs, now) \<Rightarrow>
          let s = accepted_one s in (False, handled (on_udp (receive_turn d rs now) u (lr_state s)) s)
      | AcceptFails e \<Rightarrow> (False, back_off s)
      | Handles now \<Rightarrow>
          (False, handled (on_udp (\<lambda>(p, mw). ((sweep now p, mw), [])) u (lr_state s)) s)
      | OtherTasks g \<Rightarrow> (False, meanwhile g s)
      | ShutdownRequested \<Rightarrow> (True, s))"

section \<open>The contract of a listening task\<close>

fun is_arrival :: "('c, 'h) listen_event \<Rightarrow> bool" where
  "is_arrival (Arrives _) = True"
| "is_arrival _ = False"

fun is_failure :: "('c, 'h) listen_event \<Rightarrow> bool" where
  "is_failure (AcceptFails _) = True"
| "is_failure _ = False"

locale listening =
  fixes turn :: "('c, 'h) listen_event \<Rightarrow> 'r listen_run \<Rightarrow> bool \<times> 'r listen_run"
    and answers :: "('c, 'h) listen_event \<Rightarrow> bool"
  assumes leaves: "fst (turn ev s) \<longleftrightarrow> ev = ShutdownRequested"
    and fails: "snd (turn (AcceptFails e) s) = back_off s"
    and retry: "\<not> is_failure ev \<Longrightarrow> lr_slept (snd (turn ev s)) = lr_slept s"
    and results: "length (lr_done (snd (turn ev s))) = length (lr_done s) + (if answers ev then 1 else 0)"
begin

lemma ends_iff: "fst (listen_loop turn evs s) \<longleftrightarrow> ShutdownRequested \<in> set evs"
proof (induction evs arbitrary: s)
  case (Cons ev evs)
  obtain b s' where "turn ev s = (b, s')" by fastforce
  with leaves [of ev s] Cons [of s'] show ?case by (cases b) auto
qed simp

lemma run_results:
  "ShutdownRequested \<notin> set evs \<Longrightarrow>
   length (lr_done (snd (listen_loop turn evs s))) = length (lr_done s) + length (filter answers evs)"
proof (induction evs arbitrary: s)
  case (Cons ev evs)
  obtain b s' where t: "turn ev s = (b, s')" by fastforce
  with leaves [of ev s] Cons.prems have "\<not> b" by auto
  with t Cons.IH [of s'] Cons.prems results [of ev s] show ?case by simp
qed simp

lemma run_slept:
  "lr_slept (snd (listen_loop turn evs s)) \<le> lr_slept s + length (filter is_failure evs) * from_secs 1"
proof (induction evs arbitrary: s)
  case (Cons ev evs)
  obtain b s' where t: "turn ev s = (b, s')" by fastforce
  have "lr_slept s' \<le> lr_slept s + (if is_failure ev then from_secs 1 else 0)"
  proof (cases ev)
    case (AcceptFails e)
    with fails [of e s] t backoff_value [of "lr_retry s"] show ?thesis
      by (auto simp: back_off_def Let_def case_prod_beta from_millis_def from_secs_def)
  qed (use retry [of ev s] t in auto)
  with t Cons [of s'] show ?case by (cases b) auto
qed simp

end

lemmas turn_defs = proxy_accept_turn_def http_vhost_turn_def https_vhost_turn_def udp_listener_turn_def
  accepted_one_def back_off_def handled_def meanwhile_def Let_def case_prod_beta

fun is_task :: "('c, 'h) listen_event \<Rightarrow> bool" where
  "is_task (Handles _) = True"
| "is_task _ = False"

interpretation pl: listening "proxy_accept_turn name a" is_arrival for name a
  by unfold_locales (auto simp: turn_defs split: listen_event.split)

interpretation hl: listening "http_vhost_turn lower" is_task for lower
  by unfold_locales (auto simp: turn_defs split: listen_event.split)

interpretation sl: listening "https_vhost_turn lower" is_task for lower
  by unfold_locales (auto simp: turn_defs split: listen_event.split)

interpretation ul: listening "udp_listener_turn u" "\<lambda>ev. is_arrival ev \<or> is_task ev" for u
  by unfold_locales (auto simp: turn_defs split: listen_event.split)

section \<open>The tasks of a server\<close>

datatype background =
    HttpVhostTask nat
  | DashboardTask nat dashboard_section
  | HttpsVhostTask nat server_tls_config
  | AliveTask    \<comment> \<open>a log line now and then\<close>
  | SweeperTask  \<comment> \<open>\<open>sweep_task\<close>\<close>

definition background_tasks :: "server \<Rightarrow> background list" where
  \<comment> \<open>what \<open>run\<close> spawns before it accepts\<close>
  "background_tasks srv =
     (case sr_vhost_http srv of Some l \<Rightarrow> [HttpVhostTask l] | None \<Rightarrow> []) @
     (case (sr_dashboard srv, sc_dashboard (sr_config srv)) of
        (Some l, Some cfg) \<Rightarrow> [DashboardTask l cfg]
      | _ \<Rightarrow> []) @
     (case sr_vhost_https srv of Some (l, tls) \<Rightarrow> [HttpsVhostTask l tls] | None \<Rightarrow> []) @
     [AliveTask, SweeperTask]"

definition server_main :: "server_event list \<Rightarrow> duration list \<Rightarrow> server \<Rightarrow> (error, duration \<times> nat) result option" where
  "server_main evs waits srv = server_run evs waits srv (length (background_tasks srv))"

section \<open>Idle UDP sessions\<close>

fun udp_sweeps ::
  "(nat \<Rightarrow> udp_proxy \<Rightarrow> udp_proxy) \<Rightarrow> duration \<Rightarrow> instant \<Rightarrow> nat \<Rightarrow> udp_proxy \<Rightarrow> udp_proxy" where
  \<comment> \<open>the proxy after so many ticks of the listener's timer; \<open>others\<close> is what happens before each\<close>
  "udp_sweeps others period start 0 p = p"
| "udp_sweeps others period start (Suc n) p =
     sweep (start + Suc n * period) (others n (udp_sweeps others period start n p))"

definition quiet :: "socket_addr \<Rightarrow> (nat \<Rightarrow> udp_proxy \<Rightarrow> udp_proxy) \<Rightarrow> bool" where
  \<comment> \<open>nothing happens to the session of this user\<close>
  "quiet c others \<longleftrightarrow>
     (\<forall>k p. hm_get (up_sessions (others k p)) c = hm_get (up_sessions p) c \<and>
        (hm_wf (up_sessions p) \<longrightarrow> hm_wf (up_sessions (others k p))) \<and>
        up_session_timeout (others k p) = up_session_timeout p)"

lemma sweep_sessions_only: "up_sessions (sweep now p) =
    hm_retain (\<lambda>_ s. now - us_last_active s < up_session_timeout p) (up_sessions p)"
  by (simp add: sweep_def Let_def fold_drop_pending sweep_sessions_def)

lemma drop_pending_timeout: "up_session_timeout (drop_pending wk p) = up_session_timeout p"
  by (auto simp: drop_pending_def remove_pending_def take_by_id_def forget_client_def close_at_def
      split: option.split)

lemma sweep_timeout: "up_session_timeout (sweep now p) = up_session_timeout p"
proof -
  have "up_session_timeout (fold drop_pending ks q) = up_session_timeout q" for ks q
    by (induction ks arbitrary: q) (simp_all add: drop_pending_timeout)
  then show ?thesis by (simp add: sweep_def Let_def sweep_sessions_def)
qed

lemma udp_sweeps_keep:
  assumes "quiet c others" "hm_wf (up_sessions p)"
  shows "hm_wf (up_sessions (udp_sweeps others period start n p)) \<and>
    up_session_timeout (udp_sweeps others period start n p) = up_session_timeout p"
  using assms by (induction n) (auto simp: sweep_sessions_only sweep_timeout quiet_def)

lemma udp_sweeps_get:
  assumes "quiet c others" "hm_wf (up_sessions p)" "hm_get (up_sessions p) c = Some s"
    and "start \<le> us_last_active s" "0 < up_session_timeout p"
  shows "hm_get (up_sessions (udp_sweeps others period start n p)) c =
    (if us_last_active s + up_session_timeout p \<le> start + n * period then None else Some s)"
proof (induction n)
  case 0
  from assms show ?case by simp
next
  case (Suc n)
  let ?q = "others n (udp_sweeps others period start n p)"
  have q: "hm_get (up_sessions ?q) c = hm_get (up_sessions (udp_sweeps others period start n p)) c"
    "hm_wf (up_sessions ?q)" "up_session_timeout ?q = up_session_timeout p"
    using udp_sweeps_keep [OF assms(1,2), of period start n] assms(1) by (auto simp: quiet_def)
  show ?case
    unfolding udp_sweeps.simps sweep_sessions_only hm_get_retain [OF q(2)] q(1,3) Suc.IH
    using assms(4,5) by auto
qed

section \<open>Properties\<close>

text \<open>
  C29 --- A UDP user who falls silent is forgotten in time and not before: with the listener's timer
  ticking once a \<open>sweep_period\<close>, whatever the other users do, the session is there unchanged until a
  tick that comes at most one period after the session timeout has passed, and gone from it on.
\<close>

theorem idle_udp_session_ends:
  assumes "quiet c others" and "hm_wf (up_sessions p)" and "hm_get (up_sessions p) c = Some s"
    and "start \<le> us_last_active s" and "0 < up_session_timeout p"
  shows "\<exists>n. us_last_active s + up_session_timeout p \<le> start + n * sweep_period p \<and>
    start + n * sweep_period p < us_last_active s + up_session_timeout p + sweep_period p \<and>
    (\<forall>m. hm_get (up_sessions (udp_sweeps others (sweep_period p) start m p)) c =
       (if m < n then Some s else None))"
proof -
  have "0 < sweep_period p" by (simp add: sweep_period_def from_secs_def)
  from first_tick [OF this, of "us_last_active s + up_session_timeout p - start"] assms(4,5)
  obtain n where n: "\<And>m. us_last_active s + up_session_timeout p - start \<le> m * sweep_period p \<longleftrightarrow> n \<le> m"
      "n * sweep_period p < us_last_active s + up_session_timeout p - start + sweep_period p"
    by auto
  have e: "us_last_active s + up_session_timeout p \<le> start + m * sweep_period p \<longleftrightarrow> n \<le> m" for m
    using n(1) [of m] by auto
  with n(2) udp_sweeps_get [OF assms] assms(4) show ?thesis by (intro exI [of _ n]) auto
qed

definition demo_idle :: udp_proxy where
  "demo_idle = register_session demo_peer 0 5 (udp_proxy_new (from_secs 60))"

theorem idle_udp_session_ends_witness:
  "\<exists>n. hm_get (up_sessions (udp_sweeps (\<lambda>_ p. p) (from_secs 15) 0 n demo_idle)) demo_peer = None \<and>
     n * from_secs 15 < 5 + from_secs 60 + from_secs 15"
proof -
  let ?s = "\<lparr>us_chan = 0, us_last_active = 5\<rparr>"
  have "sweep_period demo_idle = from_secs 15" "up_session_timeout demo_idle = from_secs 60"
    by (simp_all add: sweep_period_def demo_idle_def register_session_def udp_proxy_new_def from_secs_def)
  moreover have "\<exists>n. us_last_active ?s + up_session_timeout demo_idle \<le> 0 + n * sweep_period demo_idle \<and>
    0 + n * sweep_period demo_idle < us_last_active ?s + up_session_timeout demo_idle + sweep_period demo_idle \<and>
    (\<forall>m. hm_get (up_sessions (udp_sweeps (\<lambda>_ p. p) (sweep_period demo_idle) 0 m demo_idle)) demo_peer =
       (if m < n then Some ?s else None))"
    by (rule idle_udp_session_ends)
      (simp_all add: quiet_def demo_idle_def register_session_def udp_proxy_new_def from_secs_def
        hm_insert_def hm_wf_def hm_keys_def hm_get_def)
  ultimately show ?thesis by auto
qed

text \<open>
  No error of a socket silences the server: the accept loops of proxies and of both kinds of
  virtual hosts and the receive loop of UDP proxies end when, and only when, the process shuts down.
  Until then every connection a proxy accepts is dispatched, and a failed accept costs at most a
  second of waiting.
\<close>

theorem listeners_survive:
  "(fst (listen_loop (proxy_accept_turn name a) evs s) \<longleftrightarrow> ShutdownRequested \<in> set evs) \<and>
   (fst (listen_loop (http_vhost_turn lower) evh sh) \<longleftrightarrow> ShutdownRequested \<in> set evh) \<and>
   (fst (listen_loop (https_vhost_turn lower) evt ss) \<longleftrightarrow> ShutdownRequested \<in> set evt) \<and>
   (fst (listen_loop (udp_listener_turn u) evu su) \<longleftrightarrow> ShutdownRequested \<in> set evu) \<and>
   (ShutdownRequested \<notin> set evs \<longrightarrow>
     length (lr_done (snd (listen_loop (proxy_accept_turn name a) evs s))) =
       length (lr_done s) + length (filter is_arrival evs)) \<and>
   lr_slept (snd (listen_loop (proxy_accept_turn name a) evs s))
     \<le> lr_slept s + length (filter is_failure evs) * from_secs 1"
  by (simp add: pl.ends_iff hl.ends_iff sl.ends_iff ul.ends_iff pl.run_results pl.run_slept del: One_nat_def)

theorem listeners_survive_witness:
  "length (lr_done (snd (listen_loop (proxy_accept_turn ''ssh'' 0)
     [AcceptFails (io_err ConnectionReset), Arrives (\<lambda>_. ProbePending, 9, 3)]
     (listen_start (server_state_new 0))))) = 1"
  using listeners_survive [of "''ssh''" 0
      "[AcceptFails (io_err ConnectionReset), Arrives (\<lambda>_. ProbePending, 9, 3)]" "listen_start (server_state_new 0)"
      id "[]" "listen_start (server_state_new 0)" "[]" "listen_start (server_state_new 0)" 0 "[]"
      "listen_start (server_state_new 0)"]
  by (simp add: listen_start_def)

end
