(* ===== verification/Signals.thy ===== *)
theory Signals
  imports Platform
begin

text \<open>
  The task that turns a termination signal into the cancelled shutdown token
  (\<open>rfrp-common/src/util/signal.rs\<close>) and the pump between two streams (\<open>util/bridge.rs\<close>), whose copying is
  tokio's and a parameter. Whether a handler can be installed is an argument, as are the signals
  that come.
\<close>

section \<open>Signals\<close>

datatype os_signal = Interrupt | Terminate | CtrlC | CtrlBreak

record signal_env =
  sg_first :: "(io_error, unit) result"   \<comment> \<open>SIGINT, or Ctrl-C on Windows\<close>
  sg_second :: "(io_error, unit) result"  \<comment> \<open>SIGTERM, or Ctrl-Break\<close>
  sg_ctrl_c :: "(io_error, unit) result"  \<comment> \<open>of \<open>tokio::signal::ctrl_c\<close>\<close>

definition ctrl_c_signal :: "platform \<Rightarrow> os_signal" where
  "ctrl_c_signal pl = (if pl = Windows then CtrlC else Interrupt)"

definition ctrl_c_returns :: "platform \<Rightarrow> signal_env \<Rightarrow> os_signal list \<Rightarrow> bool" where
  \<comment> \<open>\<open>let _ = ctrl_c().await\<close>: a failure returns at once\<close>
  "ctrl_c_returns pl env sigs =
     (case sg_ctrl_c env of Inl e \<Rightarrow> True | Inr _ \<Rightarrow> ctrl_c_signal pl \<in> set sigs)"

definition either_arrives :: "platform \<Rightarrow> signal_env \<Rightarrow> os_signal \<times> os_signal \<Rightarrow> os_signal list \<Rightarrow> bool" where
  \<comment> \<open>both handlers are installed first; where that fails only Ctrl-C is waited for\<close>
  "either_arrives pl env pair sigs =
     (case sg_first env of
        Inl e \<Rightarrow> ctrl_c_returns pl env sigs
      | Inr _ \<Rightarrow>
          (case sg_second env of
             Inl e \<Rightarrow> ctrl_c_returns pl env sigs
           | Inr _ \<Rightarrow> fst pair \<in> set sigs \<or> snd pair \<in> set sigs))"

definition spawn_signal_watcher :: "platform \<Rightarrow> signal_env \<Rightarrow> os_signal list \<Rightarrow> bool \<Rightarrow> bool" where
  \<comment> \<open>whether the token is cancelled afterwards\<close>
  "spawn_signal_watcher pl env sigs cancelled =
     (if cancelled then True
      else case pl of
        Unix \<Rightarrow> either_arrives pl env (Interrupt, Terminate) sigs
      | Windows \<Rightarrow> either_arrives pl env (CtrlC, CtrlBreak) sigs
      | OtherPlatform \<Rightarrow> ctrl_c_returns pl env sigs)"

text \<open>
  With both handlers in place on Unix the process is asked to stop if and only if one of the two
  signals comes; without them, and with \<open>ctrl_c\<close> failing for the same reason, it is asked to stop
  at once.
\<close>

lemma watcher_on_unix:
  "sg_first env = Inr () \<Longrightarrow> sg_second env = Inr () \<Longrightarrow>
   spawn_signal_watcher Unix env sigs False \<longleftrightarrow> Interrupt \<in> set sigs \<or> Terminate \<in> set sigs"
  by (simp add: spawn_signal_watcher_def either_arrives_def)

lemma watcher_without_handlers:
  "sg_first env = Inl e \<Longrightarrow> sg_ctrl_c env = Inl e' \<Longrightarrow> spawn_signal_watcher Unix env [] False"
  by (simp add: spawn_signal_watcher_def either_arrives_def ctrl_c_returns_def)

section \<open>Bridge\<close>

type_synonym ('a, 'b) copy_both = "'a \<Rightarrow> 'b \<Rightarrow> nat \<Rightarrow> nat \<Rightarrow> (io_error, nat \<times> nat) result"

definition bridge_with_buf_size :: "('a, 'b) copy_both \<Rightarrow> 'a \<Rightarrow> 'b \<Rightarrow> nat \<Rightarrow> (error, unit) result" where
  "bridge_with_buf_size copy a b buf_size =
     (case copy a b buf_size buf_size of Inl e \<Rightarrow> Inl (Io e) | Inr _ \<Rightarrow> Inr ())"

definition BRIDGE_BUF_SIZE :: nat where "BRIDGE_BUF_SIZE = 32 * 1024"

definition bridge :: "('a, 'b) copy_both \<Rightarrow> 'a \<Rightarrow> 'b \<Rightarrow> (error, unit) result" where
  "bridge copy a b = bridge_with_buf_size copy a b BRIDGE_BUF_SIZE"

end
