(* ===== verification/Command.thy ===== *)
theory Command
  imports Loops Client StatusEndpoint Signals
begin

text \<open>
  The command line (\<open>rfrp-bin/src\<close>, \<open>rfrps/src/cli.rs\<close>, \<open>rfrpc/src/cli.rs\<close>): the dispatch of \<open>main\<close>,
  overriding the configuration, \<open>--check\<close> with its summaries, the start of either side, the query of
  the status endpoint, and the choice of the log writer. The arguments are as \<open>clap\<close> parsed them;
  the record \<open>world\<close> holds what the process is given by its environment.
\<close>

section \<open>Arguments\<close>

record server_opts =
  so_config :: "string option"
  so_bind :: "string option"
  so_token :: "string option"
  so_tls_enable :: "bool option"
  so_work_conn_tls :: "bool option"
  so_grace_secs :: "u64 option"
  so_check :: bool

record client_opts =
  co_config :: "string option"
  co_server :: "string option"
  co_token :: "string option"
  co_tls_enable :: "bool option"
  co_work_conn_tls :: "bool option"
  co_check :: bool

datatype client_action = Status string "string option"  \<comment> \<open>the configuration file and \<open>--addr\<close>\<close>

datatype commands =
    ServerCommand server_opts
  | ClientCommand client_opts "client_action option"
  | Completions string

record log_overrides =
  ov_level :: "string option"
  ov_output :: "string option"
  ov_format :: "string option"

record cli =
  cli_command :: commands
  cli_log :: log_overrides

section \<open>Overriding the configuration\<close>

definition server_overrides ::
  "string option \<Rightarrow> string option \<Rightarrow> bool option \<Rightarrow> bool option \<Rightarrow> server_config
     \<Rightarrow> (error, server_config) result" where
  "server_overrides bind token tls_enable work_conn_tls cfg =
     rbind (case bind of
              None \<Rightarrow> Inr cfg
            | Some b \<Rightarrow>
                rbind (split_host_port b) (\<lambda>(host, port).
                  Inr (cfg\<lparr>sc_server := (sc_server cfg)\<lparr>bind_addr := host, bind_port := port\<rparr>\<rparr>))) (\<lambda>cfg.
       let s = sc_server cfg;
           s = (case token of None \<Rightarrow> s | Some t \<Rightarrow> s\<lparr>sv_token := t\<rparr>);
           s = (case tls_enable of None \<Rightarrow> s | Some v \<Rightarrow> s\<lparr>sv_tls_enable := v\<rparr>);
           s = (case work_conn_tls of None \<Rightarrow> s | Some v \<Rightarrow> s\<lparr>sv_work_conn_tls := v\<rparr>)
       in Inr (cfg\<lparr>sc_server := s\<rparr>))"

definition client_overrides ::
  "string option \<Rightarrow> string option \<Rightarrow> bool option \<Rightarrow> bool option \<Rightarrow> client_config
     \<Rightarrow> (error, client_config) result" where
  "client_overrides server token tls_enable work_conn_tls cfg =
     rbind (case server of
              None \<Rightarrow> Inr cfg
            | Some b \<Rightarrow>
                rbind (split_host_port b) (\<lambda>(host, port).
                  Inr (cfg\<lparr>cc_client := (cc_client cfg)\<lparr>server_addr := host, server_port := port\<rparr>\<rparr>))) (\<lambda>cfg.
       let s = cc_client cfg;
           s = (case token of None \<Rightarrow> s | Some t \<Rightarrow> s\<lparr>cl_token := t\<rparr>);
           s = (case tls_enable of None \<Rightarrow> s | Some v \<Rightarrow> s\<lparr>cl_tls_enable := v\<rparr>);
           s = (case work_conn_tls of None \<Rightarrow> s | Some v \<Rightarrow> s\<lparr>cl_work_conn_tls := v\<rparr>)
       in Inr (cfg\<lparr>cc_client := s\<rparr>))"

section \<open>Logging\<close>

record log_env =
  ve_filter_ok :: "string \<Rightarrow> bool"   \<comment> \<open>\<open>EnvFilter::try_new\<close>\<close>
  ve_open :: "string \<Rightarrow> (io_error, unit) result"
  ve_platform :: platform
  ve_terminal :: bool
  ve_no_color :: bool

datatype log_writer = LogStderr | LogFile string

record log_plan =
  lp_filter :: string
  lp_json :: bool
  lp_ansi :: bool
  lp_writer :: log_writer
  lp_complaint :: "(string \<times> io_error) option"  \<comment> \<open>the file that could not be opened\<close>

definition ansi_enabled :: "log_env \<Rightarrow> bool" where
  "ansi_enabled env =
     (if ve_platform env = Windows then False
      else if \<not> ve_terminal env then False
      else if ve_no_color env then False
      else True)"

definition install_logging ::
  "log_env \<Rightarrow> string option \<Rightarrow> string option \<Rightarrow> string option \<Rightarrow> log_plan" where
  "install_logging env level_override output_override format_override =
     (let level = unwrap_or level_override ''info'';
          output = unwrap_or output_override ''stderr'';
          format = unwrap_or format_override ''text'';
          fltr = (if ve_filter_ok env level then level else ''info'');
          is_json = eq_ignore_ascii_case format ''json'';
          install = (\<lambda>writer ansi complaint.
            \<lparr>lp_filter = fltr, lp_json = is_json, lp_ansi = (if is_json then False else ansi),
             lp_writer = writer, lp_complaint = complaint\<rparr>)
      in case strip_prefix ''file:'' output of
           Some path \<Rightarrow>
             (case ve_open env path of
                Inr _ \<Rightarrow> install (LogFile path) False None
              | Inl e \<Rightarrow> install LogStderr (ansi_enabled env) (Some (path, e)))
         | None \<Rightarrow> install LogStderr (ansi_enabled env) None)"

definition or_else :: "'a option \<Rightarrow> 'a option \<Rightarrow> 'a option" where
  "or_else a b = (case a of Some x \<Rightarrow> Some x | None \<Rightarrow> b)"

definition init_logging :: "log_env \<Rightarrow> log_section \<Rightarrow> log_overrides \<Rightarrow> log_plan" where
  "init_logging env log ov =
     install_logging env (or_else (ov_level ov) (lo_level log)) (or_else (ov_output ov) (lo_output log))
       (or_else (ov_format ov) (lo_format log))"

section \<open>Summaries\<close>

definition char_count :: "string \<Rightarrow> nat" where
  \<comment> \<open>\<open>chars().count()\<close> of valid UTF-8: the bytes that start a character\<close>
  "char_count s = length (filter (\<lambda>c. \<not> cont_byte c) s)"

definition describe_secret :: "string \<Rightarrow> string" where
  "describe_secret s = ''(set, '' @ show_nat (char_count s) @ '' chars)''"

definition whole_secs :: "duration \<Rightarrow> nat" where
  "whole_secs d = d div from_secs 1"

definition shown_ports :: "proxy_section \<Rightarrow> string" where
  "shown_ports p = (if trim (allow_ports p) = [] then ''all'' else allow_ports p)"

definition print_server_config_summary :: "string \<Rightarrow> server_config \<Rightarrow> string" where
  "print_server_config_summary path cfg =
     (let s = sc_server cfg; p = sc_proxy cfg in
      ''server config OK: '' @ path @ LF @
      ''  bind: '' @ bind_addr s @ '':'' @ show_u16 (bind_port s) @ LF @
      ''  token: '' @ describe_secret (sv_token s) @ LF @
      ''  tls_enable: '' @ show_truth (sv_tls_enable s) @ '', work_conn_tls: '' @
        show_truth (sv_work_conn_tls s) @ LF @
      ''  grace_secs: '' @ show_nat (whole_secs (grace s)) @ LF @
      ''  allow_ports: '' @ shown_ports p @ LF @
      ''  vhost: http='' @ port_debug (vhost_http_port p) @ '', https='' @ port_debug (vhost_https_port p) @ LF @
      ''  dashboard: '' @
        (case sc_dashboard cfg of
           Some d \<Rightarrow> da_addr d @ '' (user='' @ da_user d @ '')''
         | None \<Rightarrow> ''disabled'') @ LF)"

fun join_with :: "string \<Rightarrow> string list \<Rightarrow> string" where
  "join_with sep [] = []"
| "join_with sep [x] = x"
| "join_with sep (x # xs) = x @ sep @ join_with sep xs"

definition remote_text :: "client_proxy \<Rightarrow> string" where
  "remote_text p =
     (case (cp_remote_port p, cp_custom_domains p) of
        (Some rp, _) \<Rightarrow> ''remote_port='' @ show_u16 rp
      | (None, Some d) \<Rightarrow> ''domains='' @ join_with '','' d
      | (None, None) \<Rightarrow> [])"

definition proxy_line :: "client_proxy \<Rightarrow> string" where
  "proxy_line p =
     ''    - '' @ cp_name p @ '' '' @ kind_debug (cp_type p) @ '' '' @ local_ip p @ '':'' @
     show_u16 (local_port p) @ '' '' @ remote_text p @ '' pool_size='' @ show_nat (unat (pool_size p)) @ LF"

definition print_client_config_summary :: "string \<Rightarrow> client_config \<Rightarrow> string" where
  "print_client_config_summary path cfg =
     (let c = cc_client cfg in
      ''client config OK: '' @ path @ LF @
      ''  server: '' @ server_addr c @ '':'' @ show_u16 (server_port c) @ LF @
      ''  token: '' @ describe_secret (cl_token c) @ LF @
      ''  tls_enable: '' @ show_truth (cl_tls_enable c) @ '', work_conn_tls: '' @
        show_truth (cl_work_conn_tls c) @ LF @
      ''  proxies: '' @ show_nat (length (cc_proxies cfg)) @ LF @
      concat (map proxy_line (cc_proxies cfg)))"

type_synonym log_fields = "(string \<times> json_value) list"

definition log_server_summary :: "server_config \<Rightarrow> log_fields" where
  "log_server_summary cfg =
     (let s = sc_server cfg; p = sc_proxy cfg in
      [(''version'', JStr PKG_VERSION), (''bind'', JStr (host_port (bind_addr s) (bind_port s))),
       (''tls'', JBool (sv_tls_enable s)), (''work_conn_tls'', JBool (sv_work_conn_tls s)),
       (''tcp_keepalive_secs'', JWord (unwrap_or (sv_tcp_keepalive_secs s) 30)),
       (''udp_session_timeout_secs'', JNum (int (whole_secs (udp_session_timeout s)))),
       (''grace_secs'', JNum (int (whole_secs (grace s)))), (''allow_ports'', JStr (shown_ports p)),
       (''vhost_http'', JOpt JWord (vhost_http_port p)), (''vhost_https'', JOpt JWord (vhost_https_port p)),
       (''dashboard'', JBool (sc_dashboard cfg \<noteq> None)),
       (''log_level'', JStr (unwrap_or (lo_level (sc_log cfg)) ''info''))])"

definition log_proxy :: "client_proxy \<Rightarrow> log_fields" where
  "log_proxy p =
     [(''name'', JStr (cp_name p)), (''kind'', JStr (kind_debug (cp_type p))),
      (''local'', JStr (host_port (local_ip p) (local_port p))),
      (''remote_port'', JOpt JWord (cp_remote_port p)),
      (''domains'', JOpt (\<lambda>ds. JArr (map JStr ds)) (cp_custom_domains p)),
      (''pool_size'', JWord (pool_size p))]"

definition log_client_summary :: "client_config \<Rightarrow> log_fields list" where
  "log_client_summary cfg =
     (let c = cc_client cfg in
      [(''version'', JStr PKG_VERSION), (''server'', JStr (host_port (server_addr c) (server_port c))),
       (''proxies'', JNum (int (length (cc_proxies cfg)))), (''tls'', JBool (cl_tls_enable c)),
       (''work_conn_tls'', JBool (cl_work_conn_tls c)),
       (''tcp_keepalive_secs'', JWord (unwrap_or (cl_tcp_keepalive_secs c) 30)),
       (''run_id_file'', JOpt JStr (run_id_file c))] # map log_proxy (cc_proxies cfg))"

section \<open>Querying the status endpoint\<close>

record http_get =
  hg_connect :: "(io_error, unit) result"
  hg_write :: "(io_error, unit) result"
  hg_read :: "(io_error, string) result"  \<comment> \<open>everything until the end of the stream\<close>

datatype fetch_error = FetchIo io_error | UnexpectedResponse string

definition status_request :: "string \<Rightarrow> string" where
  "status_request addr =
     ''GET /api/status HTTP/1.1'' @ CRLF @ ''Host: '' @ addr @ CRLF @ ''Connection: close'' @ CRLF @ CRLF"

definition first_line :: "string \<Rightarrow> string" where
  \<comment> \<open>\<open>lines().next()\<close>, empty when there is none; the carriage return goes with the line feed\<close>
  "first_line s =
     (case split_once LF s of
        None \<Rightarrow> s
      | Some (l, _) \<Rightarrow> if l \<noteq> [] \<and> last l = CHR 0x0D then butlast l else l)"

definition read_status_response :: "string \<Rightarrow> (fetch_error, string) result" where
  "read_status_response resp =
     (let text = from_utf8_lossy resp;
          (head, body) = unwrap_or (split_once (CRLF @ CRLF) text) (text, []);
          status = first_line head
      in if \<not> contains_str '' 200 '' status then Inl (UnexpectedResponse status) else Inr body)"

definition fetch_status :: "http_get \<Rightarrow> (fetch_error, string) result" where
  "fetch_status net =
     rbind (map_err FetchIo (hg_connect net)) (\<lambda>_.
     rbind (map_err FetchIo (hg_write net)) (\<lambda>_.
     rbind (map_err FetchIo (hg_read net)) read_status_response))"

section \<open>Running\<close>

datatype exit_code = ExitSuccess | ExitFailure

datatype notice =  \<comment> \<open>what goes to the error output\<close>
    LoadFailed string error
  | BadOverride error
  | InvalidAfterOverrides error
  | ConfigRequired
  | NoStatusAddr
  | StatusFailed string fetch_error

record command_result =
  cr_exit :: "exit_code option"  \<comment> \<open>\<open>None\<close> while it runs\<close>
  cr_stdout :: string
  cr_stderr :: "notice list"
  cr_log :: "log_plan option"
  cr_logged :: "log_fields list"  \<comment> \<open>the startup summary\<close>
  cr_keepalive :: keepalive_cell
  cr_server :: "server option"
  cr_client :: "client option"

definition exits :: "exit_code \<Rightarrow> string \<Rightarrow> notice list \<Rightarrow> command_result" where
  \<comment> \<open>before anything is started\<close>
  "exits code out err =
     \<lparr>cr_exit = Some code, cr_stdout = out, cr_stderr = err, cr_log = None, cr_logged = [], cr_keepalive = None,
      cr_server = None, cr_client = None\<rparr>"

record world =
  wo_fs :: fs
  wo_server_toml :: "string \<Rightarrow> (string, server_config) result"
  wo_client_toml :: "string \<Rightarrow> (string, client_config) result"
  wo_lower :: "string \<Rightarrow> string"
  wo_log :: log_env
  wo_tls :: tls_env
  wo_bind :: bind_env
  wo_now :: instant
  wo_server_events :: "server_event list"
  wo_waits :: "duration list"
  wo_json :: json
  wo_display :: "io_error \<Rightarrow> string"
  wo_uuid :: uuid_env
  wo_run_id :: run_id_env
  wo_attempts :: "attempt_in list"
  wo_process :: process
  wo_status :: "string \<Rightarrow> http_get"
  wo_completions :: "string \<Rightarrow> string"

definition exit_of :: "('e, 'a) result option \<Rightarrow> exit_code option" where
  "exit_of r =
     (case r of
        None \<Rightarrow> None
      | Some (Inr _) \<Rightarrow> Some ExitSuccess
      | Some (Inl _) \<Rightarrow> Some ExitFailure)"

definition start_server ::
  "world \<Rightarrow> log_overrides \<Rightarrow> u64 option \<Rightarrow> server_config \<Rightarrow> command_result" where
  \<comment> \<open>from \<open>init_logging\<close> on\<close>
  "start_server w ov grace_override cfg =
     (let started = (exits ExitFailure [] [])
            \<lparr>cr_log := Some (init_logging (wo_log w) (sc_log cfg) ov),
             cr_logged := [log_server_summary cfg],
             cr_keepalive := init_keepalive (keepalive_from_secs (sv_tcp_keepalive_secs (sc_server cfg))) None\<rparr>
      in case server_new (wo_bind w) (wo_tls w) cfg (wo_now w) of
           Inl e \<Rightarrow> started
         | Inr srv \<Rightarrow>
             let srv = (case grace_override of Some g \<Rightarrow> with_grace (from_secs (unat g)) srv | None \<Rightarrow> srv)
             in started\<lparr>cr_server := Some srv,
                        cr_exit := exit_of (server_main (wo_server_events w) (wo_waits w) srv)\<rparr>)"

definition run_server :: "world \<Rightarrow> string \<Rightarrow> server_opts \<Rightarrow> log_overrides \<Rightarrow> command_result" where
  "run_server w config a ov =
     (case load_server_config (wo_fs w) (wo_server_toml w) config of
        Inl e \<Rightarrow> exits ExitFailure [] [LoadFailed config e]
      | Inr cfg \<Rightarrow>
          (case server_overrides (so_bind a) (so_token a) (so_tls_enable a) (so_work_conn_tls a) cfg of
             Inl e \<Rightarrow> exits ExitFailure [] [BadOverride e]
           | Inr cfg \<Rightarrow>
               (case validate_server (wo_fs w) cfg of
                  Inl e \<Rightarrow> exits ExitFailure [] [InvalidAfterOverrides e]
                | Inr _ \<Rightarrow>
                    if so_check a then exits ExitSuccess (print_server_config_summary config cfg) []
                    else start_server w ov (so_grace_secs a) cfg)))"

definition start_client :: "world \<Rightarrow> log_overrides \<Rightarrow> client_config \<Rightarrow> command_result" where
  "start_client w ov cfg =
     (let started = (exits ExitFailure [] [])
            \<lparr>cr_log := Some (init_logging (wo_log w) (cc_log cfg) ov),
             cr_logged := log_client_summary cfg,
             cr_keepalive := init_keepalive (keepalive_from_secs (cl_tcp_keepalive_secs (cc_client cfg))) None\<rparr>
      in case client_new (wo_tls w) cfg of
           Inl e \<Rightarrow> started
         | Inr cl \<Rightarrow>
             let run_id = fst (load_or_create_run_id (wo_uuid w) (wo_run_id w))
             in started\<lparr>cr_client := Some cl,
                        cr_exit := exit_of (fst (client_run (wo_lower w) (wo_json w) (wo_display w) cl run_id
                          (wo_attempts w) (wo_process w)))\<rparr>)"

definition run_client :: "world \<Rightarrow> string \<Rightarrow> client_opts \<Rightarrow> log_overrides \<Rightarrow> command_result" where
  "run_client w config a ov =
     (case load_client_config (wo_fs w) (wo_client_toml w) (wo_lower w) config of
        Inl e \<Rightarrow> exits ExitFailure [] [LoadFailed config e]
      | Inr cfg \<Rightarrow>
          (case client_overrides (co_server a) (co_token a) (co_tls_enable a) (co_work_conn_tls a) cfg of
             Inl e \<Rightarrow> exits ExitFailure [] [BadOverride e]
           | Inr cfg \<Rightarrow>
               (case validate_client (wo_fs w) cfg of
                  Inl e \<Rightarrow> exits ExitFailure [] [InvalidAfterOverrides e]
                | Inr _ \<Rightarrow>
                    if co_check a then exits ExitSuccess (print_client_config_summary config cfg) []
                    else start_client w ov cfg)))"

definition run_status :: "world \<Rightarrow> string \<Rightarrow> string option \<Rightarrow> command_result" where
  "run_status w config addr =
     (case load_client_config (wo_fs w) (wo_client_toml w) (wo_lower w) config of
        Inl e \<Rightarrow> exits ExitFailure [] [LoadFailed config e]
      | Inr cfg \<Rightarrow>
          (case or_else addr (status_addr (cc_client cfg)) of
             None \<Rightarrow> exits ExitFailure [] [NoStatusAddr]
           | Some target \<Rightarrow>
               (case fetch_status (wo_status w target) of
                  Inl e \<Rightarrow> exits ExitFailure [] [StatusFailed target e]
                | Inr body \<Rightarrow>
                    exits ExitSuccess
                      (if body \<noteq> [] \<and> last body = CHR 0x0A then body else body @ LF) [])))"

definition rfrp_main :: "world \<Rightarrow> cli \<Rightarrow> command_result" where
  "rfrp_main w c =
     (case cli_command c of
        ServerCommand a \<Rightarrow>
          (case so_config a of
             Some config \<Rightarrow> run_server w config a (cli_log c)
           | None \<Rightarrow> exits ExitFailure [] [ConfigRequired])
      | ClientCommand a (Some (Status config addr)) \<Rightarrow> run_status w config addr
      | ClientCommand a None \<Rightarrow>
          (case co_config a of
             Some config \<Rightarrow> run_client w config a (cli_log c)
           | None \<Rightarrow> exits ExitFailure [] [ConfigRequired])
      | Completions shell \<Rightarrow> exits ExitSuccess (wo_completions w shell) [])"

section \<open>What is started\<close>

lemma exits_simps [simp]:
  "cr_exit (exits c out err) = Some c" "cr_stdout (exits c out err) = out" "cr_server (exits c out err) = None"
  "cr_client (exits c out err) = None" "cr_keepalive (exits c out err) = None" "cr_log (exits c out err) = None"
  "cr_stderr (exits c out err) = err"
  by (simp_all add: exits_def)

lemma server_new_config: "server_new env tls cfg now = Inr srv \<Longrightarrow> sr_config srv = cfg"
  by (auto simp: server_new_def rbind_Inr_iff Let_def)

lemma with_grace_config [simp]: "sr_config (with_grace g srv) = sr_config srv"
  by (simp add: with_grace_def)

lemma start_server_simps:
  "cr_stdout (start_server w ov g cfg) = []"
  "cr_server (start_server w ov g cfg) = Some srv \<Longrightarrow> sr_config srv = cfg"
  by (auto simp: start_server_def Let_def server_new_config split: sum.splits option.splits)

definition overridden_server :: "world \<Rightarrow> string \<Rightarrow> server_opts \<Rightarrow> (error, server_config) result" where
  \<comment> \<open>the configuration in effect\<close>
  "overridden_server w config a =
     rbind (load_server_config (wo_fs w) (wo_server_toml w) config)
       (server_overrides (so_bind a) (so_token a) (so_tls_enable a) (so_work_conn_tls a))"

definition overridden_client :: "world \<Rightarrow> string \<Rightarrow> client_opts \<Rightarrow> (error, client_config) result" where
  "overridden_client w config a =
     rbind (load_client_config (wo_fs w) (wo_client_toml w) (wo_lower w) config)
       (client_overrides (co_server a) (co_token a) (co_tls_enable a) (co_work_conn_tls a))"

lemma checked_pipeline:
  assumes "r = (case l of Inl e \<Rightarrow> fail (A e) | Inr c \<Rightarrow>
    (case f c of Inl e \<Rightarrow> fail (B e) | Inr c \<Rightarrow>
      (case v c of Inl e \<Rightarrow> fail (C e) | Inr (_ :: unit) \<Rightarrow> go c)))"
  shows "(\<exists>c. rbind l f = Inr c \<and> v c = Inr () \<and> r = go c) \<or>
    (\<nexists>c. rbind l f = Inr c \<and> v c = Inr ()) \<and> (\<exists>n. r = fail n)"
proof (cases l)
  case (Inr c)
  show ?thesis
  proof (cases "f c")
    case (Inr d)
    with \<open>l = Inr c\<close> assms show ?thesis by (cases "v d") auto
  qed (use Inr assms in auto)
qed (use assms in auto)

lemma run_server_cases:
  obtains (valid) cfg where "overridden_server w config a = Inr cfg" "server_config_ok (wo_fs w) cfg"
      "run_server w config a ov =
         (if so_check a then exits ExitSuccess (print_server_config_summary config cfg) []
          else start_server w ov (so_grace_secs a) cfg)"
    | (invalid) n where "\<nexists>cfg. overridden_server w config a = Inr cfg \<and> server_config_ok (wo_fs w) cfg"
      "run_server w config a ov = exits ExitFailure [] [n]"
  using checked_pipeline [where fail = "\<lambda>n. exits ExitFailure [] [n]" and A = "LoadFailed config" and
      B = BadOverride and C = InvalidAfterOverrides and
      go = "\<lambda>cfg. if so_check a then exits ExitSuccess (print_server_config_summary config cfg) []
        else start_server w ov (so_grace_secs a) cfg", OF run_server_def [of w config a ov]]
  unfolding validate_server_ok [symmetric] overridden_server_def [symmetric] by blast

lemma run_client_cases:
  obtains (valid) cfg where "overridden_client w config a = Inr cfg" "client_config_ok (wo_fs w) cfg"
      "run_client w config a ov =
         (if co_check a then exits ExitSuccess (print_client_config_summary config cfg) []
          else start_client w ov cfg)"
    | (invalid) n where "\<nexists>cfg. overridden_client w config a = Inr cfg \<and> client_config_ok (wo_fs w) cfg"
      "run_client w config a ov = exits ExitFailure [] [n]"
  using checked_pipeline [where fail = "\<lambda>n. exits ExitFailure [] [n]" and A = "LoadFailed config" and
      B = BadOverride and C = InvalidAfterOverrides and
      go = "\<lambda>cfg. if co_check a then exits ExitSuccess (print_client_config_summary config cfg) []
        else start_client w ov cfg", OF run_client_def [of w config a ov]]
  unfolding validate_client_ok [symmetric] overridden_client_def [symmetric] by blast

lemma client_new_config: "client_new env cfg = Inr cl \<Longrightarrow> ce_config cl = cfg"
  by (auto simp: client_new_def rbind_Inr_iff Let_def)

lemma start_client_simps:
  "cr_client (start_client w ov cfg) = Some cl \<Longrightarrow> ce_config cl = cfg"
  by (auto simp: start_client_def Let_def client_new_config split: sum.splits)

text \<open>
  The file is validated on its own before the command line is looked at, so an option cannot supply
  what the file lacks; the grace period given on the command line is not checked against the limit
  of the file's.
\<close>

lemma token_needed_in_file:
  assumes "fs_read (wo_fs w) config = Inr text" "wo_server_toml w text = Inr cfg" "sv_token (sc_server cfg) = []"
  shows "\<exists>e. run_server w config a ov = exits ExitFailure [] [LoadFailed config e]"
proof -
  have "load_server_config (wo_fs w) (wo_server_toml w) config \<noteq> Inr c" for c
    using assms load_server_config_ok [of "wo_fs w" "wo_server_toml w" config c]
    by (auto simp: load_server_config_def read_config_def Let_def rbind_Inr_iff server_config_ok_def)
  then show ?thesis
    by (cases "load_server_config (wo_fs w) (wo_server_toml w) config") (auto simp: run_server_def)
qed

lemma grace_override_unchecked:
  "cr_server (start_server w ov (Some g) cfg) = Some srv \<Longrightarrow> sr_grace srv = from_secs (unat g)"
  by (auto simp: start_server_def with_grace_def Let_def split: sum.splits)

section \<open>Secrets\<close>

text \<open>
  Neither the summary of \<open>--check\<close> nor the startup log tells more of a token than its number of
  characters, or anything of the dashboard's password.
\<close>

lemma server_secrets_hidden:
  fixes cfg pw pw'
  assumes "char_count t = char_count t'"
  defines "c \<equiv> cfg\<lparr>sc_server := (sc_server cfg)\<lparr>sv_token := t\<rparr>,
      sc_dashboard := map_option (da_password_update (\<lambda>_. pw)) (sc_dashboard cfg)\<rparr>"
    and "c' \<equiv> cfg\<lparr>sc_server := (sc_server cfg)\<lparr>sv_token := t'\<rparr>,
      sc_dashboard := map_option (da_password_update (\<lambda>_. pw')) (sc_dashboard cfg)\<rparr>"
  shows "print_server_config_summary path c = print_server_config_summary path c' \<and>
    log_server_summary c = log_server_summary c'"
  using assms(1) unfolding c_def c'_def
  by (cases "sc_dashboard cfg")
    (simp_all add: print_server_config_summary_def log_server_summary_def Let_def describe_secret_def
      grace_def udp_session_timeout_def)

lemma client_secrets_hidden:
  fixes cfg
  assumes "char_count t = char_count t'"
  defines "c \<equiv> cfg\<lparr>cc_client := (cc_client cfg)\<lparr>cl_token := t\<rparr>\<rparr>"
    and "c' \<equiv> cfg\<lparr>cc_client := (cc_client cfg)\<lparr>cl_token := t'\<rparr>\<rparr>"
  shows "print_client_config_summary path c = print_client_config_summary path c' \<and>
    log_client_summary c = log_client_summary c'"
  using assms(1) unfolding c_def c'_def
  by (simp add: print_client_config_summary_def log_client_summary_def Let_def describe_secret_def)

section \<open>The answer of the endpoint\<close>

definition CR :: char where "CR = CHR 0x0D"

lemma split_once_line:
  assumes "CR \<notin> set l" "d \<noteq> CR"
  shows "split_once (CRLF @ CRLF) (l @ CRLF @ d # r) =
    map_option (apfst (\<lambda>a. l @ CRLF @ a)) (split_once (CRLF @ CRLF) (d # r))"
  using assms(1)
proof (induction l)
  case Nil
  with assms(2) show ?case
    by (cases "split_once (CRLF @ CRLF) (d # r)") (auto simp: CRLF_def CR_def has_prefix_def)
next
  case (Cons c l)
  then show ?case
    by (cases "split_once (CRLF @ CRLF) (d # r)") (auto simp: CRLF_def CR_def has_prefix_def)
qed

lemma split_once_last: "CR \<notin> set l \<Longrightarrow> split_once (CRLF @ CRLF) (l @ CRLF @ CRLF @ b) = Some (l, b)"
  by (induction l) (auto simp: CRLF_def CR_def has_prefix_def)

definition ascii :: "string \<Rightarrow> bool" where
  "ascii s = list_all (byte_in 0 127) s"

lemma utf8_ascii_append: "ascii a \<Longrightarrow> utf8_valid (a @ b) = utf8_valid b"
  by (induction a) (auto simp: ascii_def)

lemma ascii_show_nat: "ascii (show_nat n)"
  using show_nat_digits [of n] by (auto simp: ascii_def list_all_iff is_digit_def byte_in_def Let_def)

lemma ascii_append [simp]: "ascii (a @ b) = (ascii a \<and> ascii b)"
  by (simp add: ascii_def)

lemma CR_not_digit: "CR \<notin> set (show_nat n)"
  using show_nat_digits [of n] by (auto simp: list_all_iff is_digit_def CR_def)

lemma first_line_CRLF:
  assumes "CR \<notin> set l" "CHR 0x0A \<notin> set l"
  shows "first_line (l @ CRLF @ r) = l"
proof -
  have "split_once LF (l @ CRLF @ r) = Some (l @ [CHR 0x0D], r)"
    using assms(2) by (induction l) (auto simp: LF_def CRLF_def has_prefix_def)
  then show ?thesis by (simp add: first_line_def)
qed

lemma read_written:
  assumes "utf8_valid body" "ascii ct" "CR \<notin> set ct"
    and l: "l = ''HTTP/1.1 '' @ show_nat status @ '' '' @ status_reason status"
      "ascii l" "CR \<notin> set l" "CHR 0x0A \<notin> set l"
  shows "read_status_response (write_response status ct body None) =
    (if contains_str '' 200 '' l then Inr body else Inl (UnexpectedResponse l))"
proof -
  let ?c = "''ontent-Type: '' @ ct"
  let ?n = "''ontent-Length: '' @ show_nat (length body)"
  let ?h = "l @ CRLF @ CHR ''C'' # ?c @ CRLF @ CHR ''C'' # ?n @ CRLF @ CHR ''C'' # ''onnection: close''"
  have w: "write_response status ct body None =
      l @ CRLF @ CHR ''C'' # ?c @ CRLF @ CHR ''C'' # ?n @ CRLF @ CHR ''C'' # ''onnection: close'' @ CRLF @ CRLF @ body"
    by (simp add: write_response_def l(1))
  have a: "ascii (?h @ CRLF @ CRLF)"
    using assms(2) l(2) ascii_show_nat by (simp add: CRLF_def) (simp add: ascii_def byte_in_def)
  have "utf8_valid ((?h @ CRLF @ CRLF) @ body)"
    unfolding utf8_ascii_append [OF a] by (rule assms(1))
  then have u: "from_utf8_lossy (write_response status ct body None) = write_response status ct body None"
    unfolding w by (intro lossy_valid) simp
  have c: "CR \<notin> set ''onnection: close''" "CR \<notin> set ?c" "CR \<notin> set ?n" "CHR ''C'' \<noteq> CR"
    using assms(3) CR_not_digit by (simp_all add: CR_def)
  have "split_once (CRLF @ CRLF) (write_response status ct body None) = Some (?h, body)"
    unfolding w split_once_line [OF l(3) c(4)]
    using split_once_line [of "CHR ''C'' # ?c" "CHR ''C''"] split_once_line [of "CHR ''C'' # ?n" "CHR ''C''"]
      split_once_last [of "CHR ''C'' # ''onnection: close''" body] c
    by simp
  with u first_line_CRLF [OF l(3,4)] show ?thesis
    by (simp add: read_status_response_def)
qed

lemma rq_path_headers: "rq_path (foldl apply_header out hs) = rq_path out"
proof (induction hs arbitrary: out)
  case (Cons h hs)
  have "rq_path (apply_header out h) = rq_path out" by (simp add: apply_header_def Let_def)
  with Cons show ?case by simp
qed simp

lemma status_request_head:
  "read_request_head (from_secs HTTP_HEAD_TIMEOUT) [] [(0, Got (status_request addr))] =
     (Inr (Some (status_request addr)), from_secs HTTP_HEAD_TIMEOUT)"
proof -
  have "contains_str (CRLF @ CRLF) (status_request addr)"
    unfolding contains_str_iff status_request_def by (metis append.assoc append_Nil2)
  moreover have "status_request addr \<noteq> []" by (simp add: status_request_def)
  ultimately show ?thesis
    by (simp add: from_secs_def HTTP_HEAD_TIMEOUT_def)
qed

section \<open>Properties\<close>

text \<open>
  C32 --- The server is started only with a configuration that satisfies the whole contract of the
  configuration file after the command line has overridden it, and with the token given there;
  otherwise the process fails with one message and nothing is started. \<open>--check\<close> starts nothing, not
  even the log, and succeeds exactly for the configurations the server would be started with.
\<close>

theorem server_command_checked:
  fixes w
  assumes "cli_command c = ServerCommand a" and "so_config a = Some config"
  defines "r \<equiv> rfrp_main w c"
    and "valid \<equiv> \<lambda>cfg. overridden_server w config a = Inr cfg \<and> server_config_ok (wo_fs w) cfg"
  shows "(\<forall>srv. cr_server r = Some srv \<longrightarrow>
      valid (sr_config srv) \<and> \<not> so_check a \<and>
      (\<forall>t. so_token a = Some t \<longrightarrow> sv_token (sc_server (sr_config srv)) = t)) \<and>
    ((\<nexists>cfg. valid cfg) \<longrightarrow> (\<exists>n. r = exits ExitFailure [] [n])) \<and>
    (so_check a \<longrightarrow> cr_server r = None \<and> cr_log r = None \<and> cr_keepalive r = None \<and>
      (cr_exit r = Some ExitSuccess \<longleftrightarrow> (\<exists>cfg. valid cfg)))"
proof -
  have r: "r = run_server w config a (cli_log c)"
    using assms(1,2) by (simp add: r_def rfrp_main_def)
  have t: "overridden_server w config a = Inr cfg \<Longrightarrow> so_token a = Some t \<Longrightarrow> sv_token (sc_server cfg) = t" for cfg t
    by (auto simp: overridden_server_def server_overrides_def rbind_Inr_iff Let_def split: option.splits)
  show ?thesis
  proof (cases rule: run_server_cases [of w config a "cli_log c"])
    case (valid cfg)
    with t r show ?thesis by (auto simp: valid_def start_server_simps)
  next
    case (invalid n)
    with r show ?thesis by (auto simp: valid_def)
  qed
qed

definition demo_world :: world where
  "demo_world =
     \<lparr>wo_fs = demo_fs, wo_server_toml = (\<lambda>_. Inr demo_tls_config), wo_client_toml = (\<lambda>_. Inl ''no''),
      wo_lower = to_ascii_lowercase,
      wo_log = \<lparr>ve_filter_ok = (\<lambda>_. True), ve_open = (\<lambda>_. Inr ()), ve_platform = Unix, ve_terminal = True,
                ve_no_color = False\<rparr>,
      wo_tls = demo_tls, wo_bind = demo_bind, wo_now = 5, wo_server_events = [ShutdownSignal], wo_waits = [],
      wo_json = demo_json, wo_display = describe_io_error,
      wo_uuid = \<lparr>uu_parses = (\<lambda>_. True), uu_fresh = ''u''\<rparr>,
      wo_run_id = \<lparr>ri_read = Inr ''u'', ri_create = Inr ()\<rparr>, wo_attempts = [],
      wo_process = \<lparr>pc_metrics = client_metrics_new 0, pc_now = 0, pc_shutdown = False\<rparr>,
      wo_status = (\<lambda>_. \<lparr>hg_connect = Inr (), hg_write = Inr (), hg_read = Inr []\<rparr>),
      wo_completions = (\<lambda>_. [])\<rparr>"

definition demo_server_opts :: server_opts where
  "demo_server_opts =
     \<lparr>so_config = Some ''s.toml'', so_bind = None, so_token = Some ''other'', so_tls_enable = None,
      so_work_conn_tls = None, so_grace_secs = None, so_check = True\<rparr>"

definition demo_cli :: cli where
  "demo_cli =
     \<lparr>cli_command = ServerCommand demo_server_opts,
      cli_log = \<lparr>ov_level = None, ov_output = None, ov_format = None\<rparr>\<rparr>"

theorem server_command_checked_witness:
  "cr_exit (rfrp_main demo_world demo_cli) = Some ExitSuccess \<and> cr_server (rfrp_main demo_world demo_cli) = None"
proof -
  let ?cfg = "demo_tls_config\<lparr>sc_server := (sc_server demo_tls_config)\<lparr>sv_token := ''other''\<rparr>\<rparr>"
  have ok: "server_config_ok demo_fs demo_tls_config" "server_config_ok demo_fs ?cfg"
    by (simp_all add: server_config_ok_def demo_tls_config_def demo_open_config_def server_section_default_def
        demo_fs_def files_given_def proxy_section_default_def parse_allow_ports_def Let_def trim_no_ws)
  have res: "resolve_opt_path demo_fs v b = v" for v b
    by (cases v) (simp_all add: resolve_opt_path_def demo_fs_def)
  have "load_server_config demo_fs (\<lambda>_. Inr demo_tls_config) ''s.toml'' = Inr demo_tls_config"
    using ok(1) [unfolded validate_server_ok [symmetric]]
    by (simp add: load_server_config_def read_config_def demo_fs_def [THEN arg_cong [where f = fs_read]] res Let_def)
  then have "overridden_server demo_world ''s.toml'' demo_server_opts = Inr ?cfg"
    by (simp add: overridden_server_def demo_world_def server_overrides_def demo_server_opts_def Let_def)
  moreover have "wo_fs demo_world = demo_fs" by (simp add: demo_world_def)
  ultimately show ?thesis
    using server_command_checked [of demo_cli demo_server_opts "''s.toml''" demo_world] ok(2)
    by (auto simp: demo_cli_def demo_server_opts_def)
qed

text \<open>
  C40 --- \<open>rfrp client status\<close> shows what the client's status endpoint answers. For any configuration and
  counters and any address, the endpoint answers the command's request; when the request limit of the
  address allows it, the command prints exactly the status as JSON, ended by a line feed, and
  succeeds; when it does not, the command fails and names the 429 it got.
\<close>

theorem status_command_shows_endpoint:
  fixes env cfg m now ip
  assumes "\<exists>req. sn_httparse env 32 (status_request addr) = Some req \<and> pr_path req = Some ''/api/status''"
    and "utf8_valid (sn_json_pretty env (client_status_json now cfg m))"
    and "load_client_config (wo_fs w) (wo_client_toml w) (wo_lower w) config = Inr c0"
  defines "json \<equiv> sn_json_pretty env (client_status_json now cfg m)"
  shows "\<exists>answer.
    fst (handle_status_request env cfg m now ip [(0, Got (status_request addr))] limiter) = Replied answer \<and>
    (wo_status w addr = \<lparr>hg_connect = Inr (), hg_write = Inr (), hg_read = Inr answer\<rparr> \<longrightarrow>
     run_status w config (Some addr) =
       (if fst (allow ip now limiter)
        then exits ExitSuccess (if json \<noteq> [] \<and> last json = CHR 0x0A then json else json @ LF) []
        else exits ExitFailure [] [StatusFailed addr (UnexpectedResponse ''HTTP/1.1 429 Too Many Requests'')]))"
proof -
  obtain ok l' where al: "allow ip now limiter = (ok, l')" by fastforce
  define ans where "ans = (if ok then write_response 200 ''application/json'' json None
      else write_response 429 ''text/plain'' (''Too Many Requests'' @ LF) None)"
  from assms(1) have path: "rq_path (parse_request_head (sn_httparse env) (status_request addr)) = ''/api/status''"
    by (auto simp: parse_request_head_def Let_def rq_path_headers request_head_default_def split: option.split)
  have a: "fst (handle_status_request env cfg m now ip [(0, Got (status_request addr))] limiter) = Replied ans"
    by (simp add: handle_status_request_def with_head_def Let_def status_request_head al path
        client_route_def json_def ans_def del: read_request_head.simps)
  have n: "show_nat 200 = ''200''" "show_nat 429 = ''429''" by code_simp+
  have "read_status_response (write_response 200 ''application/json'' json None) = Inr json"
    using read_written [of json "''application/json''" "''HTTP/1.1 200 OK''" 200] assms(2)
    by (simp add: json_def status_reason_def n ascii_def byte_in_def CR_def has_prefix_def)
  moreover have "read_status_response (write_response 429 ''text/plain'' (''Too Many Requests'' @ LF) None) =
      Inl (UnexpectedResponse ''HTTP/1.1 429 Too Many Requests'')"
    using read_written [of "''Too Many Requests'' @ LF" "''text/plain''" "''HTTP/1.1 429 Too Many Requests''" 429]
    by (simp add: status_reason_def n ascii_def byte_in_def CR_def has_prefix_def LF_def)
  ultimately have "wo_status w addr = \<lparr>hg_connect = Inr (), hg_write = Inr (), hg_read = Inr ans\<rparr> \<longrightarrow>
      run_status w config (Some addr) =
       (if ok then exits ExitSuccess (if json \<noteq> [] \<and> last json = CHR 0x0A then json else json @ LF) []
        else exits ExitFailure [] [StatusFailed addr (UnexpectedResponse ''HTTP/1.1 429 Too Many Requests'')])"
    using assms(3) by (simp add: run_status_def or_else_def fetch_status_def map_err_def ans_def)
  with a al show ?thesis by auto
qed

definition demo_status_env :: status_env where
  "demo_status_env =
     \<lparr>sn_httparse = (\<lambda>_ _. Some \<lparr>pr_method = Some ''GET'', pr_path = Some ''/api/status'', pr_headers = []\<rparr>),
      sn_json_pretty = (\<lambda>_. ''{}'')\<rparr>"

definition demo_answer :: string where
  \<comment> \<open>of an endpoint that has seen no request yet\<close>
  "demo_answer =
     (case fst (handle_status_request demo_status_env demo_config (client_metrics_new 0) 3 (V4 [127, 0, 0, 1])
        [(0, Got (status_request ''127.0.0.1:7400''))] (rate_limiter_new 100 (from_secs 60))) of
        Replied b \<Rightarrow> b | _ \<Rightarrow> [])"

definition demo_client_world :: world where
  "demo_client_world =
     demo_world\<lparr>wo_client_toml := \<lambda>_. Inr demo_config,
       wo_status := \<lambda>_. \<lparr>hg_connect = Inr (), hg_write = Inr (), hg_read = Inr demo_answer\<rparr>\<rparr>"

lemma demo_client_config:
  "load_client_config demo_fs (\<lambda>_. Inr demo_config) to_ascii_lowercase ''c.toml'' = Inr demo_config"
  by code_simp

theorem status_command_shows_endpoint_witness:
  "run_status demo_client_world ''c.toml'' (Some ''127.0.0.1:7400'') = exits ExitSuccess (''{}'' @ LF) []"
proof -
  let ?l = "rate_limiter_new 100 (from_secs 60)"
  have h: "\<exists>req. sn_httparse demo_status_env 32 (status_request ''127.0.0.1:7400'') = Some req \<and>
      pr_path req = Some ''/api/status''"
    "utf8_valid (sn_json_pretty demo_status_env (client_status_json 3 demo_config (client_metrics_new 0)))"
    "load_client_config (wo_fs demo_client_world) (wo_client_toml demo_client_world) (wo_lower demo_client_world)
       ''c.toml'' = Inr demo_config"
    using demo_client_config by (simp_all add: demo_status_env_def demo_client_world_def demo_world_def byte_in_def)
  from status_command_shows_endpoint [OF h, of "V4 [127, 0, 0, 1]" ?l] obtain answer where
    "fst (handle_status_request demo_status_env demo_config (client_metrics_new 0) 3 (V4 [127, 0, 0, 1])
        [(0, Got (status_request ''127.0.0.1:7400''))] ?l) = Replied answer"
    and r: "wo_status demo_client_world ''127.0.0.1:7400'' =
        \<lparr>hg_connect = Inr (), hg_write = Inr (), hg_read = Inr answer\<rparr> \<longrightarrow>
      run_status demo_client_world ''c.toml'' (Some ''127.0.0.1:7400'') =
        (if fst (allow (V4 [127, 0, 0, 1]) 3 ?l)
         then exits ExitSuccess (if ''{}'' \<noteq> [] \<and> last ''{}'' = CHR 0x0A then ''{}'' else ''{}'' @ LF) []
         else exits ExitFailure []
           [StatusFailed ''127.0.0.1:7400'' (UnexpectedResponse ''HTTP/1.1 429 Too Many Requests'')])"
    by (auto simp: demo_status_env_def)
  then have "demo_answer = answer" by (simp add: demo_answer_def)
  with r show ?thesis
    by (simp add: demo_client_world_def allow_def rate_limiter_new_def Let_def)
qed

end
