(* ===== verification/System.thy ===== *)
theory System
  imports Vhost Work
begin

text \<open>
  The server as one transition system: a step is what one task does between two of its awaits, on
  the state all tasks share. Registrations are the one operation whose tables are read before an
  await and written after it, so the registrations that wait for their listener are part of the
  system's state.
\<close>

record sys =
  sy_state :: server_state
  sy_registering :: "(nat \<times> new_proxy \<times> string list) list"

definition user_handles :: "server_state \<Rightarrow> nat list" where
  \<comment> \<open>the user connections the server holds: the waiting ones and the bridged ones\<close>
  "user_handles st =
     map (\<lambda>p. uc_handle (the (pw_user p))) (hm_values (st_pending st)) @
     map (\<lambda>b. uc_handle (fst b)) (st_bridges st)"

definition bridged_works :: "server_state \<Rightarrow> nat list" where
  "bridged_works st = map (\<lambda>b. fst (snd b)) (st_bridges st)"

definition work_fresh :: "server_state \<Rightarrow> nat \<Rightarrow> bool" where
  "work_fresh st w \<longleftrightarrow> w \<notin> set (bridged_works st) \<and> (\<forall>a n. w \<notin> set (pool_of a n st))"

definition upd_udp :: "nat \<Rightarrow> udp_proxy \<Rightarrow> metrics \<Rightarrow> server_state \<Rightarrow> server_state" where
  "upd_udp u p m st = st\<lparr>st_udp_heap := (st_udp_heap st)(u := p), st_metrics := m\<rparr>"

definition writer_takes :: "nat \<Rightarrow> nat \<Rightarrow> server_state \<Rightarrow> server_state" where
  "writer_takes a n st = upd_session a (\<lambda>s. s\<lparr>se_tx := snd (recv_many n (se_tx s))\<rparr>) st"

definition writer_ends :: "nat \<Rightarrow> server_state \<Rightarrow> server_state" where
  "writer_ends a st = upd_session a (\<lambda>s. s\<lparr>se_tx := close_chan (se_tx s)\<rparr>) st"

definition bridge_io ::
  "(counting_stream \<Rightarrow> shared \<Rightarrow> counting_stream \<times> shared) \<Rightarrow> nat \<Rightarrow> server_state \<Rightarrow> server_state" where
  \<comment> \<open>a read or a write of the user's end of the bridge at this position\<close>
  "bridge_io f i st =
     (let (u, w, replay) = st_bridges st ! i;
          (cs, sh) = f (uc_count u) (mt_shared (st_metrics st))
      in on_shared (\<lambda>_. sh) (st\<lparr>st_bridges := (st_bridges st)[i := (u\<lparr>uc_count := cs\<rparr>, w, replay)]\<rparr>))"

section \<open>The steps\<close>

text \<open>
  Connections come with a handle of their own, which no connection the server still holds has: the
  operating system gives a socket to one connection at a time. The work id counter is 64 bits wide;
  a step takes a new id only while it has not wrapped.
\<close>

inductive state_step ::
  "json \<Rightarrow> (string \<Rightarrow> string) \<Rightarrow> server_config \<Rightarrow> server_state \<Rightarrow> server_state \<Rightarrow> bool"
  for j lower config where
  User: "h \<notin> set (user_handles st) \<Longrightarrow> st_work_id st \<noteq> - 1 \<Longrightarrow>
     dispatch_user_connection probe name h a now st = (d, st') \<Longrightarrow> state_step j lower config st st'"
| HttpUser: "h \<notin> set (user_handles st) \<Longrightarrow> st_work_id st \<noteq> - 1 \<Longrightarrow>
     handle_http_connection lower probe hp h now reads st = (r, st') \<Longrightarrow> state_step j lower config st st'"
| HttpsUser: "h \<notin> set (user_handles st) \<Longrightarrow> st_work_id st \<noteq> - 1 \<Longrightarrow>
     handle_https_connection lower probe hp sni h now reads st = (r, st') \<Longrightarrow>
     state_step j lower config st st'"
| GiveUp: "state_step j lower config st (drop_pending_work now wk st)"
| Sweep: "state_step j lower config st (snd (sweep_expired_pending now timeout st))"
| WorkConn: "work_fresh st w \<Longrightarrow> handle_work_connection j f w now evs st = (res, st') \<Longrightarrow>
     state_step j lower config st st'"
| BridgeRead: "i < length (st_bridges st) \<Longrightarrow> state_step j lower config st (bridge_io (poll_read now n) i st)"
| BridgeWrite: "i < length (st_bridges st) \<Longrightarrow> state_step j lower config st (bridge_io (poll_write now n) i st)"
| BridgeEnds: "state_step j lower config st (end_bridge i now st)"
| LoginChecked: "login_check j uuid_ok config f ip now st = (v, st') \<Longrightarrow> state_step j lower config st st'"
| LoggedIn: "login_commit run_id session_id token ip now st = (a, st') \<Longrightarrow> state_step j lower config st st'"
| Sends: "send_to a (send_with_timeout taken msg) st = (ok, st') \<Longrightarrow> state_step j lower config st st'"
| TrySends: "send_to a (try_send msg) st = (ok, st') \<Longrightarrow> state_step j lower config st st'"
| WriterTakes: "state_step j lower config st (writer_takes a n st)"
| WriterEnds: "state_step j lower config st (writer_ends a st)"
| ControlMessage: "(\<forall>np. msg \<noteq> NewProxy np) \<Longrightarrow>
     handle_message lower config env msg a ts st = (go, ts', st') \<Longrightarrow> state_step j lower config st st'"
| Unregisters: "state_step j lower config st (unregister_session a st)"
| CleansUp: "state_step j lower config st (cleanup a now st)"
| UdpDatagram: "st_work_id st \<noteq> - 1 \<Longrightarrow>
     handle_datagram peer data now (st_udp_heap st u, st_metrics st, st_work_id st) = ((p, m, wk), r) \<Longrightarrow>
     state_step j lower config st (upd_udp u p m (st\<lparr>st_work_id := wk\<rparr>))"
| UdpSweep: "state_step j lower config st (upd_udp u (sweep now (st_udp_heap st u)) (st_metrics st) st)"
| UdpPaired: "remove_pending wk (st_udp_heap st u) = (Some pd, p) \<Longrightarrow>
     state_step j lower config st
       (upd_udp u (register_session (pu_client pd) (pu_chan pd) now p) (st_metrics st) st)"
| UdpTurn: "conn_turn client c now ev (st_udp_heap st u, st_metrics st) = ((p, m), up, down, go) \<Longrightarrow>
     state_step j lower config st (upd_udp u p m st)"
| UdpEnds: "state_step j lower config st (upd_udp u (conn_end client c (st_udp_heap st u)) (st_metrics st) st)"
| Accepts: "state_step j lower config st (on_metrics inc_accepted st)"
| AcceptFails: "state_step j lower config st (on_metrics inc_accept_error st)"

inductive sys_step :: "json \<Rightarrow> (string \<Rightarrow> string) \<Rightarrow> server_config \<Rightarrow> sys \<Rightarrow> sys \<Rightarrow> bool"
  for j lower config where
  Task: "state_step j lower config (sy_state s) st' \<Longrightarrow> sys_step j lower config s (s\<lparr>sy_state := st'\<rparr>)"
| RegistrationStarts: "a \<notin> fst ` set (sy_registering s) \<Longrightarrow> new_proxy_invalid np = None \<Longrightarrow>
     register_check lower np a (sy_state s) = Inr domains \<Longrightarrow>
     sys_step j lower config s (s\<lparr>sy_registering := (a, np, domains) # sy_registering s\<rparr>)"
| RegistrationFails: "(a, np, domains) \<in> set (sy_registering s) \<Longrightarrow>
     register_open np a config bind (sy_state s) = Inl e \<Longrightarrow>
     sys_step j lower config s (s\<lparr>sy_registering := remove1 (a, np, domains) (sy_registering s)\<rparr>)"
| RegistrationEnds: "(a, np, domains) \<in> set (sy_registering s) \<Longrightarrow>
     register_open np a config bind (sy_state s) = Inr (handle, st') \<Longrightarrow>
     sys_step j lower config s
       (s\<lparr>sy_state := register_commit np a domains handle st',
          sy_registering := remove1 (a, np, domains) (sy_registering s)\<rparr>)"

definition sys_start :: "instant \<Rightarrow> sys" where
  "sys_start now = \<lparr>sy_state = server_state_new now, sy_registering = []\<rparr>"

section \<open>The invariant\<close>

definition users_ok :: "server_state \<Rightarrow> bool" where
  \<comment> \<open>every connection is held once, and all of them are counted\<close>
  "users_ok st \<longleftrightarrow>
     hm_wf (st_pending st) \<and>
     (\<forall>(wk, p) \<in> set (st_pending st). pw_user p \<noteq> None \<and> wk \<le> st_work_id st) \<and>
     active_connections (st_metrics st) = int (hm_len (st_pending st) + length (st_bridges st)) \<and>
     active_connections (st_metrics st) \<le> st_max_active st \<and>
     distinct (user_handles st)"

definition works_ok :: "server_state \<Rightarrow> bool" where
  \<comment> \<open>no work connection is in two places\<close>
  "works_ok st \<longleftrightarrow>
     distinct (bridged_works st) \<and>
     (\<forall>a n. distinct (pool_of a n st) \<and> set (pool_of a n st) \<inter> set (bridged_works st) = {}) \<and>
     (\<forall>a n b m. (a, n) \<noteq> (b, m) \<longrightarrow> set (pool_of a n st) \<inter> set (pool_of b m st) = {})"

definition session_ok :: "session \<Rightarrow> bool" where
  "session_ok s \<longleftrightarrow>
     hm_wf (se_proxies s) \<and> hm_len (se_proxies s) \<le> MAX_PROXIES_PER_SESSION \<and>
     (\<forall>n v. hm_get (se_pools s) n = Some v \<longrightarrow> length v \<le> MAX_POOLED_WORK_CONNS_PER_PROXY) \<and>
     ch_cap (se_tx s) = CONTROL_QUEUE_DEPTH \<and> length (ch_queue (se_tx s)) \<le> CONTROL_QUEUE_DEPTH"

definition registering_ok :: "sys \<Rightarrow> bool" where
  "registering_ok s \<longleftrightarrow>
     distinct (map fst (sy_registering s)) \<and>
     (\<forall>a \<in> fst ` set (sy_registering s).
        hm_len (se_proxies (st_heap (sy_state s) a)) < MAX_PROXIES_PER_SESSION)"

definition state_inv :: "server_state \<Rightarrow> bool" where
  "state_inv st \<longleftrightarrow> users_ok st \<and> works_ok st \<and> (\<forall>a. session_ok (st_heap st a))"

definition sys_inv :: "sys \<Rightarrow> bool" where
  "sys_inv s \<longleftrightarrow> state_inv (sy_state s) \<and> registering_ok s"

section \<open>The switchboard\<close>

text \<open>
  The abstract specification: a switchboard with users who wait and users who talk, each to one work
  connection. A new user waits or talks at once, a waiting user is put through to a work connection
  nobody talks to, waiting users may be sent away, and a talk may end.
\<close>

record board =
  bd_waiting :: "nat set"
  bd_talking :: "(nat \<times> nat) set"

inductive switch :: "board \<Rightarrow> board \<Rightarrow> bool" where
  Arrive: "u \<notin> bd_waiting b \<Longrightarrow> u \<notin> fst ` bd_talking b \<Longrightarrow>
     switch b (b\<lparr>bd_waiting := insert u (bd_waiting b)\<rparr>)"
| ArriveTalking: "u \<notin> bd_waiting b \<Longrightarrow> u \<notin> fst ` bd_talking b \<Longrightarrow> w \<notin> snd ` bd_talking b \<Longrightarrow>
     switch b (b\<lparr>bd_talking := insert (u, w) (bd_talking b)\<rparr>)"
| Connect: "u \<in> bd_waiting b \<Longrightarrow> w \<notin> snd ` bd_talking b \<Longrightarrow>
     switch b (b\<lparr>bd_waiting := bd_waiting b - {u}, bd_talking := insert (u, w) (bd_talking b)\<rparr>)"
| SendAway: "W \<subseteq> bd_waiting b \<Longrightarrow> switch b (b\<lparr>bd_waiting := W\<rparr>)"
| HangUp: "switch b (b\<lparr>bd_talking := bd_talking b - {(u, w)}\<rparr>)"

definition waiting_handles :: "server_state \<Rightarrow> nat list" where
  "waiting_handles st = map (\<lambda>p. uc_handle (the (pw_user p))) (hm_values (st_pending st))"

definition board_of :: "server_state \<Rightarrow> board" where
  \<comment> \<open>the abstraction\<close>
  "board_of st =
     \<lparr>bd_waiting = set (waiting_handles st),
      bd_talking = set (map (\<lambda>(u, w, _). (uc_handle u, w)) (st_bridges st))\<rparr>"

lemma user_handles_eq: "user_handles st = waiting_handles st @ map (\<lambda>b. uc_handle (fst b)) (st_bridges st)"
  by (simp add: user_handles_def waiting_handles_def)

definition users_step :: "server_state \<Rightarrow> server_state \<Rightarrow> bool" where
  \<comment> \<open>the users' side of a step: the invariant is kept and the switchboard moves or rests\<close>
  "users_step st st' \<longleftrightarrow> users_ok st' \<and> switch\<^sup>=\<^sup>= (board_of st) (board_of st')"

text \<open>What a step changes on the users' side: nothing, or some of the waiting users.\<close>

lemma users_step_same:
  assumes "users_ok st" and "st_pending st' = st_pending st" "st_bridges st' = st_bridges st"
    and "active_connections (st_metrics st') = active_connections (st_metrics st)"
    and "st_max_active st' = st_max_active st" and "st_work_id st \<le> st_work_id st'"
  shows "users_step st st'"
  using assms by (auto simp: users_step_def users_ok_def user_handles_def board_of_def waiting_handles_def)

lemma users_step_filter:
  assumes ok: "users_ok st" and p: "st_pending st' = filter P (st_pending st)"
    and b: "st_bridges st' = st_bridges st"
    and a: "active_connections (st_metrics st') =
      active_connections (st_metrics st) - int (length (filter (\<lambda>e. \<not> P e) (st_pending st)))"
    and m: "st_max_active st' = st_max_active st" and w: "st_work_id st' = st_work_id st"
  shows "users_step st st'"
proof -
  have len: "length (filter P (st_pending st)) + length (filter (\<lambda>e. \<not> P e) (st_pending st)) =
      length (st_pending st)" by (rule sum_length_filter_compl)
  have sub: "set (waiting_handles st') \<subseteq> set (waiting_handles st)"
    by (auto simp: waiting_handles_def hm_values_def p)
  have "distinct (waiting_handles st')"
    using ok by (simp add: users_ok_def user_handles_eq waiting_handles_def hm_values_def p
        distinct_map_filter comp_def)
  with ok sub have "distinct (user_handles st')"
    by (auto simp: users_ok_def user_handles_eq b)
  with ok len have "users_ok st'"
    by (auto simp: users_ok_def p b a m w hm_len_def hm_wf_def distinct_map_filter)
  moreover have "switch (board_of st) ((board_of st)\<lparr>bd_waiting := set (waiting_handles st')\<rparr>)"
    using sub by (intro SendAway) (simp add: board_of_def)
  then have "switch (board_of st) (board_of st')" by (simp add: board_of_def b)
  ultimately show ?thesis by (simp add: users_step_def)
qed

section \<open>The users' side of each step\<close>

lemma hm_remove_filter: "hm_remove k m = filter (\<lambda>e. fst e \<noteq> k) m"
  by (auto simp: hm_remove_def AList.delete_eq intro: filter_cong)

lemma hm_remove_fold_filter: "fold hm_remove ks m = filter (\<lambda>e. fst e \<notin> set ks) m"
  by (induction ks arbitrary: m) (auto simp: hm_remove_filter intro: filter_cong)

lemma hm_insert_fresh: "hm_get m k = None \<Longrightarrow> hm_insert k v m = m @ [(k, v)]"
  unfolding hm_get_def hm_insert_def by (induction m) (auto split: if_splits)

lemma flush_active: "ct_active (sh_main (snd (flush now s sh))) = ct_active (sh_main sh)"
  by (simp add: flush_def Let_def on_counters_def add_read_def add_write_def split: option.split)

lemma maybe_flush_active: "ct_active (sh_main (snd (maybe_flush now s sh))) = ct_active (sh_main sh)"
  by (simp add: maybe_flush_def Let_def flush_active)

lemma poll_active:
  "ct_active (sh_main (snd (poll_read now r s sh))) = ct_active (sh_main sh)"
  "ct_active (sh_main (snd (poll_write now r s sh))) = ct_active (sh_main sh)"
  by (simp_all add: poll_read_def poll_write_def maybe_flush_active split: option.split)

lemma udp_bytes_active:
  "active_connections (add_bytes_up n m) = active_connections m"
  "active_connections (add_bytes_down n m) = active_connections m"
  "active_connections (inc_udp_dropped m) = active_connections m"
  by (simp_all add: active_connections_def add_bytes_up_def add_bytes_down_def inc_udp_dropped_def
      add_read_def add_write_def)

lemma forward_active: "active_connections (forward_to_client ds m) = active_connections m"
  unfolding forward_to_client_def by (induction ds arbitrary: m) (simp_all add: udp_bytes_active)

lemma deliver_active: "active_connections (snd (deliver c data (p, m))) = active_connections m"
  by (simp add: deliver_def Let_def case_prod_beta udp_bytes_active)

lemma handle_datagram_active:
  assumes "handle_datagram peer data now (p, m, wid) = ((p', m', wid'), r)"
  shows "active_connections m' = active_connections m" and "wid' = wid \<or> wid' = wid + 1"
proof -
  have d: "deliver c data (q, n) = (q', n') \<Longrightarrow> active_connections n' = active_connections n" for c q n q' n'
    using deliver_active [of c data q n] by simp
  show "active_connections m' = active_connections m" "wid' = wid \<or> wid' = wid + 1"
    using assms
    by (auto simp: handle_datagram_def new_pending_def Let_def case_prod_beta udp_bytes_active
        deliver_active split: option.splits if_splits dest: d)
qed

lemma conn_turn_active:
  "conn_turn client c now ev (p, m) = ((p', m'), x) \<Longrightarrow> active_connections m' = active_connections m"
  by (auto simp: conn_turn_def Let_def case_prod_beta forward_active
      split: conn_event.splits sum.splits if_splits)

lemma conn_loop_active:
  "conn_loop client c evs pm = ((p', m'), x) \<Longrightarrow> active_connections m' = active_connections (snd pm)"
proof (induction client c evs pm arbitrary: x rule: conn_loop.induct)
  case (2 client c now ev evs pm)
  obtain p m where pm: "pm = (p, m)" by fastforce
  obtain p1 m1 up down go where t: "conn_turn client c now ev pm = ((p1, m1), up, down, go)"
    by (metis prod.exhaust)
  show ?case
  proof (cases go)
    case True
    with 2(2) t obtain y where "conn_loop client c evs (p1, m1) = ((p', m'), y)"
      by (auto simp: case_prod_beta) (metis prod.collapse)
    with 2(1) [OF t [symmetric]] True t pm conn_turn_active show ?thesis by (metis prod.sel(2))
  next
    case False
    with 2(2) t pm show ?thesis by (auto dest: conn_turn_active)
  qed
qed auto

lemma handle_udp_work_conn_active:
  assumes "handle_udp_work_conn wk now evs (p, m) = ((p', m'), x)"
  shows "active_connections m' = active_connections m"
proof -
  obtain r q where q: "remove_pending wk p = (r, q)" by fastforce
  show ?thesis
  proof (cases r)
    case (Some pd)
    obtain p1 m1 y where c: "conn_loop (pu_client pd) (pu_chan pd) evs
        (register_session (pu_client pd) (pu_chan pd) now q, m) = ((p1, m1), y)" by (metis prod.exhaust)
    from conn_loop_active [OF c] assms q Some c show ?thesis
      by (auto simp: handle_udp_work_conn_def Let_def case_prod_beta)
  qed (use assms q in \<open>simp add: handle_udp_work_conn_def\<close>)
qed

lemma length_users_of:
  assumes "list_all (\<lambda>p. pw_user p \<noteq> None) ps"
  shows "length (List.map_filter pw_user ps) = length ps"
  using assms by (induction ps) (auto simp: map_filter_simps)

lemma users_ok_users: "users_ok st \<Longrightarrow> list_all (\<lambda>p. pw_user p \<noteq> None) (hm_values (st_pending st))"
  by (auto simp: users_ok_def hm_values_def list_all_iff)

lemma users_drop_pending: "users_ok st \<Longrightarrow> users_step st (drop_pending_work now wk st)"
proof (cases "hm_get (st_pending st) wk")
  case None
  then show "users_ok st \<Longrightarrow> ?thesis"
    by (intro users_step_same) (simp_all add: drop_pending_work_def)
next
  case (Some pw)
  assume ok: "users_ok st"
  then have wf: "hm_wf (st_pending st)" by (simp add: users_ok_def)
  have "pw_user pw \<noteq> None"
    using users_ok_users [OF ok] hm_in_values [OF Some] by (simp add: list_all_iff)
  then obtain u where u: "pw_user pw = Some u" by blast
  have "hm_len (hm_remove wk (st_pending st)) = hm_len (st_pending st) - 1" "0 < hm_len (st_pending st)"
    using Some wf by (simp_all add: hm_len_remove hm_has_def) (auto simp: hm_len_def)
  then have "length (filter (\<lambda>e. fst e \<noteq> wk) (st_pending st)) + 1 = length (st_pending st)"
    unfolding hm_len_def hm_remove_filter by linarith
  then have "length (filter (\<lambda>e. \<not> fst e \<noteq> wk) (st_pending st)) = 1"
    using sum_length_filter_compl [of "\<lambda>e. fst e \<noteq> wk" "st_pending st"] by linarith
  then show ?thesis using ok
    by (intro users_step_filter [where P = "\<lambda>e. fst e \<noteq> wk"])
      (simp_all add: drop_pending_work_def Some u Let_def drop_user_eq hm_remove_filter drop_metrics_active)
qed

lemma users_sweep:
  assumes ok: "users_ok st"
  shows "users_step st (snd (sweep_expired_pending now timeout st))"
proof -
  let ?old = "\<lambda>e. timeout \<le> now - pw_created (snd e)"
  let ?ids = "expired_ids now timeout st"
  have wf: "hm_wf (st_pending st)" using ok by (simp add: users_ok_def)
  have ids: "?ids = map fst (filter ?old (st_pending st))"
    by (simp add: expired_ids_def case_prod_unfold)
  have mem: "fst e \<notin> set ?ids \<longleftrightarrow> \<not> ?old e" if "e \<in> set (st_pending st)" for e
    using that hm_in_set [OF wf, of "fst e" "snd e"] expired_ids_iff [OF wf, of "fst e" now timeout] by auto
  have rem: "fold hm_remove ?ids (st_pending st) = filter (\<lambda>e. \<not> ?old e) (st_pending st)"
    unfolding hm_remove_fold_filter by (rule filter_cong) (simp_all add: mem)
  have "List.map_filter (\<lambda>k. Option.bind (hm_get (st_pending st) k) pw_user) ?ids =
      List.map_filter pw_user (map snd (filter ?old (st_pending st)))"
    using wf unfolding ids
    by (auto simp: List.map_filter_def filter_map comp_def hm_wf_def hm_get_def intro!: map_cong filter_cong)
  then have "length (List.map_filter (\<lambda>k. Option.bind (hm_get (st_pending st) k) pw_user) ?ids) =
      length (filter ?old (st_pending st))"
    using users_ok_users [OF ok]
    by (simp add: length_users_of list_all_iff hm_values_def)
  then show ?thesis using ok
    by (intro users_step_filter [where P = "\<lambda>e. \<not> ?old e"])
      (simp_all add: sweep_eq Let_def rem fold_drop_active)
qed

lemma users_cleanup:
  assumes ok: "users_ok st"
  shows "users_step st (cleanup a now st)"
proof -
  let ?sid = "se_session_id (st_heap st a)"
  have "length (users_of ?sid st) = length (filter (\<lambda>p. pw_session_id p = ?sid) (hm_values (st_pending st)))"
    unfolding users_of_def using users_ok_users [OF ok] by (intro length_users_of) (simp add: list_all_iff)
  then have "length (users_of ?sid st) = length (filter (\<lambda>e. pw_session_id (snd e) = ?sid) (st_pending st))"
    by (simp add: hm_values_def filter_map comp_def)
  then show ?thesis using ok
    by (intro users_step_filter [where P = "\<lambda>e. pw_session_id (snd e) \<noteq> ?sid"])
      (simp_all add: cleanup_eq hm_retain_def case_prod_unfold fold_drop_active)
qed

lemma users_step_frame:
  assumes "users_step st st'" and "st_pending st0 = st_pending st" "st_bridges st0 = st_bridges st"
  shows "users_step st0 st'"
  using assms by (simp add: users_step_def board_of_def waiting_handles_def)

lemma users_login_commit:
  assumes "users_ok st" "login_commit run_id sid token ip now st = (a, st')"
  shows "users_step st st'"
proof -
  define st1 where "st1 = st\<lparr>st_heap := (st_heap st)(a := session_new run_id sid ip token),
    st_next_session := a + 1, st_sessions := hm_insert run_id a (hm_remove run_id (st_sessions st))\<rparr>"
  have a: "a = st_next_session st" using assms(2) by (simp add: login_commit_def Let_def)
  have st': "st' = (case hm_get (st_sessions st) run_id of None \<Rightarrow> st1 | Some b \<Rightarrow> cleanup b now st1)"
    using assms(2) by (simp add: login_commit_def Let_def st1_def a split: option.splits)
  have "users_ok st1" using assms(1)
    by (simp add: st1_def users_ok_def user_handles_def)
  then have "users_step st1 st'" unfolding st'
    by (auto intro: users_cleanup users_step_same split: option.split)
  then show ?thesis by (rule users_step_frame) (simp_all add: st1_def)
qed

lemma pending_id_le:
  "users_ok st \<Longrightarrow> hm_get (st_pending st) wk = Some p \<Longrightarrow> wk \<le> st_work_id st \<and> pw_user p \<noteq> None"
  by (auto simp: users_ok_def dest!: hm_in_set [THEN iffD2, rotated])

lemma users_dispatch:
  assumes ok: "users_ok st" and h: "h \<notin> set (user_handles st)" and w: "st_work_id st \<noteq> - 1"
    and works: "works_ok st"
    and d: "dispatch_user_connection probe name h a now st = (r, st')"
    and m: "st_max_active st' = st_max_active st" "st_work_id st \<le> st_work_id st'"
  shows "users_step st st'"
  using dispatch_cases [OF d]
proof (elim disjE conjE exE)
  assume "st' = st"
  with ok show ?thesis by (simp add: users_step_def)
next
  fix user w0
  assume lim: "active_connections (st_metrics st) < st_max_active st"
    "active_connections (st_metrics st') = active_connections (st_metrics st) + 1"
    and u: "uc_handle user = h" and b: "st_bridges st' = (user, w0) # st_bridges st"
    and p: "st_pending st' = st_pending st"
    and ho: "handed_over probe (pool_of a name st) w0 (pool_of a name st')"
  obtain wo rp where w0: "w0 = (wo, rp)" by fastforce
  have "users_ok st'"
    using ok h lim m(1) u order_trans [OF _ m(2)]
    by (auto simp: users_ok_def user_handles_eq waiting_handles_def b p)
  moreover have "wo \<in> set (pool_of a name st)"
    using ho w0 by (auto simp: handed_over_def)
  with works have "wo \<notin> set (bridged_works st)" by (auto simp: works_ok_def)
  then have "wo \<notin> snd ` bd_talking (board_of st)"
    by (force simp: board_of_def bridged_works_def)
  moreover have "h \<notin> bd_waiting (board_of st)" "h \<notin> fst ` bd_talking (board_of st)"
    using h by (force simp: board_of_def user_handles_eq)+
  ultimately have "switch (board_of st) ((board_of st)\<lparr>bd_talking := insert (h, wo) (bd_talking (board_of st))\<rparr>)"
    by (intro ArriveTalking)
  with \<open>users_ok st'\<close> show ?thesis by (simp add: users_step_def board_of_def waiting_handles_def p b w0 u)
next
  fix user
  assume lim: "active_connections (st_metrics st) < st_max_active st"
    "active_connections (st_metrics st') = active_connections (st_metrics st) + 1"
    and u: "uc_handle user = h" and b: "st_bridges st' = st_bridges st"
    and id: "st_work_id st' = st_work_id st + 1"
    and p: "st_pending st' = hm_insert (st_work_id st + 1)
       \<lparr>pw_proxy_name = name, pw_session_id = se_session_id (st_heap st a), pw_user = Some user,
        pw_created = now\<rparr> (st_pending st)"
  have lt: "st_work_id st < st_work_id st + 1" using w by (rule word_succ)
  then have "hm_get (st_pending st) (st_work_id st + 1) = None"
    using pending_id_le [OF ok] by (metis leD option.exhaust)
  then have p': "st_pending st' = st_pending st @ [(st_work_id st + 1,
       \<lparr>pw_proxy_name = name, pw_session_id = se_session_id (st_heap st a), pw_user = Some user,
        pw_created = now\<rparr>)]" by (simp add: p hm_insert_fresh)
  have "hm_wf (st_pending st')" using ok by (simp add: p users_ok_def)
  then have "users_ok st'"
    using ok h lim m(1) u lt order_trans [OF _ m(2)]
    by (auto simp: users_ok_def user_handles_eq waiting_handles_def b p' id hm_len_def hm_values_def)
  moreover have "h \<notin> bd_waiting (board_of st)" "h \<notin> fst ` bd_talking (board_of st)"
    using h by (force simp: board_of_def user_handles_eq)+
  then have "switch (board_of st) ((board_of st)\<lparr>bd_waiting := insert h (bd_waiting (board_of st))\<rparr>)"
    by (rule switch.Arrive)
  ultimately show ?thesis
    by (simp add: users_step_def board_of_def waiting_handles_def p' b u hm_values_def)
qed

lemma users_claim:
  assumes ok: "users_ok st" and w: "work_fresh st w"
    and c: "claim_pending a name wk w st = (r, st')"
  shows "users_step st st'"
proof (cases "st' = st")
  case True
  with ok show ?thesis by (simp add: users_step_def)
next
  case False
  with c obtain e where e: "hm_get (st_pending st) wk = Some e"
    by (auto simp: claim_pending_def split: option.splits if_splits)
  from pending_id_le [OF ok e] obtain u where u: "pw_user e = Some u" by blast
  have wf: "hm_wf (st_pending st)" using ok by (simp add: users_ok_def)
  from c False e u have st': "st' = st\<lparr>st_pending := hm_remove wk (st_pending st),
      st_bridges := (u, w, []) # st_bridges st\<rparr>"
    by (auto simp: claim_pending_def Let_def split: if_splits)
  obtain xs ys where xs: "st_pending st = xs @ (wk, e) # ys"
    using hm_in_set [OF wf, of wk e] e by (auto dest: split_list)
  with wf have "filter (\<lambda>e. fst e \<noteq> wk) xs = xs" "filter (\<lambda>e. fst e \<noteq> wk) ys = ys"
    by (auto simp: hm_wf_def filter_id_conv)
  then have rem: "hm_remove wk (st_pending st) = xs @ ys" by (simp add: hm_remove_filter xs)
  have p': "st_pending st' = xs @ ys" and b': "st_bridges st' = (u, w, []) # st_bridges st"
    and fr: "st_metrics st' = st_metrics st" "st_max_active st' = st_max_active st" "st_work_id st' = st_work_id st"
    by (simp_all add: st' rem)
  let ?h = "uc_handle u"
  have W: "waiting_handles st = map (\<lambda>p. uc_handle (the (pw_user p))) (hm_values xs) @ ?h #
      map (\<lambda>p. uc_handle (the (pw_user p))) (hm_values ys)"
    "waiting_handles st' = map (\<lambda>p. uc_handle (the (pw_user p))) (hm_values xs) @
      map (\<lambda>p. uc_handle (the (pw_user p))) (hm_values ys)"
    by (simp_all add: waiting_handles_def p' xs hm_values_def u)
  have "users_ok st'"
    using ok wf by (auto simp: users_ok_def user_handles_eq W p' b' fr xs hm_len_def hm_wf_def)
  moreover have "distinct (waiting_handles st)" using ok by (simp add: users_ok_def user_handles_eq)
  then have "set (waiting_handles st') = set (waiting_handles st) - {?h}" by (auto simp: W)
  moreover have "w \<notin> snd ` bd_talking (board_of st)"
    using w by (force simp: work_fresh_def bridged_works_def board_of_def)
  moreover have "?h \<in> bd_waiting (board_of st)" by (simp add: board_of_def W)
  ultimately have "users_ok st'" "switch (board_of st) (board_of st')"
    using Connect [of ?h "board_of st" w] by (simp_all add: board_of_def b')
  then show ?thesis by (simp add: users_step_def)
qed

lemma send_to_frame:
  assumes "send_to a f st = (ok, st')"
  shows "st' = upd_session a (\<lambda>s. s\<lparr>se_tx := snd (f (se_tx (st_heap st a)))\<rparr>) st"
  using assms send_to_eq [of a f st] by simp

lemma dispatch_frame:
  assumes "dispatch_user_connection probe name h a now st = (r, st')" and "st_work_id st \<noteq> - 1"
  shows "st_max_active st' = st_max_active st" "st_work_id st \<le> st_work_id st'"
proof -
  obtain user st1 where u: "accept_user name h now st = (user, st1)" by fastforce
  obtain w st2 where w: "pop_live_pooled probe a name st1 = (w, st2)" by fastforce
  have st2: "st_max_active st2 = st_max_active st" "st_work_id st2 = st_work_id st"
    using w accept_user_frame [OF u] by (auto simp: pop_live_pooled_eq upd_session_def split: if_splits)
  have "st_work_id st \<le> st_work_id st + 1" using word_succ [OF assms(2)] by simp
  with assms(1) u w st2 show "st_max_active st' = st_max_active st" "st_work_id st \<le> st_work_id st'"
    by (auto simp: dispatch_user_connection_def Let_def next_work_id_def send_to_def upd_session_def
        case_prod_beta split: if_splits option.splits)
qed

lemma users_work:
  assumes ok: "users_ok st" and w: "work_fresh st w"
    and h: "handle_work_connection j f w now evs st = (res, st')"
  shows "users_step st st'"
  using handle_work_connection_cases [OF h]
proof (elim disjE conjE exE)
  assume "st' = st"
  with ok show ?thesis by (simp add: users_step_def)
next
  fix s a x assume "serve_work a s w now evs st = (x, st')"
  then consider "st' = st" | u where "st' = run_udp_conn u (sw_work_id s) now evs st"
    | "st' = snd (pool_push a (sw_proxy_name s) w st)"
    | "claim_pending a (sw_proxy_name s) (sw_work_id s) w st = (x, st')"
    by (auto simp: serve_work_def Let_def case_prod_beta split: if_splits option.splits)
  then show ?thesis
  proof cases
    case 1
    with ok show ?thesis by (simp add: users_step_def)
  next
    case (2 u)
    obtain p m y where y: "handle_udp_work_conn (sw_work_id s) now evs (st_udp_heap st u, st_metrics st) = ((p, m), y)"
      by (metis prod.exhaust)
    from handle_udp_work_conn_active [OF y] y ok show ?thesis
      by (intro users_step_same) (simp_all add: 2 run_udp_conn_def case_prod_beta)
  next
    case 3
    with ok show ?thesis by (intro users_step_same) (simp_all add: pool_push_def Let_def upd_session_def)
  next
    case 4
    with ok w show ?thesis by (rule users_claim)
  qed
qed (use ok in \<open>simp add: users_step_def\<close>)

lemma users_end_bridge:
  assumes ok: "users_ok st"
  shows "users_step st (end_bridge i now st)"
proof (cases "i < length (st_bridges st)")
  case False
  with ok show ?thesis by (simp add: users_step_def end_bridge_def)
next
  case True
  obtain u w rp where b: "st_bridges st ! i = (u, w, rp)" by (metis prod.exhaust)
  define xs ys where "xs = take i (st_bridges st)" and "ys = drop (Suc i) (st_bridges st)"
  have split: "st_bridges st = xs @ (u, w, rp) # ys"
    using id_take_nth_drop [OF True] b by (simp add: xs_def ys_def)
  let ?st = "end_bridge i now st"
  have fr: "st_pending ?st = st_pending st" "st_bridges ?st = xs @ ys" "st_max_active ?st = st_max_active st"
    "st_work_id ?st = st_work_id st"
    "active_connections (st_metrics ?st) = active_connections (st_metrics st) - 1"
    using True by (simp_all add: end_bridge_def drop_user_eq drop_metrics_active xs_def ys_def)
  have "users_ok ?st"
    using ok by (auto simp: users_ok_def user_handles_eq waiting_handles_def fr split)
  moreover have "distinct (map (\<lambda>b. uc_handle (fst b)) (st_bridges st))"
    using ok by (simp add: users_ok_def user_handles_eq)
  then have "set (map (\<lambda>(u, w, _). (uc_handle u, w)) (xs @ ys)) =
      set (map (\<lambda>(u, w, _). (uc_handle u, w)) (st_bridges st)) - {(uc_handle u, w)}"
    by (force simp: split)
  then have "switch (board_of st) (board_of ?st)"
    using HangUp [of "board_of st" "uc_handle u" w] by (simp add: board_of_def fr waiting_handles_def)
  ultimately show ?thesis by (simp add: users_step_def)
qed

lemma users_bridge_io:
  assumes ok: "users_ok st" and i: "i < length (st_bridges st)"
    and f: "\<And>s sh. ct_active (sh_main (snd (f s sh))) = ct_active (sh_main sh)"
  shows "users_step st (bridge_io f i st)"
proof -
  obtain u w rp where b: "st_bridges st ! i = (u, w, rp)" by (metis prod.exhaust)
  let ?st = "bridge_io f i st"
  have fr: "st_pending ?st = st_pending st" "st_max_active ?st = st_max_active st"
    "st_work_id ?st = st_work_id st" "length (st_bridges ?st) = length (st_bridges st)"
    "active_connections (st_metrics ?st) = active_connections (st_metrics st)"
    using f [of "uc_count u" "mt_shared (st_metrics st)"]
    by (simp_all add: bridge_io_def b case_prod_beta on_shared_def on_metrics_def active_connections_def)
  have m: "map (\<lambda>b. (uc_handle (fst b), fst (snd b))) (st_bridges ?st) =
      map (\<lambda>b. (uc_handle (fst b), fst (snd b))) (st_bridges st)"
    using i by (simp add: bridge_io_def b case_prod_beta on_shared_def on_metrics_def map_update)
      (metis (no_types, lifting) b fst_conv list_update_id nth_map snd_conv)
  from arg_cong [OF m, of "map fst"]
  have "map (\<lambda>b. uc_handle (fst b)) (st_bridges ?st) = map (\<lambda>b. uc_handle (fst b)) (st_bridges st)"
    by (simp add: comp_def)
  with ok fr have "users_ok ?st" by (simp add: users_ok_def user_handles_eq waiting_handles_def)
  moreover have "board_of ?st = board_of st"
    using arg_cong [OF m, of set] by (simp add: board_of_def fr waiting_handles_def case_prod_unfold)
  ultimately show ?thesis by (simp add: users_step_def)
qed

lemma users_handle_message:
  assumes "users_ok st" "\<forall>np. msg \<noteq> NewProxy np" "handle_message lower config env msg a ts st = (go, ts', st')"
  shows "users_step st st'"
  using assms
  by (intro users_step_same)
    (auto simp: handle_message_def send_to_def upd_session_def case_prod_beta on_metrics_def
      set_rtt_ms_def active_connections_def split: message.splits)

text \<open>Together: every step of the shared state is a move of the switchboard, or none.\<close>

lemma state_step_users:
  assumes "state_step j lower config st st'" and ok: "users_ok st" and works: "works_ok st"
  shows "users_step st st'"
  using assms(1)
proof cases
  case (User h probe name a now d)
  with ok works dispatch_frame [OF User(3,2)] show ?thesis by (intro users_dispatch [OF ok _ _ works User(3)])
next
  case (HttpUser h probe hp now reads r)
  then consider "st' = st" | name a d where "dispatch_user_connection probe name h a now st = (d, st')"
    by (auto simp: handle_http_connection_def split: prod.splits sum.splits option.splits dest!: route_cases)
  then show ?thesis
  proof cases
    case 2
    with HttpUser ok works dispatch_frame [OF 2 HttpUser(2)] show ?thesis
      by (intro users_dispatch [OF ok _ _ works 2])
  qed (use ok in \<open>simp add: users_step_def\<close>)
next
  case (HttpsUser h probe hp sni now reads r)
  then consider "st' = st" | name a d where "dispatch_user_connection probe name h a now st = (d, st')"
    by (auto simp: handle_https_connection_def split: prod.splits sum.splits option.splits dest!: route_cases)
  then show ?thesis
  proof cases
    case 2
    with HttpsUser ok works dispatch_frame [OF 2 HttpsUser(2)] show ?thesis
      by (intro users_dispatch [OF ok _ _ works 2])
  qed (use ok in \<open>simp add: users_step_def\<close>)
next
  case (LoginChecked uuid_ok f ip now v)
  with login_check_eq [of j uuid_ok config f ip now st] ok show ?thesis
    by (intro users_step_same) auto
next
  case (Sends a taken msg sent)
  with ok show ?thesis by (intro users_step_same) (simp_all add: send_to_frame [OF Sends] upd_session_def)
next
  case (TrySends a msg sent)
  with ok show ?thesis by (intro users_step_same) (simp_all add: send_to_frame [OF TrySends] upd_session_def)
next
  case (UdpDatagram peer data now u p m wk r)
  note act = handle_datagram_active [OF UdpDatagram(3)]
  have "st_work_id st \<le> wk" using act(2) word_succ [OF UdpDatagram(2)] by auto
  with act(1) ok UdpDatagram(1) show ?thesis by (intro users_step_same) (simp_all add: upd_udp_def)
next
  case (UdpTurn client c now ev u p m up down go)
  with conn_turn_active [OF UdpTurn(2)] ok show ?thesis
    by (intro users_step_same) (simp_all add: upd_udp_def)
qed (use ok works in \<open>auto intro: users_drop_pending users_sweep users_work users_end_bridge users_bridge_io
      users_login_commit users_cleanup users_handle_message users_step_same
      simp: poll_active writer_takes_def writer_ends_def upd_session_def upd_udp_def on_metrics_def
        inc_accepted_def inc_accept_error_def active_connections_def unregister_session_def Let_def
      split: option.split\<close>)

section \<open>The sessions' side of each step\<close>

definition sessions_ok :: "server_state \<Rightarrow> bool" where
  "sessions_ok st \<longleftrightarrow> works_ok st \<and> (\<forall>a. session_ok (st_heap st a))"

definition sessions_step :: "server_state \<Rightarrow> server_state \<Rightarrow> bool" where
  \<comment> \<open>the invariant is kept, and no proxy is added to a session\<close>
  "sessions_step st st' \<longleftrightarrow>
     sessions_ok st' \<and>
     (\<forall>a. se_proxies (st_heap st' a) = se_proxies (st_heap st a) \<or> se_proxies (st_heap st' a) = [])"

lemma sessions_step_same:
  assumes "sessions_ok st" "st_heap st' = st_heap st" "bridged_works st' = bridged_works st"
  shows "sessions_step st st'"
  using assms by (simp add: sessions_step_def sessions_ok_def works_ok_def pool_of_def)

lemma works_ok_shrink:
  assumes ok: "works_ok st"
    and p: "\<And>a n. distinct (pool_of a n st') \<and> set (pool_of a n st') \<subseteq> set (pool_of a n st)"
    and b: "distinct (bridged_works st')" "\<And>w a n. w \<in> set (bridged_works st') \<Longrightarrow> w \<notin> set (pool_of a n st')"
  shows "works_ok st'"
proof -
  have "set (pool_of a n st') \<inter> set (pool_of b m st') = {}" if "(a, n) \<noteq> (b, m)" for a n b m
    using ok p [of a n] p [of b m] that unfolding works_ok_def by (metis (no_types, lifting) Int_mono subset_empty)
  then show ?thesis using p b unfolding works_ok_def by blast
qed

lemma pool_of_heap: "pool_of a n st = unwrap_or (hm_get (se_pools (st_heap st a)) n) []"
  by (rule pool_of_def)

text \<open>One session changes, its pools only shrink, and the bridges stay.\<close>

lemma sessions_step_session:
  assumes ok: "sessions_ok st" and h: "st_heap st' = (st_heap st)(a := s')"
    and b: "bridged_works st' = bridged_works st" and s: "session_ok s'"
    and p: "\<And>n. distinct (unwrap_or (hm_get (se_pools s') n) []) \<and>
      set (unwrap_or (hm_get (se_pools s') n) []) \<subseteq> set (pool_of a n st)"
    and x: "se_proxies s' = se_proxies (st_heap st a) \<or> se_proxies s' = []"
  shows "sessions_step st st'"
proof -
  have w: "works_ok st" using ok by (simp add: sessions_ok_def)
  have "pool_of c n st' = (if c = a then unwrap_or (hm_get (se_pools s') n) [] else pool_of c n st)" for c n
    by (simp add: pool_of_def h)
  with p w have q: "distinct (pool_of c n st') \<and> set (pool_of c n st') \<subseteq> set (pool_of c n st)" for c n
    by (simp add: works_ok_def)
  have d: "set (pool_of c n st) \<inter> set (bridged_works st) = {}" for c n using w by (simp add: works_ok_def)
  have "works_ok st'"
  proof (rule works_ok_shrink [OF w q])
    show "distinct (bridged_works st')" using w b by (simp add: works_ok_def)
    show "v \<notin> set (pool_of c n st')" if "v \<in> set (bridged_works st')" for v c n
      using that q [of c n] d [of c n] b by auto
  qed
  with ok s x show ?thesis by (simp add: sessions_step_def sessions_ok_def h)
qed

lemma session_ok_tx:
  "session_ok s \<Longrightarrow> ch_cap ch = ch_cap (se_tx s) \<Longrightarrow> length (ch_queue ch) \<le> CONTROL_QUEUE_DEPTH \<Longrightarrow>
     session_ok (s\<lparr>se_tx := ch\<rparr>)"
  by (simp add: session_ok_def)

lemma send_cap:
  "ch_cap (snd (try_send msg ch)) = ch_cap ch" "ch_cap (snd (send_with_timeout n msg ch)) = ch_cap ch"
  by (simp_all add: try_send_def send_with_timeout_def recv_many_def Let_def)

lemma sessions_step_tx:
  assumes ok: "sessions_ok st" and h: "st_heap st' = (st_heap st)(a := (st_heap st a)\<lparr>se_tx := ch\<rparr>)"
    and b: "st_bridges st' = st_bridges st" and c: "ch_cap ch = ch_cap (se_tx (st_heap st a))"
    and l: "length (ch_queue ch) \<le> CONTROL_QUEUE_DEPTH"
  shows "sessions_step st st'"
proof (rule sessions_step_session [OF ok h])
  show "bridged_works st' = bridged_works st" by (simp add: bridged_works_def b)
  show "session_ok ((st_heap st a)\<lparr>se_tx := ch\<rparr>)" using ok c l by (auto simp: sessions_ok_def intro: session_ok_tx)
qed (use ok in \<open>auto simp: sessions_ok_def works_ok_def pool_of_def\<close>)

lemma sessions_send:
  assumes ok: "sessions_ok st"
  shows "send_to a (send_with_timeout n msg) st = (r, st') \<Longrightarrow> sessions_step st st'"
    and "send_to a (try_send msg) st = (r, st') \<Longrightarrow> sessions_step st st'"
proof -
  have "ch_cap (se_tx (st_heap st a)) = CONTROL_QUEUE_DEPTH"
    "length (ch_queue (se_tx (st_heap st a))) \<le> CONTROL_QUEUE_DEPTH"
    using ok by (simp_all add: sessions_ok_def session_ok_def)
  then have "length (ch_queue (snd (try_send msg (se_tx (st_heap st a))))) \<le> CONTROL_QUEUE_DEPTH"
    "length (ch_queue (snd (send_with_timeout n msg (se_tx (st_heap st a))))) \<le> CONTROL_QUEUE_DEPTH"
    using try_send_bound [unfolded size_chan_ext_def] send_with_timeout_bound [unfolded size_chan_ext_def] by metis+
  with ok show "send_to a (send_with_timeout n msg) st = (r, st') \<Longrightarrow> sessions_step st st'"
    and "send_to a (try_send msg) st = (r, st') \<Longrightarrow> sessions_step st st'"
    by (auto dest!: send_to_frame simp: upd_session_def send_cap intro!: sessions_step_tx [OF ok])
qed

lemma sessions_cleanup:
  assumes ok: "sessions_ok st"
  shows "sessions_step st (cleanup a now st)"
proof (rule sessions_step_session [OF ok])
  show "st_heap (cleanup a now st) = (st_heap st)(a := wiped (st_heap st a))" by (simp add: cleanup_eq)
  show "session_ok (wiped (st_heap st a))" using ok by (auto simp: sessions_ok_def session_ok_def wiped_def)
qed (simp_all add: wiped_def bridged_works_def cleanup_eq)

lemma sessions_step_trans:
  assumes "sessions_step st st1" "sessions_step st1 st2"
  shows "sessions_step st st2"
  using assms by (auto simp: sessions_step_def) metis

lemma sessions_login_commit:
  assumes ok: "sessions_ok st" and l: "login_commit run_id sid token ip now st = (a, st')"
  shows "sessions_step st st'"
proof -
  define st1 where "st1 = st\<lparr>st_heap := (st_heap st)(a := session_new run_id sid ip token),
    st_next_session := a + 1, st_sessions := hm_insert run_id a (hm_remove run_id (st_sessions st))\<rparr>"
  have a: "a = st_next_session st" using l by (simp add: login_commit_def Let_def)
  have st': "st' = (case hm_get (st_sessions st) run_id of None \<Rightarrow> st1 | Some b \<Rightarrow> cleanup b now st1)"
    using l by (simp add: login_commit_def Let_def st1_def a split: option.splits)
  have st1: "sessions_step st st1"
    by (rule sessions_step_session [OF ok, of _ a "session_new run_id sid ip token"])
      (simp_all add: st1_def bridged_works_def session_ok_def session_new_def chan_new_def)
  then have "sessions_ok st1" by (simp add: sessions_step_def)
  then have "sessions_step st1 st'" unfolding st'
    by (auto intro: sessions_cleanup sessions_step_same split: option.split)
  with st1 show ?thesis by (rule sessions_step_trans)
qed

lemma dispatch_heap:
  assumes "dispatch_user_connection probe name h a now st = (r, st')"
  shows "st_heap st' = st_heap st \<or>
    (\<exists>P T. st_heap st' = (st_heap st)(a := (st_heap st a)\<lparr>se_pools := P, se_tx := T\<rparr>) \<and>
       (T = se_tx (st_heap st a) \<or> (\<exists>msg. T = snd (try_send msg (se_tx (st_heap st a))))) \<and>
       (P = se_pools (st_heap st a) \<or>
        P = hm_insert name (snd (pop_live probe (pool_of a name st))) (se_pools (st_heap st a))))"
proof -
  obtain user st1 where u: "accept_user name h now st = (user, st1)" by fastforce
  have h: "st_heap st1 = st_heap st" using accept_user_frame [OF u] by simp
  then have p: "pool_of a name st1 = pool_of a name st" by (simp add: pool_of_def)
  have same: "st_heap st = (st_heap st)(a := (st_heap st a)\<lparr>se_pools := se_pools (st_heap st a), se_tx := se_tx (st_heap st a)\<rparr>)"
    by simp
  show ?thesis
  proof (cases "st_max_active st \<le> active_connections (st_metrics st)")
    case True
    with assms show ?thesis by (simp add: dispatch_user_connection_def)
  next
    case False
    define q where "q = pop_live probe (pool_of a name st)"
    show ?thesis
    proof (cases "fst q")
      case None
      with False assms u h p have "st_heap st' = st_heap st \<or>
          st_heap st' = (st_heap st)(a := (st_heap st a)\<lparr>se_pools := hm_insert name (snd q) (se_pools (st_heap st a))\<rparr>)"
        by (auto simp: dispatch_user_connection_def pop_live_pooled_eq next_work_id_def Let_def
            upd_session_def q_def)
      then show ?thesis unfolding q_def [symmetric]
        by (elim disjE; intro disjI1 disjI2 exI [of _ "hm_insert name (snd q) (se_pools (st_heap st a))"]
            exI [of _ "se_tx (st_heap st a)"]) simp_all
    next
      case (Some x)
      obtain w rp where x: "x = (w, rp)" by fastforce
      let ?P = "if hm_get (se_pools (st_heap st a)) name = None then se_pools (st_heap st a)
        else hm_insert name (snd q) (se_pools (st_heap st a))"
      let ?T = "snd (try_send (req_work_conn name WORK_ID_POOL_RESERVED) (se_tx (st_heap st a)))"
      from False assms u h p Some x have
        "st_heap st' = (st_heap st)(a := (st_heap st a)\<lparr>se_pools := ?P, se_tx := ?T\<rparr>)"
        by (auto simp: dispatch_user_connection_def pop_live_pooled_eq send_to_def Let_def
            upd_session_def case_prod_beta q_def)
      then show ?thesis unfolding q_def [symmetric]
        by (intro disjI2 exI [of _ ?P] exI [of _ ?T]) auto
    qed
  qed
qed

lemma dispatch_heap_ex:
  assumes "dispatch_user_connection probe name h a now st = (r, st')"
  shows "\<exists>P T. st_heap st' = (st_heap st)(a := (st_heap st a)\<lparr>se_pools := P, se_tx := T\<rparr>) \<and>
       (T = se_tx (st_heap st a) \<or> (\<exists>msg. T = snd (try_send msg (se_tx (st_heap st a))))) \<and>
       (P = se_pools (st_heap st a) \<or>
        P = hm_insert name (snd (pop_live probe (pool_of a name st))) (se_pools (st_heap st a)))"
proof (cases "st_heap st' = st_heap st")
  case True
  then show ?thesis
    by (intro exI [of _ "se_pools (st_heap st a)"] exI [of _ "se_tx (st_heap st a)"]) simp
next
  case False
  with dispatch_heap [OF assms] show ?thesis by blast
qed

lemma pop_live_prefix: "\<exists>ys. v = snd (pop_live probe v) @ ys"
proof -
  obtain r v' where l: "pop_live probe v = (r, v')" by fastforce
  show ?thesis
  proof (cases r)
    case None
    with pop_live_None [OF l [unfolded None]] l show ?thesis by simp
  next
    case (Some w)
    with pop_live_Some [OF l [unfolded Some]] l show ?thesis by auto
  qed
qed

lemma works_okD:
  assumes "works_ok st"
  shows "distinct (bridged_works st)" "distinct (pool_of a n st)"
    "w \<in> set (pool_of a n st) \<Longrightarrow> w \<notin> set (bridged_works st)"
    "w \<in> set (pool_of a n st) \<Longrightarrow> w \<in> set (pool_of b m st) \<Longrightarrow> a = b \<and> n = m"
  using assms unfolding works_ok_def by blast+

lemma sessions_dispatch:
  assumes ok: "sessions_ok st" and d: "dispatch_user_connection probe name h a now st = (r, st')"
  shows "sessions_step st st'"
proof -
  let ?s = "st_heap st a"
  have w: "works_ok st" and s: "session_ok ?s" using ok by (simp_all add: sessions_ok_def)
  obtain P T where heap: "st_heap st' = (st_heap st)(a := ?s\<lparr>se_pools := P, se_tx := T\<rparr>)"
    and T: "T = se_tx ?s \<or> (\<exists>msg. T = snd (try_send msg (se_tx ?s)))"
    and P: "P = se_pools ?s \<or> P = hm_insert name (snd (pop_live probe (pool_of a name st))) (se_pools ?s)"
    using dispatch_heap_ex [OF d] by blast
  obtain ys where pre: "pool_of a name st = snd (pop_live probe (pool_of a name st)) @ ys"
    using pop_live_prefix by blast
  have pools: "pool_of c n st' = pool_of c n st" if "(c, n) \<noteq> (a, name)" for c n
    using that P by (auto simp: pool_of_def heap)
  have pool: "\<exists>zs. pool_of a name st = pool_of a name st' @ zs"
    using P pre by (auto simp: pool_of_def heap)
  have sub: "distinct (pool_of c n st') \<and> set (pool_of c n st') \<subseteq> set (pool_of c n st)" for c n
    using pools [of c n] pool works_okD(2) [OF w, of c n] by (cases "(c, n) = (a, name)") auto
  have len: "length v \<le> MAX_POOLED_WORK_CONNS_PER_PROXY" if "hm_get P n = Some v" for n v
  proof -
    have pl: "length (pool_of a n st) \<le> MAX_POOLED_WORK_CONNS_PER_PROXY" for n
      using s by (auto simp: session_ok_def pool_of_def unwrap_or_def split: option.split)
    from that P s pl [of name] pre show ?thesis
      by (auto simp: session_ok_def split: if_splits)
  qed
  have "ch_cap T = CONTROL_QUEUE_DEPTH" "length (ch_queue T) \<le> CONTROL_QUEUE_DEPTH"
    using T s try_send_bound [unfolded size_chan_ext_def, of "se_tx ?s"] by (auto simp: session_ok_def send_cap)
  with s len have s': "session_ok (?s\<lparr>se_pools := P, se_tx := T\<rparr>)"
    by (simp add: session_ok_def)
  have br: "bridged_works st' = bridged_works st \<or>
    (\<exists>x. bridged_works st' = x # bridged_works st \<and> x \<in> set (pool_of a name st) \<and> x \<notin> set (pool_of a name st'))"
    using dispatch_cases [OF d] works_okD(2) [OF w, of a name]
    by (auto simp: bridged_works_def handed_over_def)
  have "works_ok st'"
  proof (rule works_ok_shrink [OF w sub])
    show "distinct (bridged_works st')" using br works_okD(1,3) [OF w] by auto
    show "v \<notin> set (pool_of c n st')" if v: "v \<in> set (bridged_works st')" for v c n
    proof
      assume c: "v \<in> set (pool_of c n st')"
      with sub have c0: "v \<in> set (pool_of c n st)" by blast
      with works_okD(3) [OF w] v br have "v \<in> set (pool_of a name st)" "v \<notin> set (pool_of a name st')"
        by auto
      with works_okD(4) [OF w c0] c show False by blast
    qed
  qed
  with ok s' show ?thesis by (simp add: sessions_step_def sessions_ok_def heap)
qed

lemma sessions_work:
  assumes ok: "sessions_ok st" and fresh: "work_fresh st w"
    and h: "handle_work_connection j f w now evs st = (res, st')"
  shows "sessions_step st st'"
  using handle_work_connection_cases [OF h]
proof (elim disjE conjE exE)
  fix s a x assume "serve_work a s w now evs st = (x, st')"
  then consider "st_heap st' = st_heap st" "st_bridges st' = st_bridges st"
    | "st' = snd (pool_push a (sw_proxy_name s) w st)"
    | u where "st_heap st' = st_heap st" "st_bridges st' = (u, w, []) # st_bridges st"
    by (auto simp: serve_work_def Let_def case_prod_beta run_udp_conn_def claim_pending_def
        split: if_splits option.splits)
  then show ?thesis
  proof cases
    case 1
    with ok show ?thesis by (intro sessions_step_same) (simp_all add: bridged_works_def)
  next
    case (3 u)
    have wk: "works_ok st" using ok by (simp add: sessions_ok_def)
    have "pool_of c n st' = pool_of c n st" for c n by (simp add: pool_of_def 3)
    moreover have "bridged_works st' = w # bridged_works st" by (simp add: bridged_works_def 3)
    ultimately have "works_ok st'"
      using works_okD [OF wk] fresh
      by (intro works_ok_shrink [OF wk]) (auto simp: work_fresh_def)
    with ok 3 show ?thesis by (simp add: sessions_step_def sessions_ok_def)
  next
    case 2
    let ?name = "sw_proxy_name s" and ?s = "st_heap st a"
    let ?pool = "pool_of a ?name st"
    let ?new = "if MAX_POOLED_WORK_CONNS_PER_PROXY \<le> length ?pool then ?pool else ?pool @ [w]"
    let ?P = "hm_insert ?name ?new (if MAX_POOLED_WORK_CONNS_PER_PROXY \<le> length ?pool then se_pools ?s
      else hm_insert ?name ?pool (se_pools ?s))"
    define P where "P = ?P"
    have heap: "st_heap st' = (st_heap st)(a := ?s\<lparr>se_pools := P\<rparr>)" and br: "st_bridges st' = st_bridges st"
      by (simp_all add: 2 pool_push_def Let_def upd_session_def pool_of_def P_def)
    have bw: "bridged_works st' = bridged_works st" by (simp add: bridged_works_def br)
    have pools: "pool_of c n st' = (if (c, n) = (a, ?name) then ?new else pool_of c n st)" for c n
      by (auto simp: pool_of_def heap P_def)
    have wk: "works_ok st" and s: "session_ok ?s" using ok by (simp_all add: sessions_ok_def)
    have "works_ok st'"
      unfolding works_ok_def pools bw
      using works_okD [OF wk] fresh
      by (auto simp: work_fresh_def)
    moreover have "length ?pool \<le> MAX_POOLED_WORK_CONNS_PER_PROXY"
      using s by (auto simp: session_ok_def pool_of_def unwrap_or_def split: option.split)
    with s have "session_ok (?s\<lparr>se_pools := P\<rparr>)" by (auto simp: session_ok_def P_def)
    ultimately show ?thesis using ok by (simp add: sessions_step_def sessions_ok_def heap)
  qed
qed (use ok in \<open>auto intro: sessions_step_same\<close>)

lemma sessions_end_bridge:
  assumes ok: "sessions_ok st"
  shows "sessions_step st (end_bridge i now st)"
proof (cases "i < length (st_bridges st)")
  case True
  have w: "works_ok st" using ok by (simp add: sessions_ok_def)
  let ?st = "end_bridge i now st"
  have heap: "st_heap ?st = st_heap st" using True by (simp add: end_bridge_def drop_user_eq)
  then have p: "pool_of c n ?st = pool_of c n st" for c n by (simp add: pool_of_def)
  have b: "bridged_works ?st = take i (bridged_works st) @ drop (Suc i) (bridged_works st)"
    using True by (simp add: end_bridge_def drop_user_eq bridged_works_def take_map drop_map)
  have "works_ok ?st"
  proof (rule works_ok_shrink [OF w])
    have "bridged_works st = take i (bridged_works st) @ bridged_works st ! i # drop (Suc i) (bridged_works st)"
      using True by (intro id_take_nth_drop) (simp add: bridged_works_def)
    with works_okD(1) [OF w]
    have "distinct (take i (bridged_works st) @ bridged_works st ! i # drop (Suc i) (bridged_works st))" by simp
    then show "distinct (bridged_works ?st)" by (simp add: b)
    show "v \<notin> set (pool_of c n ?st)" if "v \<in> set (bridged_works ?st)" for v c n
      using that works_okD(3) [OF w] by (auto simp: b p dest: in_set_takeD in_set_dropD)
  qed (simp add: p works_okD(2) [OF w])
  with ok show ?thesis by (simp add: sessions_step_def sessions_ok_def heap)
qed (use ok in \<open>simp add: end_bridge_def sessions_step_same\<close>)

lemma sessions_handle_message:
  assumes ok: "sessions_ok st" and "\<forall>np. msg \<noteq> NewProxy np"
    and h: "handle_message lower config env msg a ts st = (go, ts', st')"
  shows "sessions_step st st'"
proof -
  from assms(2) h consider "st_heap st' = st_heap st" "st_bridges st' = st_bridges st"
    | t where "st' = snd (send_to a (try_send (HeartbeatResp t)) st)"
    by (auto simp: handle_message_def on_metrics_def split: message.splits)
  then show ?thesis
  proof cases
    case 1
    with ok show ?thesis by (intro sessions_step_same) (simp_all add: bridged_works_def)
  next
    case (2 t)
    with sessions_send(2) [OF ok, of a "HeartbeatResp t"] show ?thesis by (metis prod.collapse)
  qed
qed

lemma state_step_sessions:
  assumes "state_step j lower config st st'" and ok: "sessions_ok st"
  shows "sessions_step st st'"
  using assms(1)
proof cases
  case (HttpUser h probe hp now reads r)
  then consider "st' = st" | name a d where "dispatch_user_connection probe name h a now st = (d, st')"
    by (auto simp: handle_http_connection_def split: prod.splits sum.splits option.splits dest!: route_cases)
  then show ?thesis by cases (use ok in \<open>auto intro: sessions_dispatch sessions_step_same\<close>)
next
  case (HttpsUser h probe hp sni now reads r)
  then consider "st' = st" | name a d where "dispatch_user_connection probe name h a now st = (d, st')"
    by (auto simp: handle_https_connection_def split: prod.splits sum.splits option.splits dest!: route_cases)
  then show ?thesis by cases (use ok in \<open>auto intro: sessions_dispatch sessions_step_same\<close>)
next
  case (GiveUp now wk)
  with ok show ?thesis
    by (intro sessions_step_same)
      (simp_all add: drop_pending_work_def Let_def drop_user_eq bridged_works_def split: option.split)
next
  case (BridgeRead i now n)
  with ok show ?thesis
    by (intro sessions_step_same) (simp_all add: bridge_io_def case_prod_beta on_shared_def on_metrics_def
      bridged_works_def map_update, metis (no_types, lifting) list_update_id nth_map)
next
  case (BridgeWrite i now n)
  with ok show ?thesis
    by (intro sessions_step_same) (simp_all add: bridge_io_def case_prod_beta on_shared_def on_metrics_def
      bridged_works_def map_update, metis (no_types, lifting) list_update_id nth_map)
next
  case (LoginChecked uuid_ok f ip now v)
  with login_check_eq [of j uuid_ok config f ip now st] ok show ?thesis
    by (intro sessions_step_same) (auto simp: bridged_works_def)
next
  case (WriterTakes a n)
  with ok show ?thesis
    by (intro sessions_step_tx [OF ok, of _ a "snd (recv_many n (se_tx (st_heap st a)))"])
      (auto simp: writer_takes_def upd_session_def recv_many_def Let_def sessions_ok_def session_ok_def
        intro: le_trans [OF diff_le_self])
next
  case (WriterEnds a)
  with ok show ?thesis
    by (intro sessions_step_tx [OF ok, of _ a "close_chan (se_tx (st_heap st a))"])
      (simp_all add: writer_ends_def upd_session_def close_chan_def)
qed (use ok in \<open>auto intro: sessions_dispatch sessions_work sessions_end_bridge sessions_login_commit
      sessions_send sessions_cleanup sessions_handle_message sessions_step_same
      simp: sweep_eq Let_def upd_udp_def on_metrics_def unregister_session_def bridged_works_def
      split: option.split\<close>)

section \<open>Registrations\<close>

lemma state_inv_split: "state_inv st \<longleftrightarrow> users_ok st \<and> sessions_ok st"
  by (auto simp: state_inv_def sessions_ok_def)

lemma register_open_frame:
  assumes "register_open np a config bind st = Inr (handle, st')"
  shows "st_heap st' = st_heap st" "st_bridges st' = st_bridges st" "users_ok st \<Longrightarrow> users_step st st'"
  using register_open_ok [OF assms] by (auto intro!: users_step_same)

lemma commit_ok:
  assumes inv: "state_inv st" and len: "hm_len (se_proxies (st_heap st a)) < MAX_PROXIES_PER_SESSION"
  shows "state_inv (register_commit np a domains handle st)"
    and "users_step st (register_commit np a domains handle st)"
proof -
  let ?st = "register_commit np a domains handle st"
  have ok: "users_ok st" "sessions_ok st" using inv by (simp_all add: state_inv_split)
  show u: "users_step st ?st" using ok(1) by (intro users_step_same) (simp_all add: register_commit_eq)
  have "pool_of c n ?st = pool_of c n st" for c n
    by (simp add: pool_of_def register_commit_eq committed_def)
  moreover have "bridged_works ?st = bridged_works st" by (simp add: bridged_works_def register_commit_eq)
  moreover have "session_ok (committed np domains handle (st_heap st a))"
    using ok(2) len by (auto simp: sessions_ok_def session_ok_def committed_def hm_len_insert)
  ultimately have "sessions_ok ?st"
    using ok(2) by (auto simp: sessions_ok_def works_ok_def register_commit_eq)
  with u show "state_inv ?st" by (simp add: state_inv_split users_step_def)
qed

lemma sys_step_ok:
  assumes "sys_step j lower config s t" and inv: "sys_inv s"
  shows "sys_inv t \<and> users_step (sy_state s) (sy_state t)"
  using assms(1)
proof cases
  case (Task st')
  have ok: "users_ok (sy_state s)" "sessions_ok (sy_state s)" "works_ok (sy_state s)"
    using inv by (simp_all add: sys_inv_def state_inv_split sessions_ok_def)
  from state_step_users [OF Task(2) ok(1,3)] state_step_sessions [OF Task(2) ok(2)] inv show ?thesis
    by (auto simp: sys_inv_def state_inv_split Task(1) users_step_def sessions_step_def registering_ok_def
        MAX_PROXIES_PER_SESSION_def) (metis hm_empty(4) image_eqI zero_less_numeral fst_conv)+
next
  case (RegistrationStarts a np domains)
  with inv show ?thesis
    by (auto simp: sys_inv_def registering_ok_def users_step_def state_inv_split register_check_ok
        MAX_PROXIES_PER_SESSION_def)
next
  case (RegistrationFails a np domains bind e)
  with inv show ?thesis
    by (auto simp: sys_inv_def registering_ok_def users_step_def state_inv_split distinct_map
        intro: inj_on_subset)
next
  case (RegistrationEnds a np domains bind handle st')
  have inv': "state_inv (sy_state s)" and reg: "registering_ok s" using inv by (simp_all add: sys_inv_def)
  note fr = register_open_frame [OF RegistrationEnds(3)]
  have u: "users_step (sy_state s) st'" using fr(3) inv' by (simp add: state_inv_split)
  then have i: "state_inv st'" using inv' fr(1,2)
    by (simp add: state_inv_split users_step_def sessions_ok_def works_ok_def pool_of_def bridged_works_def)
  have "hm_len (se_proxies (st_heap st' a)) < MAX_PROXIES_PER_SESSION"
    using reg RegistrationEnds(2) by (force simp: registering_ok_def fr(1))
  from commit_ok [OF i this, of np domains handle]
  have c: "state_inv (sy_state t)" "users_step st' (sy_state t)" by (simp_all add: RegistrationEnds(1))
  have d: "distinct (map fst (sy_registering s))" using reg by (simp add: registering_ok_def)
  have "b \<noteq> a" if "b \<in> fst ` set (remove1 (a, np, domains) (sy_registering s))" for b
    using that RegistrationEnds(2) eq_key_imp_eq_value [OF d] d by (fastforce simp: distinct_map)
  then have "registering_ok t"
    using reg d by (auto simp: registering_ok_def RegistrationEnds(1) register_commit_eq fr(1)
        distinct_map intro: inj_on_subset)
  moreover have "board_of (sy_state t) = board_of st'"
    by (simp add: RegistrationEnds(1) board_of_def waiting_handles_def register_commit_eq)
  ultimately show ?thesis using c u by (simp add: sys_inv_def users_step_def)
qed

interpretation sys: step_invariant "sys_step j lower config" sys_inv
  by unfold_locales (use sys_step_ok in blast)

lemma sys_start_inv: "sys_inv (sys_start now)"
  by (simp add: sys_inv_def sys_start_def state_inv_def users_ok_def works_ok_def session_ok_def
      registering_ok_def server_state_new_def user_handles_def bridged_works_def pool_of_def session_new_def
      metrics_new_def zero_counters_def active_connections_def chan_new_def MAX_ACTIVE_CONNECTIONS_def)

definition sys_reachable :: "json \<Rightarrow> (string \<Rightarrow> string) \<Rightarrow> server_config \<Rightarrow> instant \<Rightarrow> sys \<Rightarrow> bool" where
  "sys_reachable j lower config now s \<longleftrightarrow> (sys_step j lower config)\<^sup>*\<^sup>* (sys_start now) s"

lemma sys_reachable_inv: "sys_reachable j lower config now s \<Longrightarrow> sys_inv s"
  unfolding sys_reachable_def by (rule sys.run_keeps [OF _ sys_start_inv])

section \<open>Properties\<close>

text \<open>
  C2 --- The server refines the switchboard: from every state its tasks can reach, under any
  interleaving, each step of any task is a move of the switchboard or leaves it as it is. So a user
  connection waits or talks but never both, is put through at most once, to one work connection that
  serves nobody else, and leaves only by being sent away or by hanging up.
\<close>

theorem server_refines_switchboard:
  assumes "sys_reachable j lower config now s" and "sys_step j lower config s t"
  shows "switch\<^sup>=\<^sup>= (board_of (sy_state s)) (board_of (sy_state t))"
  using sys_step_ok [OF assms(2) sys_reachable_inv [OF assms(1)]] by (simp add: users_step_def)

definition demo_sys :: sys where
  \<comment> \<open>a fresh server after its first user connection\<close>
  "demo_sys = (sys_start 0)\<lparr>sy_state :=
     snd (dispatch_user_connection (\<lambda>_. ProbePending) ''ssh'' 9 0 5 (server_state_new 0))\<rparr>"

lemma demo_sys_step: "sys_step demo_json to_ascii_lowercase demo_config (sys_start 0) demo_sys"
  unfolding demo_sys_def
proof (rule Task)
  obtain d st' where d: "dispatch_user_connection (\<lambda>_. ProbePending) ''ssh'' 9 0 5 (server_state_new 0) = (d, st')"
    by fastforce
  have "state_step demo_json to_ascii_lowercase demo_config (server_state_new 0) st'"
    by (rule User [OF _ _ d]) (simp_all add: user_handles_def server_state_new_def)
  with d show "state_step demo_json to_ascii_lowercase demo_config (sy_state (sys_start 0))
      (snd (dispatch_user_connection (\<lambda>_. ProbePending) ''ssh'' 9 0 5 (server_state_new 0)))"
    by (simp add: sys_start_def)
qed

lemma demo_sys_reachable:
  "sys_reachable demo_json to_ascii_lowercase demo_config 0 (sys_start 0)"
  "sys_reachable demo_json to_ascii_lowercase demo_config 0 demo_sys"
  using demo_sys_step by (auto simp: sys_reachable_def)

theorem server_refines_switchboard_witness:
  "switch\<^sup>=\<^sup>= (board_of (sy_state (sys_start 0))) (board_of (sy_state demo_sys))"
  by (rule server_refines_switchboard [OF demo_sys_reachable(1) demo_sys_step])

text \<open>
  C3 --- The shared state stays well formed, whatever the tasks do and however they interleave: the
  gauge of active connections is the number of waiting and bridged users and never above its limit,
  each of them is held once, no work connection is pooled or bridged twice, and every session keeps
  to its 128 proxies, 32 pooled connections per proxy and 256 queued messages, also while
  registrations wait for their listener.
\<close>

theorem server_state_well_formed:
  assumes "sys_reachable j lower config now s"
  shows "active_connections (st_metrics (sy_state s)) =
      int (hm_len (st_pending (sy_state s)) + length (st_bridges (sy_state s))) \<and>
    active_connections (st_metrics (sy_state s)) \<le> st_max_active (sy_state s) \<and>
    distinct (user_handles (sy_state s)) \<and> works_ok (sy_state s) \<and>
    (\<forall>a. hm_len (se_proxies (st_heap (sy_state s) a)) \<le> 128 \<and>
      length (pool_of a name (sy_state s)) \<le> 32 \<and>
      length (ch_queue (se_tx (st_heap (sy_state s) a))) \<le> 256)"
proof -
  have inv: "users_ok (sy_state s)" "works_ok (sy_state s)" "session_ok (st_heap (sy_state s) a)" for a
    using sys_reachable_inv [OF assms] by (simp_all add: sys_inv_def state_inv_def)
  have "length (pool_of a name (sy_state s)) \<le> 32" for a
    using inv(3) [of a] by (auto simp: session_ok_def pool_of_def unwrap_or_def
        MAX_POOLED_WORK_CONNS_PER_PROXY_def split: option.split)
  with inv show ?thesis
    by (auto simp: users_ok_def session_ok_def MAX_PROXIES_PER_SESSION_def CONTROL_QUEUE_DEPTH_def)
qed

theorem server_state_well_formed_witness:
  "active_connections (st_metrics (sy_state demo_sys)) =
     int (hm_len (st_pending (sy_state demo_sys)) + length (st_bridges (sy_state demo_sys)))"
  using server_state_well_formed [OF demo_sys_reachable(2), of "''ssh''"] by blast

end
