(* ===== verification/Composition.thy ===== *)
theory Composition
  imports System Loops ControlWriter
begin

text \<open>
  The listening loops and the writer tasks inside the transition system of the whole server: a turn of
  a loop is a run of its steps, so what holds in every reachable state of \<open>System\<close> holds while the
  loops run.
\<close>

section \<open>User connections\<close>

definition fresh_user :: "nat \<Rightarrow> server_state \<Rightarrow> bool" where
  \<comment> \<open>a socket no other connection has, and a counter that has not wrapped\<close>
  "fresh_user h st \<longleftrightarrow> h \<notin> set (user_handles st) \<and> st_work_id st \<noteq> - 1"

fun proxy_turn_ok ::
  "json \<Rightarrow> (string \<Rightarrow> string) \<Rightarrow> server_config \<Rightarrow> (user_arrival, unit) listen_event \<Rightarrow> server_state \<Rightarrow> bool" where
  \<comment> \<open>what the environment may do in a turn\<close>
  "proxy_turn_ok j lower config (Arrives (probe, h, now)) st = fresh_user h st"
| "proxy_turn_ok j lower config (OtherTasks g) st = (state_step j lower config)\<^sup>*\<^sup>* st (g st)"
| "proxy_turn_ok j lower config _ st = True"

fun loop_ok ::
  "('e \<Rightarrow> server_state \<Rightarrow> bool) \<Rightarrow> ('e \<Rightarrow> 'r listen_run \<Rightarrow> bool \<times> 'r listen_run) \<Rightarrow> 'e list
     \<Rightarrow> 'r listen_run \<Rightarrow> bool" where
  "loop_ok P turn [] s = True"
| "loop_ok P turn (ev # evs) s =
     (P ev (lr_state s) \<and>
      (case turn ev s of (True, _) \<Rightarrow> True | (False, s) \<Rightarrow> loop_ok P turn evs s))"

lemma loop_steps:
  assumes "\<And>ev s. P ev (lr_state s) \<Longrightarrow> R\<^sup>*\<^sup>* (lr_state s) (lr_state (snd (turn ev s)))"
  shows "loop_ok P turn evs s \<Longrightarrow> R\<^sup>*\<^sup>* (lr_state s) (lr_state (snd (listen_loop turn evs s)))"
proof (induction evs arbitrary: s)
  case (Cons ev evs)
  obtain b s' where t: "turn ev s = (b, s')" by fastforce
  with Cons.prems have "R\<^sup>*\<^sup>* (lr_state s) (lr_state s')" using assms [of ev s] by simp
  with t Cons show ?case by (cases b) (auto intro: rtranclp_trans)
qed simp

lemma proxy_turn_steps:
  "proxy_turn_ok j lower config ev (lr_state s) \<Longrightarrow>
   (state_step j lower config)\<^sup>*\<^sup>* (lr_state s) (lr_state (snd (proxy_accept_turn name a ev s)))"
proof (cases ev)
  case (Arrives x)
  assume ok: "proxy_turn_ok j lower config ev (lr_state s)"
  obtain probe h now where x: "x = (probe, h, now)" by (cases x)
  obtain d st' where d: "dispatch_user_connection probe name h a now (lr_state s) = (d, st')" by fastforce
  from ok have "state_step j lower config (lr_state s) st'"
    by (intro User [OF _ _ d]) (simp_all add: Arrives x fresh_user_def)
  with d show ?thesis by (simp add: Arrives x proxy_accept_turn_def accepted_one_def handled_def)
qed (auto simp: proxy_accept_turn_def back_off_def meanwhile_def Let_def case_prod_beta)

fun vhost_turn_ok ::
  "json \<Rightarrow> (string \<Rightarrow> string) \<Rightarrow> server_config \<Rightarrow> ('h \<Rightarrow> nat) \<Rightarrow> (unit, 'h) listen_event \<Rightarrow> server_state \<Rightarrow> bool" where
  "vhost_turn_ok j lower config handle (Handles x) st = fresh_user (handle x) st"
| "vhost_turn_ok j lower config handle (OtherTasks g) st = (state_step j lower config)\<^sup>*\<^sup>* st (g st)"
| "vhost_turn_ok j lower config handle _ st = True"

definition http_handle :: "http_user \<Rightarrow> nat" where
  "http_handle u = (let (probe, hp, handle, now, reads) = u in handle)"

lemma http_turn_steps:
  "vhost_turn_ok j lower config http_handle ev (lr_state s) \<Longrightarrow>
   (state_step j lower config)\<^sup>*\<^sup>* (lr_state s) (lr_state (snd (http_vhost_turn lower ev s)))"
proof (cases ev)
  case (Handles x)
  assume ok: "vhost_turn_ok j lower config http_handle ev (lr_state s)"
  obtain probe hp h now reads where x: "x = (probe, hp, h, now, reads)" by (cases x)
  obtain r st' where d: "handle_http_connection lower probe hp h now reads (lr_state s) = (r, st')" by fastforce
  from ok have "state_step j lower config (lr_state s) st'"
    by (intro HttpUser [OF _ _ d]) (simp_all add: Handles x fresh_user_def http_handle_def)
  with d show ?thesis by (simp add: Handles x http_vhost_turn_def handled_def)
qed (auto simp: http_vhost_turn_def back_off_def accepted_one_def meanwhile_def Let_def case_prod_beta)

lemma https_turn_steps:
  "vhost_turn_ok j lower config (\<lambda>(hs, sni, u). http_handle u) ev (lr_state s) \<Longrightarrow>
   (state_step j lower config)\<^sup>*\<^sup>* (lr_state s) (lr_state (snd (https_vhost_turn lower ev s)))"
proof (cases ev)
  case (Handles x)
  assume ok: "vhost_turn_ok j lower config (\<lambda>(hs, sni, u). http_handle u) ev (lr_state s)"
  obtain hs sni probe hp h now reads where x: "x = (hs, sni, probe, hp, h, now, reads)" by (cases x) auto
  obtain r st' where d: "handle_https_connection lower probe hp sni h now reads (lr_state s) = (r, st')" by fastforce
  from ok have "state_step j lower config (lr_state s) st'"
    by (intro HttpsUser [OF _ _ d]) (simp_all add: Handles x fresh_user_def http_handle_def)
  with d show ?thesis
    by (auto simp: Handles x https_vhost_turn_def handled_def serve_tls_user_def split: handshake.split sum.split)
qed (auto simp: https_vhost_turn_def back_off_def accepted_one_def meanwhile_def Let_def case_prod_beta)

section \<open>Datagrams\<close>

definition udp_room :: "nat \<Rightarrow> server_state \<Rightarrow> bool" where
  \<comment> \<open>so many more work ids can be taken\<close>
  "udp_room n st \<longleftrightarrow> unat (st_work_id st) + n < 2 ^ 64"

lemma handle_datagram_id:
  "handle_datagram peer data now (p, m, wk) = ((p', m', wk'), r) \<Longrightarrow> wk' = wk \<or> wk' = wk + 1"
  by (auto simp: handle_datagram_def new_pending_def Let_def case_prod_beta split: option.splits if_splits)

lemma datagram_step:
  fixes peer data now u
  assumes "udp_room (Suc n) st"
  defines "st' \<equiv> snd (on_udp (handle_datagram peer data now) u st)"
  shows "state_step j lower config st st' \<and> udp_room n st'"
proof -
  obtain p m wk r where h: "handle_datagram peer data now (st_udp_heap st u, st_metrics st, st_work_id st) = ((p, m, wk), r)"
    by (metis prod_cases3 surj_pair)
  have e: "st' = upd_udp u p m (st\<lparr>st_work_id := wk\<rparr>)"
    by (simp add: st'_def on_udp_def h upd_udp_def)
  have w: "st_work_id st \<noteq> - 1"
    using assms(1) by (auto simp: udp_room_def unsigned_minus_1_eq_mask mask_eq_exp_minus_1)
  have "unat (st_work_id st + 1) \<le> Suc (unat (st_work_id st))"
    by (metis Suc_eq_plus1 unat_word_ariths(1) unat_1 mod_less_eq_dividend len_gt_0 le_refl)
  with handle_datagram_id [OF h] assms(1) have "udp_room n st'"
    by (auto simp: e upd_udp_def udp_room_def)
  with UdpDatagram [OF w h] e show ?thesis by simp
qed

lemma on_udp_then:
  "snd (on_udp (\<lambda>ctx. let (ctx, x) = f ctx; (ctx, y) = g ctx in (ctx, h x y)) u st) =
   snd (on_udp g u (snd (on_udp f u st)))"
  by (auto simp: on_udp_def Let_def case_prod_beta)

lemma batch_steps:
  "udp_room n st \<Longrightarrow>
   (state_step j lower config)\<^sup>*\<^sup>* st (snd (on_udp (drain_socket_batch n rs now) u st))"
proof (induction n arbitrary: rs st)
  case 0
  show ?case by (simp add: on_udp_def upd_udp_def)
next
  case (Suc n)
  show ?case
  proof (cases "\<exists>peer data rs'. rs = Some (peer, data) # rs'")
    case True
    then obtain peer data rs' where rs: "rs = Some (peer, data) # rs'" by blast
    have "drain_socket_batch (Suc n) rs now =
        (\<lambda>ctx. let (ctx, x) = handle_datagram peer data now ctx; (ctx, y) = drain_socket_batch n rs' now ctx
               in (ctx, case x of None \<Rightarrow> y | Some wk \<Rightarrow> wk # y))"
      by (auto simp: rs)
    then have e: "snd (on_udp (drain_socket_batch (Suc n) rs now) u st) =
        snd (on_udp (drain_socket_batch n rs' now) u (snd (on_udp (handle_datagram peer data now) u st)))"
      by (simp only: on_udp_then)
    from datagram_step [OF Suc.prems, of j lower config peer data now u] Suc.IH
    show ?thesis unfolding e by (meson converse_rtranclp_into_rtranclp)
  next
    case False
    then have "drain_socket_batch (Suc n) rs now ctx = (ctx, [])" for ctx
      by (cases rs; cases "hd rs") auto
    then show ?thesis by (simp add: on_udp_def)
  qed
qed

lemma receive_steps:
  "udp_room UDP_RECV_BATCH st \<Longrightarrow>
   (state_step j lower config)\<^sup>*\<^sup>* st (snd (on_udp (receive_turn d rs now) u st))"
proof -
  assume r: "udp_room UDP_RECV_BATCH st"
  have "receive_turn d rs now =
      (\<lambda>ctx. let (ctx, x) = handle_datagram (fst d) (snd d) now ctx;
                 (ctx, y) = drain_socket_batch (UDP_RECV_BATCH - 1) rs now ctx
             in (ctx, case x of None \<Rightarrow> y | Some wk \<Rightarrow> wk # y))"
    by (auto simp: receive_turn_def)
  then have e: "snd (on_udp (receive_turn d rs now) u st) =
      snd (on_udp (drain_socket_batch (UDP_RECV_BATCH - 1) rs now) u
        (snd (on_udp (handle_datagram (fst d) (snd d) now) u st)))"
    by (simp only: on_udp_then)
  from r have "udp_room (Suc (UDP_RECV_BATCH - 1)) st" by (simp add: UDP_RECV_BATCH_def)
  from datagram_step [OF this, of j lower config "fst d" "snd d" now u] batch_steps show ?thesis
    unfolding e by (meson converse_rtranclp_into_rtranclp)
qed

fun udp_turn_ok ::
  "json \<Rightarrow> (string \<Rightarrow> string) \<Rightarrow> server_config \<Rightarrow> (datagrams, instant) listen_event \<Rightarrow> server_state \<Rightarrow> bool" where
  "udp_turn_ok j lower config (Arrives x) st = udp_room UDP_RECV_BATCH st"
| "udp_turn_ok j lower config (OtherTasks g) st = (state_step j lower config)\<^sup>*\<^sup>* st (g st)"
| "udp_turn_ok j lower config _ st = True"

lemma udp_turn_steps:
  "udp_turn_ok j lower config ev (lr_state s) \<Longrightarrow>
   (state_step j lower config)\<^sup>*\<^sup>* (lr_state s) (lr_state (snd (udp_listener_turn u ev s)))"
proof (cases ev)
  case (Arrives x)
  assume "udp_turn_ok j lower config ev (lr_state s)"
  then have r: "udp_room UDP_RECV_BATCH (lr_state s)" by (simp add: Arrives)
  obtain d rs now where x: "x = (d, rs, now)" by (cases x)
  from receive_steps [OF r, of j lower config d rs now u] show ?thesis
    by (simp add: Arrives x udp_listener_turn_def accepted_one_def handled_def)
next
  case (Handles now)
  let ?st = "lr_state s"
  have "snd (on_udp (\<lambda>(p, mw). ((sweep now p, mw), [] :: u64 list)) u ?st) =
      upd_udp u (sweep now (st_udp_heap ?st u)) (st_metrics ?st) ?st"
    by (simp add: on_udp_def upd_udp_def)
  with UdpSweep [of j lower config ?st u now] show ?thesis
    by (simp add: Handles udp_listener_turn_def handled_def)
qed (auto simp: udp_listener_turn_def back_off_def meanwhile_def Let_def case_prod_beta)

section \<open>Writers\<close>

text \<open>What a writer does to its session's queue is one or two steps of the system.\<close>

lemma writer_turn_steps:
  assumes "se_tx (st_heap st a) = wt_queue w"
  shows "(state_step j lower config)\<^sup>*\<^sup>* st
    (upd_session a (\<lambda>s. s\<lparr>se_tx := wt_queue (take_message js oc w)\<rparr>) st)"
proof -
  obtain n where n: "wt_queue (take_message js oc w) \<in>
      {snd (recv_many n (wt_queue w)), close_chan (snd (recv_many n (wt_queue w)))}"
    using take_message_queue by blast
  have t: "state_step j lower config st (writer_takes a n st)" by (rule WriterTakes)
  have "state_step j lower config (writer_takes a n st) (writer_ends a (writer_takes a n st))"
    by (rule WriterEnds)
  with t have e: "(state_step j lower config)\<^sup>*\<^sup>* st (writer_ends a (writer_takes a n st))"
    by (meson converse_rtranclp_into_rtranclp r_into_rtranclp)
  have eq: "writer_takes a n st = upd_session a (\<lambda>s. s\<lparr>se_tx := snd (recv_many n (wt_queue w))\<rparr>) st"
    "writer_ends a (writer_takes a n st) =
       upd_session a (\<lambda>s. s\<lparr>se_tx := close_chan (snd (recv_many n (wt_queue w)))\<rparr>) st"
    using assms by (simp_all add: writer_takes_def writer_ends_def upd_session_def)
  from n t [unfolded eq(1)] e [unfolded eq(2)] show ?thesis by auto
qed

section \<open>Runs\<close>

lemma state_steps_reachable:
  "(state_step j lower config)\<^sup>*\<^sup>* st st' \<Longrightarrow> sys_reachable j lower config t s \<Longrightarrow> sy_state s = st \<Longrightarrow>
   \<exists>s'. sys_reachable j lower config t s' \<and> sy_state s' = st'"
proof (induction rule: rtranclp_induct)
  case (step y z)
  then obtain s' where s: "sys_reachable j lower config t s'" "sy_state s' = y" by blast
  with step.hyps(2) have "sys_step j lower config s' (s'\<lparr>sy_state := z\<rparr>)" by (intro Task) simp
  with s(1) have "sys_reachable j lower config t (s'\<lparr>sy_state := z\<rparr>)"
    unfolding sys_reachable_def by (rule rtranclp.rtrancl_into_rtrancl)
  then show ?case by (intro exI [of _ "s'\<lparr>sy_state := z\<rparr>"]) simp
qed blast

lemmas turn_steps = proxy_turn_steps http_turn_steps https_turn_steps udp_turn_steps

text \<open>
  A listener that starts in a reachable state of the server, while the other tasks take their steps,
  leaves it in a reachable state, so with well-formed tables.
\<close>

lemma listener_stays_reachable:
  assumes "sys_reachable j lower config t s" and "lr_state r = sy_state s"
    and "loop_ok (proxy_turn_ok j lower config) (proxy_accept_turn name a) evs r"
  shows "\<exists>s'. sys_reachable j lower config t s' \<and>
    sy_state s' = lr_state (snd (listen_loop (proxy_accept_turn name a) evs r))"
  using loop_steps [where R = "state_step j lower config", OF proxy_turn_steps assms(3)] assms(1,2)
    state_steps_reachable by metis

lemma udp_listener_stays_reachable:
  assumes "sys_reachable j lower config t s" and "lr_state r = sy_state s"
    and "loop_ok (udp_turn_ok j lower config) (udp_listener_turn u) evs r"
  shows "\<exists>s'. sys_reachable j lower config t s' \<and>
    sy_state s' = lr_state (snd (listen_loop (udp_listener_turn u) evs r))"
  using loop_steps [where R = "state_step j lower config", OF udp_turn_steps assms(3)] assms(1,2)
    state_steps_reachable by metis

end
