(* ===== verification/Link.thy ===== *)
theory Link
  imports ControlWriter
begin

text \<open>
  One direction of a control connection, from the queue of the sender to the message loop of the
  reader: the writer task of \<open>ControlWriter\<close>, the bytes in flight, and the \<open>FramedRead\<close> that collects
  them in pieces of any size (\<open>rfrps/src/control.rs\<close>, \<open>rfrpc/src/control.rs\<close>). Its contract is a queue
  that delivers in order and may lose its end only when the writer stops.
\<close>

section \<open>The link\<close>

record link =
  lk_writer :: writer
  lk_arrived :: nat   \<comment> \<open>how much of the stream has reached the reader\<close>
  lk_buf :: bytes     \<comment> \<open>of that, what is not decoded yet\<close>
  lk_delivered :: "message list"
  lk_reading :: bool
  lk_bad :: bool      \<comment> \<open>the reader met a frame it refuses\<close>

definition link_new :: "nat \<Rightarrow> link" where
  "link_new depth =
     \<lparr>lk_writer = writer_new depth, lk_arrived = 0, lk_buf = [], lk_delivered = [],
      lk_reading = True, lk_bad = False\<rparr>"

definition arrive :: "nat \<Rightarrow> link \<Rightarrow> link" where
  \<comment> \<open>one read of the socket\<close>
  "arrive n l =
     (let chunk = take n (drop (lk_arrived l) (wt_out (lk_writer l))) in
      l\<lparr>lk_arrived := lk_arrived l + length chunk, lk_buf := lk_buf l @ chunk\<rparr>)"

definition refuse :: "link \<Rightarrow> link" where
  "refuse l = l\<lparr>lk_reading := False, lk_bad := True\<rparr>"

definition next_frame :: "json \<Rightarrow> link \<Rightarrow> link" where
  \<comment> \<open>\<open>reader.next()\<close> with what the loops do with its result\<close>
  "next_frame j l =
     (case decode (lk_buf l) of
        Inl e \<Rightarrow> refuse l
      | Inr None \<Rightarrow> l
      | Inr (Some (f, rest)) \<Rightarrow>
          let l = l\<lparr>lk_buf := rest\<rparr> in
          (case from_frame j f of
             Inl e \<Rightarrow> refuse l
           | Inr msg \<Rightarrow> l\<lparr>lk_delivered := lk_delivered l @ [msg]\<rparr>))"

inductive link_step :: "json \<Rightarrow> (writer_event \<Rightarrow> writer \<Rightarrow> writer) \<Rightarrow> link \<Rightarrow> link \<Rightarrow> bool" for j turn where
  WriterTurn: "wt_running (lk_writer l) \<Longrightarrow> \<forall>m. ev = Offered m \<longrightarrow> json_inverse j m \<Longrightarrow>
    link_step j turn l (l\<lparr>lk_writer := turn ev (lk_writer l)\<rparr>)"
| Arrives: "lk_reading l \<Longrightarrow> link_step j turn l (arrive n l)"
| Next: "lk_reading l \<Longrightarrow> link_step j turn l (next_frame j l)"
| ReaderEnds: "link_step j turn l (l\<lparr>lk_reading := False\<rparr>)"

section \<open>What it implements\<close>

record fifo =
  ff_pending :: "message list"
  ff_delivered :: "message list"
  ff_open :: bool

definition fifo_new :: fifo where
  "fifo_new = \<lparr>ff_pending = [], ff_delivered = [], ff_open = True\<rparr>"

inductive fifo_step :: "fifo \<Rightarrow> fifo \<Rightarrow> bool" where
  Send: "ff_open q \<Longrightarrow> fifo_step q (q\<lparr>ff_pending := ff_pending q @ [m]\<rparr>)"
| Deliver: "ff_pending q = m # ms \<Longrightarrow>
    fifo_step q (q\<lparr>ff_pending := ms, ff_delivered := ff_delivered q @ [m]\<rparr>)"
| Lose: "ff_open q \<Longrightarrow> prefix ms (ff_pending q) \<Longrightarrow>
    fifo_step q (q\<lparr>ff_pending := ms, ff_open := False\<rparr>)"
| Farewell: "ff_open q \<Longrightarrow> prefix ms (ff_pending q) \<Longrightarrow> r \<in> goodbyes \<Longrightarrow>
    fifo_step q (q\<lparr>ff_pending := ms @ [Close (Some r)], ff_open := False\<rparr>)"

inductive_cases fifo_stepE: "fifo_step q q'"

inductive_simps closed_fifo_step: "fifo_step \<lparr>ff_pending = ms, ff_delivered = ds, ff_open = False\<rparr> q"

text \<open>
  What the queue promises: what was delivered stays delivered, an open queue keeps everything it was
  given, in order, and a closed one nothing but delivers what it kept.
\<close>

definition ff_all :: "fifo \<Rightarrow> message list" where
  "ff_all q = ff_delivered q @ ff_pending q"

lemma fifo_step_promise:
  "fifo_step q q' \<Longrightarrow> prefix (ff_delivered q) (ff_delivered q') \<and>
     (ff_open q' \<longrightarrow> ff_open q \<and> prefix (ff_all q) (ff_all q')) \<and> (\<not> ff_open q \<longrightarrow> ff_all q' = ff_all q)"
  by (elim fifo_stepE) (auto simp: ff_all_def)

lemma closed_fifo_delivers:
  "fifo_step\<^sup>*\<^sup>* \<lparr>ff_pending = ms, ff_delivered = ds, ff_open = False\<rparr>
     \<lparr>ff_pending = [], ff_delivered = ds @ ms, ff_open = False\<rparr>"
proof (induction ms arbitrary: ds)
  case (Cons m ms)
  have "fifo_step \<lparr>ff_pending = m # ms, ff_delivered = ds, ff_open = False\<rparr>
      \<lparr>ff_pending = ms, ff_delivered = ds @ [m], ff_open = False\<rparr>"
    by (simp add: closed_fifo_step)
  with Cons [of "ds @ [m]"] show ?case by (simp add: converse_rtranclp_into_rtranclp)
qed simp

lemma fifo_run_promise:
  "fifo_step\<^sup>*\<^sup>* q q' \<Longrightarrow> prefix (ff_delivered q) (ff_delivered q') \<and>
     (ff_open q' \<longrightarrow> ff_open q \<and> prefix (ff_all q) (ff_all q')) \<and> (\<not> ff_open q \<longrightarrow> ff_all q' = ff_all q)"
proof (induction rule: rtranclp_induct)
  case (step y z)
  with fifo_step_promise [OF step.hyps(2)] show ?case by (metis prefix_order.trans)
qed simp

definition on_wire :: "json \<Rightarrow> writer \<Rightarrow> message list" where
  \<comment> \<open>the messages whose frames are complete in the stream\<close>
  "on_wire j w = map projr (peer_reads j (wt_out w))"

definition link_abs :: "json \<Rightarrow> link \<Rightarrow> fifo" where
  "link_abs j l =
     \<lparr>ff_pending = drop (length (lk_delivered l)) (on_wire j (lk_writer l) @ ch_queue (wt_queue (lk_writer l))),
      ff_delivered = lk_delivered l, ff_open = wt_running (lk_writer l)\<rparr>"

section \<open>Turns of the writers\<close>

lemma write_message_running:
  "wt_running (write_message j msg oc w) \<Longrightarrow> wt_queue (write_message j msg oc w) = wt_queue w"
  using feed_frame_queue [of _ oc w]
  by (auto simp: write_message_def split: sum.splits prod.splits write_outcome.splits) (metis snd_conv)+

lemma feed_frame_running: "wt_running (snd (feed_frame f oc w)) = wt_running w"
  by (simp add: feed_frame_def put_def split: sum.split)

lemma write_message_ended:
  "wt_running w \<Longrightarrow> \<not> wt_running (write_message j msg oc w) \<Longrightarrow>
   wt_queue (write_message j msg oc w) = close_chan (wt_queue w)"
  using feed_frame_queue [of _ oc w] feed_frame_running [of _ oc w]
  by (auto simp: write_message_def split: sum.splits prod.splits write_outcome.splits) (metis snd_conv)+

lemma take_message_running:
  "wt_running (take_message j oc w) \<Longrightarrow> ch_history (wt_queue (take_message j oc w)) = ch_history (wt_queue w)"
  by (auto simp: take_message_def write_message_running split: list.splits simp del: One_nat_def)

lemma take_message_ended:
  "wt_running w \<Longrightarrow> \<not> wt_running (take_message j oc w) \<Longrightarrow> ch_queue (wt_queue (take_message j oc w)) = []"
  by (auto simp: take_message_def write_message_ended close_chan_def split: list.splits simp del: One_nat_def)

lemma aborted [simp]: "\<not> wt_running (abort_writer j in_write w)" "ch_queue (wt_queue (abort_writer j in_write w)) = []"
  by (simp_all add: abort_writer_def close_chan_def)

lemma offer_running [simp]: "wt_running (offer m w) = wt_running w"
  by (simp add: offer_def)

lemma turn_running:
  assumes "turn \<in> writer_turns j" "wt_running (turn ev w)"
  shows "ch_history (wt_queue (turn ev w)) = ch_history (wt_queue w) \<or>
    (\<exists>m. ev = Offered m \<and> ch_history (wt_queue (turn ev w)) = ch_history (wt_queue w) @ [m])"
  using assms
  by (cases ev) (auto simp: writer_turns_def server_writer_turn_def client_writer_turn_def
      offer_def try_send_history take_message_running split: if_splits)

lemma turn_ended:
  assumes "turn \<in> writer_turns j" "wt_running w" "\<not> wt_running (turn ev w)"
  shows "ch_queue (wt_queue (turn ev w)) = [] \<and> prefix (ch_history (wt_queue (turn ev w))) (ch_history (wt_queue w))"
  using assms take_message_ended [of w j] take_message_history [of j _ w] closed_history [of "wt_queue w"]
    abort_history [of j _ w]
  by (cases ev) (auto simp: writer_turns_def server_writer_turn_def client_writer_turn_def close_chan_def
      split: if_splits)

section \<open>The invariant\<close>

definition link_inv :: "json \<Rightarrow> link \<Rightarrow> bool" where
  "link_inv j l \<longleftrightarrow>
     (let w = lk_writer l in
      writer_inv j goodbyes w \<and> (\<forall>m \<in> set (ch_history (wt_queue w)). json_inverse j m) \<and>
      lk_arrived l \<le> length (wt_out w) \<and> \<not> lk_bad l \<and>
      (\<exists>fs. list_all frame_ok fs \<and> map (from_frame j) fs = map Inr (lk_delivered l) \<and>
         take (lk_arrived l) (wt_out w) = concat (map wire fs) @ lk_buf l))"

definition clean_goodbyes :: "json \<Rightarrow> bool" where
  \<comment> \<open>the three messages a writer ends with come back as they were printed\<close>
  "clean_goodbyes j \<longleftrightarrow> (\<forall>r \<in> goodbyes. json_inverse j (Close (Some r)))"

lemma on_wire_cases:
  assumes "writer_inv j goodbyes w" "\<forall>m \<in> set (ch_received (wt_queue w)). json_inverse j m" "clean_goodbyes j"
  shows "peer_reads j (wt_out w) = map Inr (on_wire j w) \<and>
    (wt_running w \<longrightarrow> on_wire j w = ch_received (wt_queue w)) \<and>
    (prefix (on_wire j w) (ch_received (wt_queue w)) \<or>
     (\<exists>ms. \<exists>r \<in> goodbyes. on_wire j w = ms @ [Close (Some r)] \<and> prefix ms (ch_received (wt_queue w))))"
proof -
  have p: "peer_reads j (wt_out w) = map Inr ms \<Longrightarrow> on_wire j w = ms" for ms
    by (simp add: on_wire_def comp_def)
  from peer_reads_inv [OF assms(1,2) assms(3) [unfolded clean_goodbyes_def]] show ?thesis
    using p by metis
qed

lemma list_all_frames: "list_all2 (sendable j) ms fs \<Longrightarrow> list_all frame_ok fs"
  by (induction rule: list_all2_induct) (auto simp: sendable_def)

text \<open>Whatever was written, some further bytes would make it a sequence of whole frames.\<close>

lemma spoken_completes:
  assumes "spoken j ms out b" "starts_frame j m b"
  shows "\<exists>t ds. out @ t = concat (map wire ds) \<and> list_all frame_ok ds"
proof -
  from assms(1) obtain fs where fs: "list_all2 (sendable j) ms fs" "out = concat (map wire fs) @ b"
    by (auto simp: spoken_def)
  note ok = list_all_frames [OF fs(1)]
  from assms(2) consider "b = []" | f t where "sendable j m f" "wire f = b @ t"
    by (auto simp: starts_frame_def prefix_def)
  then show ?thesis
  proof cases
    case 1
    with ok fs(2) show ?thesis by (intro exI [of _ "[]"] exI [of _ fs]) simp
  next
    case 2
    with ok fs(2) show ?thesis by (intro exI [of _ t] exI [of _ "fs @ [f]"]) (simp add: sendable_def)
  qed
qed

lemma writer_inv_completes:
  "writer_inv j goodbyes w \<Longrightarrow> \<exists>t ds. wt_out w @ t = concat (map wire ds) \<and> list_all frame_ok ds"
  unfolding writer_inv_def Let_def using spoken_completes starts_frame_Nil by metis

lemma no_bad_frame:
  assumes "out @ t = concat (map wire ds)" "list_all frame_ok ds"
    and "list_all frame_ok fs" "take k out = concat (map wire fs) @ buf"
  shows "decode buf \<noteq> Inl e"
proof
  assume e: "decode buf = Inl e"
  have "drain decode (Suc (length fs)) (concat (map wire fs) @ buf) = (fs, buf, Some e)"
    using fc.drain_enc [OF assms(3), of "Suc (length fs)" buf] e by simp
  moreover have "(concat (map wire fs) @ buf) @ (drop k out @ t) = concat (map wire ds)"
    using assms(1) by (metis append_assoc append_take_drop_id assms(4))
  ultimately show False using fc.drain_prefix assms(2) by blast
qed

text \<open>A frame the reader finds is the next message the writer put on the stream.\<close>

lemma next_is_next:
  assumes "link_inv j l" "clean_goodbyes j" "decode (lk_buf l) = Inr (Some (f, rest))"
  shows "\<exists>m ms. from_frame j f = Inr m \<and> on_wire j (lk_writer l) = lk_delivered l @ m # ms"
proof -
  let ?w = "lk_writer l"
  from assms(1) obtain fs where fs: "list_all frame_ok fs" "map (from_frame j) fs = map Inr (lk_delivered l)"
      "take (lk_arrived l) (wt_out ?w) = concat (map wire fs) @ lk_buf l" by (auto simp: link_inv_def Let_def)
  from decode_canon [OF assms(3)] have b: "lk_buf l = wire f @ rest" "frame_ok f" by auto
  let ?fs = "fs @ [f]"
  obtain tail where out: "wt_out ?w = concat (map wire ?fs) @ tail"
    using append_take_drop_id [of "lk_arrived l" "wt_out ?w"] fs(3) b(1) by (metis append_assoc concat_append
        concat.simps list.simps(8,9) map_append append_Nil2)
  have "length ?fs \<le> length (wt_out ?w)"
    using wires_length [of ?fs] unfolding out length_append by linarith
  moreover have "list_all frame_ok ?fs" using fs(1) b(2) by simp
  ultimately obtain ys where "fst (drain decode (length (wt_out ?w)) (wt_out ?w)) = ?fs @ ys"
    using fc.drain_enc [of ?fs "length (wt_out ?w)" tail, folded out] by (auto simp: case_prod_beta)
  then have "peer_reads j (wt_out ?w) = map Inr (lk_delivered l) @ from_frame j f # map (from_frame j) ys"
    by (simp add: peer_reads_def fs(2))
  moreover have "\<forall>m \<in> set (ch_received (wt_queue ?w)). json_inverse j m" "writer_inv j goodbyes ?w"
    using assms(1) by (auto simp: link_inv_def Let_def ch_history_def)
  with on_wire_cases assms(2) have "peer_reads j (wt_out ?w) = map Inr (on_wire j ?w)" by blast
  ultimately have "map Inr (on_wire j ?w) = map Inr (lk_delivered l) @ from_frame j f # map (from_frame j) ys"
    by simp
  then obtain us vs where "on_wire j ?w = us @ vs" "map Inr us = (map Inr (lk_delivered l) :: (error, message) result list)"
      "map Inr vs = from_frame j f # map (from_frame j) ys" by (auto simp: map_eq_append_conv)
  moreover from this(2) have "us = lk_delivered l" by (simp add: inj_map_eq_map [OF inj_Inr])
  ultimately show ?thesis by (cases vs) auto
qed

section \<open>The simulation\<close>

lemma delivered_on_wire:
  assumes "link_inv j l" "clean_goodbyes j"
  shows "prefix (lk_delivered l) (on_wire j (lk_writer l))"
proof -
  let ?w = "lk_writer l"
  from assms(1) obtain fs where fs: "list_all frame_ok fs" "map (from_frame j) fs = map Inr (lk_delivered l)"
      "take (lk_arrived l) (wt_out ?w) = concat (map wire fs) @ lk_buf l"
    and i: "\<forall>m \<in> set (ch_received (wt_queue ?w)). json_inverse j m" "writer_inv j goodbyes ?w"
    by (auto simp: link_inv_def Let_def ch_history_def)
  obtain tail where out: "wt_out ?w = concat (map wire fs) @ tail"
    using append_take_drop_id [of "lk_arrived l" "wt_out ?w"] fs(3) by (metis append_assoc)
  have "length fs \<le> length (wt_out ?w)"
    using wires_length [of fs] unfolding out length_append by linarith
  then obtain ys where "fst (drain decode (length (wt_out ?w)) (wt_out ?w)) = fs @ ys"
    using fc.drain_enc [OF fs(1), of "length (wt_out ?w)" tail, folded out] by (auto simp: case_prod_beta)
  then have "map Inr (lk_delivered l) @ map (from_frame j) ys = map Inr (on_wire j ?w)"
    using on_wire_cases [OF i(2,1) assms(2)] by (simp add: peer_reads_def fs(2))
  then obtain us vs where "on_wire j ?w = us @ vs"
      "map Inr us = (map Inr (lk_delivered l) :: (error, message) result list)"
    by (metis map_eq_append_conv)
  moreover from this(2) have "us = lk_delivered l" by (simp add: inj_map_eq_map [OF inj_Inr])
  ultimately show ?thesis by simp
qed

lemma turn_step:
  "turn \<in> writer_turns j \<Longrightarrow> writer_step j goodbyes w (turn ev w)"
proof -
  have mono: "writer_step j gs w v \<Longrightarrow> gs \<subseteq> goodbyes \<Longrightarrow> writer_step j goodbyes w v" for gs v
    by (induction rule: writer_step.induct) (auto intro: writer_step.intros)
  show "turn \<in> writer_turns j \<Longrightarrow> ?thesis"
    using mono [OF sw.turn_step] mono [OF cw.turn_step] by (auto simp: writer_turns_def goodbyes_def)
qed

lemma turn_out: "turn \<in> writer_turns j \<Longrightarrow> prefix (wt_out w) (wt_out (turn ev w))"
  using turn_step [of turn j w ev] by (auto elim: writer_stepE)

lemma writer_turn_inv:
  assumes "link_inv j l" "turn \<in> writer_turns j" "wt_running (lk_writer l)"
    and "\<forall>m. ev = Offered m \<longrightarrow> json_inverse j m"
  shows "link_inv j (l\<lparr>lk_writer := turn ev (lk_writer l)\<rparr>)"
proof -
  let ?w = "lk_writer l" and ?v = "turn ev (lk_writer l)"
  have "set (ch_history (wt_queue ?v)) \<subseteq> set (ch_history (wt_queue ?w)) \<union> {m. ev = Offered m}"
  proof (cases "wt_running ?v")
    case True
    then show ?thesis using turn_running [OF assms(2), of ev ?w] by auto
  next
    case False
    then show ?thesis using turn_ended [OF assms(2,3), of ev] set_mono_prefix by fastforce
  qed
  then have "\<forall>m \<in> set (ch_history (wt_queue ?v)). json_inverse j m"
    using assms(1,4) by (auto simp: link_inv_def Let_def)
  moreover have "writer_inv j goodbyes ?v"
    using assms(1) writer_step_inv [OF turn_step [OF assms(2)] _ assms(3)] by (auto simp: link_inv_def Let_def)
  moreover obtain b where "wt_out ?v = wt_out ?w @ b" using turn_out [OF assms(2)] by (auto simp: prefix_def)
  ultimately show ?thesis using assms(1) by (auto simp: link_inv_def Let_def)
qed

lemma next_frame_inv:
  assumes "link_inv j l" "clean_goodbyes j"
  shows "link_inv j (next_frame j l)"
proof -
  from assms(1) obtain fs where fs: "list_all frame_ok fs" "map (from_frame j) fs = map Inr (lk_delivered l)"
      "take (lk_arrived l) (wt_out (lk_writer l)) = concat (map wire fs) @ lk_buf l"
    and "writer_inv j goodbyes (lk_writer l)" by (auto simp: link_inv_def Let_def)
  then have good: "decode (lk_buf l) \<noteq> Inl e" for e
    using writer_inv_completes no_bad_frame by metis
  show ?thesis
  proof (cases "decode (lk_buf l)")
    case (Inr x)
    show ?thesis
    proof (cases x)
      case None
      with Inr assms(1) show ?thesis by (simp add: next_frame_def)
    next
      case (Some y)
      obtain f rest where d: "decode (lk_buf l) = Inr (Some (f, rest))" using Inr Some by (cases y) simp
      from decode_canon [OF d] have b: "lk_buf l = wire f @ rest" "frame_ok f" by auto
      from next_is_next [OF assms d] obtain m where m: "from_frame j f = Inr m" by blast
      show ?thesis
        using assms(1) fs d m b by (auto simp: next_frame_def link_inv_def Let_def intro!: exI [of _ "fs @ [f]"])
    qed
  qed (use good in simp)
qed

lemma take_chunk: "take (k + length (take n (drop k xs))) xs = take k xs @ take n (drop k xs)"
  by (metis append_eq_conv_conj append_take_drop_id drop_drop length_take take_add)

lemma chunk_fits: "k \<le> length xs \<Longrightarrow> k + length (take n (drop k xs)) \<le> length xs"
  by simp

lemma arrive_inv: "link_inv j l \<Longrightarrow> link_inv j (arrive n l)"
  by (auto simp: link_inv_def Let_def arrive_def take_chunk chunk_fits simp del: length_take)

lemma link_step_inv:
  assumes "link_step j turn l l'" "turn \<in> writer_turns j" "clean_goodbyes j" "link_inv j l"
  shows "link_inv j l'"
  using assms
proof (induction rule: link_step.induct)
  case (WriterTurn l ev)
  then show ?case by (intro writer_turn_inv)
next
  case (Arrives l n)
  then show ?case by (intro arrive_inv)
next
  case (Next l)
  then show ?case by (intro next_frame_inv)
qed (simp add: link_inv_def Let_def)

lemma prefix_drop: "prefix xs ys \<Longrightarrow> prefix (drop n xs) (drop n ys)"
  by (auto simp: prefix_def)

lemma writer_turn_simulates:
  assumes i: "link_inv j l" and "clean_goodbyes j" "turn \<in> writer_turns j" "wt_running (lk_writer l)"
    and "\<forall>m. ev = Offered m \<longrightarrow> json_inverse j m"
  defines "l' \<equiv> l\<lparr>lk_writer := turn ev (lk_writer l)\<rparr>"
  shows "fifo_step\<^sup>=\<^sup>= (link_abs j l) (link_abs j l')"
proof -
  let ?w = "lk_writer l" and ?v = "turn ev (lk_writer l)" and ?n = "length (lk_delivered l)"
  have i': "link_inv j l'" using writer_turn_inv [OF i assms(3-5)] by (simp add: l'_def)
  note cases_w = on_wire_cases [of j ?w, OF _ _ assms(2)] and cases_v = on_wire_cases [of j ?v, OF _ _ assms(2)]
  have w: "on_wire j ?w = ch_received (wt_queue ?w)"
    using cases_w i assms(4) by (auto simp: link_inv_def Let_def ch_history_def)
  have n: "?n \<le> length (ch_history (wt_queue ?w))"
    using prefix_length_le [OF delivered_on_wire [OF i assms(2)]] by (simp add: w ch_history_def)
  have abs: "link_abs j l = \<lparr>ff_pending = drop ?n (ch_history (wt_queue ?w)), ff_delivered = lk_delivered l, ff_open = True\<rparr>"
    using assms(4) by (simp add: link_abs_def w ch_history_def)
  show ?thesis
  proof (cases "wt_running ?v")
    case True
    have v: "on_wire j ?v = ch_received (wt_queue ?v)"
      using cases_v i' True by (auto simp: link_inv_def Let_def ch_history_def l'_def)
    have "link_abs j l' = \<lparr>ff_pending = drop ?n (ch_history (wt_queue ?v)), ff_delivered = lk_delivered l, ff_open = True\<rparr>"
      using True by (simp add: link_abs_def l'_def v ch_history_def)
    with turn_running [OF assms(3) True] n abs Send [of "link_abs j l"] show ?thesis by fastforce
  next
    case False
    from turn_ended [OF assms(3,4) False] have q: "ch_queue (wt_queue ?v) = []"
      and h: "prefix (ch_received (wt_queue ?v)) (ch_history (wt_queue ?w))" by (auto simp: ch_history_def)
    have abs': "link_abs j l' = \<lparr>ff_pending = drop ?n (on_wire j ?v), ff_delivered = lk_delivered l, ff_open = False\<rparr>"
      using False by (simp add: link_abs_def l'_def q)
    have lose: "fifo_step (link_abs j l) (link_abs j l')"
      if "prefix (drop ?n (on_wire j ?v)) (drop ?n (ch_history (wt_queue ?w)))"
      using that Lose [of "link_abs j l" "drop ?n (on_wire j ?v)"] by (simp add: abs abs')
    from cases_v i' consider "prefix (on_wire j ?v) (ch_received (wt_queue ?v))"
      | ms r where "r \<in> goodbyes" "on_wire j ?v = ms @ [Close (Some r)]" "prefix ms (ch_received (wt_queue ?v))"
      by (auto simp: link_inv_def Let_def ch_history_def l'_def)
    then show ?thesis
    proof cases
      case 1
      then show ?thesis using lose prefix_drop prefix_order.trans [OF 1 h] by blast
    next
      case 2
      show ?thesis
      proof (cases "?n \<le> length ms")
        case True
        have "prefix (drop ?n ms) (ff_pending (link_abs j l))"
          using prefix_drop [OF prefix_order.trans [OF 2(3) h]] by (simp add: abs)
        from Farewell [OF _ this 2(1)] True show ?thesis by (simp add: abs abs' 2(2))
      next
        case False
        then show ?thesis using lose by (simp add: 2(2))
      qed
    qed
  qed
qed

lemma next_simulates:
  assumes "link_inv j l" "clean_goodbyes j"
  shows "fifo_step\<^sup>=\<^sup>= (link_abs j l) (link_abs j (next_frame j l))"
proof (cases "decode (lk_buf l)")
  case (Inl e)
  then show ?thesis by (simp add: next_frame_def refuse_def link_abs_def)
next
  case (Inr x)
  show ?thesis
  proof (cases x)
    case None
    with Inr show ?thesis by (simp add: next_frame_def)
  next
    case (Some y)
    obtain f rest where d: "decode (lk_buf l) = Inr (Some (f, rest))" using Inr Some by (cases y) simp
    from next_is_next [OF assms d] obtain m ms where m: "from_frame j f = Inr m"
        "on_wire j (lk_writer l) = lk_delivered l @ m # ms" by blast
    then have "ff_pending (link_abs j l) = m # ms @ ch_queue (wt_queue (lk_writer l))"
      by (simp add: link_abs_def)
    from Deliver [OF this] d m show ?thesis by (simp add: next_frame_def link_abs_def)
  qed
qed

lemma link_step_simulates:
  assumes "link_step j turn l l'" "turn \<in> writer_turns j" "clean_goodbyes j" "link_inv j l"
  shows "fifo_step\<^sup>=\<^sup>= (link_abs j l) (link_abs j l')"
  using assms
proof (induction rule: link_step.induct)
  case (WriterTurn l ev)
  then show ?case by (intro writer_turn_simulates)
next
  case (Next l)
  then show ?case by (intro next_simulates)
qed (simp_all add: link_abs_def arrive_def Let_def)

lemma link_new_inv: "link_inv j (link_new depth)" "link_abs j (link_new depth) = fifo_new"
  using writer_new_inv [of j goodbyes depth]
  by (auto simp: link_inv_def link_new_def Let_def writer_new_def chan_new_def ch_history_def link_abs_def
      fifo_new_def on_wire_def peer_reads_def)

lemma link_run:
  assumes "(link_step j turn)\<^sup>*\<^sup>* (link_new depth) l" "turn \<in> writer_turns j" "clean_goodbyes j"
  shows "link_inv j l \<and> fifo_step\<^sup>*\<^sup>* fifo_new (link_abs j l)"
  using assms(1)
proof (induction rule: rtranclp_induct)
  case base
  then show ?case by (simp add: link_new_inv)
next
  case (step l l')
  then show ?case
    using link_step_inv [OF step.hyps(2) assms(2,3)] link_step_simulates [OF step.hyps(2) assms(2,3)]
    by (auto intro: rtranclp.rtrancl_into_rtrancl)
qed

section \<open>Nothing is stuck\<close>

lemma take_message_sends:
  assumes "ch_queue (wt_queue w) = m # q" "sendable j m f" "wt_running w"
  shows "take_message j Delivered w =
    w\<lparr>wt_queue := snd (recv_many 1 (wt_queue w)), wt_out := wt_out w @ wire f\<rparr>"
proof -
  have "encode f [] = Inr (wire f)" using assms(2) encode_wire [of f "[]"] by (simp add: sendable_def)
  then show ?thesis
    using assms by (simp add: take_message_def write_message_def feed_frame_def put_def sendable_def)
qed

lemma writer_flushes:
  assumes "turn \<in> writer_turns j" "wt_running (lk_writer l)"
    and "\<forall>m \<in> set (ch_queue (wt_queue (lk_writer l))). \<exists>f. sendable j m f"
  shows "\<exists>l'. (link_step j turn)\<^sup>*\<^sup>* l l' \<and> ch_queue (wt_queue (lk_writer l')) = [] \<and> wt_running (lk_writer l') \<and>
    ch_history (wt_queue (lk_writer l')) = ch_history (wt_queue (lk_writer l)) \<and>
    lk_delivered l' = lk_delivered l \<and> lk_reading l' = lk_reading l"
  using assms
proof (induction "ch_queue (wt_queue (lk_writer l))" arbitrary: l)
  case (Cons m q)
  obtain f where f: "sendable j m f" using Cons.prems(3) Cons.hyps(2) [symmetric] by auto
  let ?l = "l\<lparr>lk_writer := turn (RxMessage Delivered) (lk_writer l)\<rparr>"
  have t: "turn (RxMessage Delivered) (lk_writer l) = take_message j Delivered (lk_writer l)"
    using Cons.prems(1) by (auto simp: writer_turns_def server_writer_turn_def client_writer_turn_def)
  have "link_step j turn l ?l" using Cons.prems(2) by (intro WriterTurn) simp_all
  moreover have "wt_running (lk_writer ?l)" "q = ch_queue (wt_queue (lk_writer ?l))"
    "ch_history (wt_queue (lk_writer ?l)) = ch_history (wt_queue (lk_writer l))"
    using take_message_sends [OF Cons.hyps(2) [symmetric] f Cons.prems(2)] Cons.prems(2) Cons.hyps(2) [symmetric]
    by (simp_all add: t recv_many_def ch_history_def Let_def)
  ultimately show ?case
    using Cons.hyps(1) [of ?l] Cons.prems Cons.hyps(2) [symmetric]
    by (auto intro: converse_rtranclp_into_rtranclp)
next
  case (Nil l)
  then show ?case by (intro exI [of _ l]) simp
qed

definition all_arrived :: "link \<Rightarrow> bool" where
  "all_arrived l \<longleftrightarrow> lk_arrived l = length (wt_out (lk_writer l))"

lemma next_delivers:
  assumes "link_inv j l" "clean_goodbyes j" "all_arrived l"
    and "on_wire j (lk_writer l) = lk_delivered l @ m # ms"
  shows "lk_delivered (next_frame j l) = lk_delivered l @ [m]"
proof (cases "\<exists>f rest. decode (lk_buf l) = Inr (Some (f, rest))")
  case True
  then obtain f rest where d: "decode (lk_buf l) = Inr (Some (f, rest))" by blast
  from next_is_next [OF assms(1,2) d] d assms(4) show ?thesis by (auto simp: next_frame_def)
next
  case False
  let ?w = "lk_writer l"
  from assms(1,3) obtain fs where fs: "list_all frame_ok fs" "map (from_frame j) fs = map Inr (lk_delivered l)"
      "wt_out ?w = concat (map wire fs) @ lk_buf l"
    and i: "\<forall>m \<in> set (ch_received (wt_queue ?w)). json_inverse j m" "writer_inv j goodbyes ?w"
    by (auto simp: link_inv_def Let_def ch_history_def all_arrived_def)
  have "fst (drain decode n (lk_buf l)) = []" for n
    using False by (cases n) (auto split: sum.split option.split)
  moreover have "length fs \<le> length (wt_out ?w)"
    using wires_length [of fs] unfolding fs(3) length_append by linarith
  ultimately have "fst (drain decode (length (wt_out ?w)) (wt_out ?w)) = fs"
    using fc.drain_enc [OF fs(1), of "length (wt_out ?w)" "lk_buf l", folded fs(3)] by (simp add: case_prod_beta)
  then have "(map Inr (on_wire j ?w) :: (error, message) result list) = map Inr (lk_delivered l)"
    using on_wire_cases [OF i(2,1) assms(2)] by (simp add: peer_reads_def fs(2))
  then show ?thesis using assms(4) by (simp add: inj_map_eq_map [OF inj_Inr])
qed

lemma next_frame_keeps [simp]:
  "lk_writer (next_frame j l) = lk_writer l" "all_arrived (next_frame j l) = all_arrived l"
  by (auto simp: next_frame_def refuse_def all_arrived_def Let_def split: sum.split option.split)

lemma reader_flushes:
  assumes "link_inv j l" "clean_goodbyes j" "all_arrived l" "lk_reading l"
    and "on_wire j (lk_writer l) = lk_delivered l @ ms"
  shows "\<exists>l'. (link_step j turn)\<^sup>*\<^sup>* l l' \<and> lk_delivered l' = lk_delivered l @ ms"
  using assms
proof (induction ms arbitrary: l)
  case (Cons m ms)
  let ?l = "next_frame j l"
  have d: "lk_delivered ?l = lk_delivered l @ [m]" by (rule next_delivers [OF Cons.prems(1-3,5)])
  have "\<not> lk_bad ?l" using next_frame_inv [OF Cons.prems(1,2)] by (simp add: link_inv_def Let_def)
  then have "lk_reading ?l" using Cons.prems(4)
    by (auto simp: next_frame_def refuse_def Let_def split: sum.splits option.splits)
  moreover have "link_inv j ?l" by (rule next_frame_inv [OF Cons.prems(1,2)])
  ultimately obtain l' where "(link_step j turn)\<^sup>*\<^sup>* ?l l'" "lk_delivered l' = (lk_delivered l @ [m]) @ ms"
    using Cons.IH [of ?l] Cons.prems d by auto
  moreover have "link_step j turn l ?l" by (rule Next [OF Cons.prems(4)])
  ultimately show ?case by (intro exI [of _ l']) (simp add: converse_rtranclp_into_rtranclp)
qed auto

lemma link_flushes:
  assumes i: "link_inv j l" and c: "clean_goodbyes j" and t: "turn \<in> writer_turns j"
    and r: "wt_running (lk_writer l)" "lk_reading l"
    and s: "\<forall>m \<in> set (ch_queue (wt_queue (lk_writer l))). \<exists>f. sendable j m f"
  shows "\<exists>l'. (link_step j turn)\<^sup>*\<^sup>* l l' \<and> lk_delivered l' = lk_delivered l @ ff_pending (link_abs j l)"
proof -
  have wire: "on_wire j (lk_writer x) = ch_received (wt_queue (lk_writer x))" if "link_inv j x" "wt_running (lk_writer x)" for x
    using on_wire_cases [OF _ _ c, of "lk_writer x"] that by (auto simp: link_inv_def Let_def ch_history_def)
  obtain k where k: "(link_step j turn)\<^sup>*\<^sup>* l k" "ch_queue (wt_queue (lk_writer k)) = []" "wt_running (lk_writer k)"
    "ch_history (wt_queue (lk_writer k)) = ch_history (wt_queue (lk_writer l))" "lk_delivered k = lk_delivered l"
    "lk_reading k" using writer_flushes [OF t r(1) s] r(2) by auto
  have ik: "link_inv j k" using k(1)
    by (induction rule: rtranclp_induct) (auto simp: i intro: link_step_inv [OF _ t c])
  let ?a = "arrive (length (wt_out (lk_writer k))) k"
  have "lk_arrived k \<le> length (wt_out (lk_writer k))" using ik by (simp add: link_inv_def Let_def)
  then have "all_arrived ?a" "lk_reading ?a" "lk_writer ?a = lk_writer k" "lk_delivered ?a = lk_delivered l"
    using k(5,6) by (simp_all add: arrive_def all_arrived_def Let_def)
  note a = arrive_inv [OF ik, of "length (wt_out (lk_writer k))"] this
  have "on_wire j (lk_writer ?a) = ch_history (wt_queue (lk_writer l))"
    using wire [OF ik k(3)] k(2,4) a(4) by (simp add: ch_history_def)
  moreover have "ff_pending (link_abs j l) = drop (length (lk_delivered l)) (ch_history (wt_queue (lk_writer l)))"
    using wire [OF i r(1)] by (simp add: link_abs_def ch_history_def)
  moreover have "prefix (lk_delivered l) (on_wire j (lk_writer ?a))" using delivered_on_wire [OF a(1) c] a(5) by simp
  ultimately have "on_wire j (lk_writer ?a) = lk_delivered ?a @ ff_pending (link_abs j l)"
    using a(5) by (auto simp: prefix_def)
  from reader_flushes [OF a(1) c a(2,3) this] a(5) obtain l' where
    "(link_step j turn)\<^sup>*\<^sup>* ?a l'" "lk_delivered l' = lk_delivered l @ ff_pending (link_abs j l)" by auto
  moreover have "link_step j turn k ?a" by (rule Arrives [OF k(6)])
  ultimately show ?thesis using k(1) by (meson converse_rtranclp_into_rtranclp rtranclp_trans)
qed

section \<open>Properties\<close>

text \<open>
  C4 --- A control connection is a queue. However the writer task of either side, the network and
  the reader interleave, in whatever pieces the bytes arrive and wherever a write fails or the task
  is stopped, every run is one of an abstract queue that delivers in order, may lose its end once,
  when the writer stops, and may then end with one Close message; the reader never meets a bad frame. And
  nothing gets stuck: while both tasks run, all that is pending can still be delivered. The messages
  are such as \<open>serde_json\<close> parses back to what it printed.
\<close>

theorem control_link_is_fifo:
  assumes "(link_step j turn)\<^sup>*\<^sup>* (link_new depth) l" and "turn \<in> writer_turns j" and "clean_goodbyes j"
  shows "fifo_step\<^sup>*\<^sup>* fifo_new (link_abs j l) \<and> \<not> lk_bad l \<and>
    (wt_running (lk_writer l) \<and> lk_reading l \<and>
       (\<forall>m \<in> set (ch_queue (wt_queue (lk_writer l))). \<exists>f. sendable j m f) \<longrightarrow>
     (\<exists>l'. (link_step j turn)\<^sup>*\<^sup>* l l' \<and> lk_delivered l' = lk_delivered l @ ff_pending (link_abs j l)))"
  using link_run [OF assms] link_flushes [OF _ assms(3,2)] by (auto simp: link_inv_def Let_def)

theorem control_link_is_fifo_witness:
  "\<exists>l. lk_delivered l = [Heartbeat 7] \<and>
     (link_step demo_close_json (client_writer_turn demo_close_json))\<^sup>*\<^sup>* (link_new 256) l"
proof -
  let ?j = demo_close_json and ?turn = "client_writer_turn demo_close_json"
  let ?l = "(link_new 256)\<lparr>lk_writer := ?turn (Offered (Heartbeat 7)) (lk_writer (link_new 256))\<rparr>"
  have ok: "json_inverse ?j (Heartbeat 7)"
    using demo_json_heartbeat [of 7] by (simp add: demo_close_json_def)
  have "link_step ?j ?turn (link_new 256) ?l"
    by (rule WriterTurn) (use ok in \<open>auto simp: link_new_def writer_new_def simp del: json_inverse.simps\<close>)
  then have run: "(link_step ?j ?turn)\<^sup>*\<^sup>* (link_new 256) ?l" by (rule r_into_rtranclp)
  have clean: "clean_goodbyes ?j"
    by (simp add: clean_goodbyes_def demo_close_json_def unwrap_or_def comp_def)
  have t: "?turn \<in> writer_turns ?j" by (simp add: writer_turns_def)
  have l: "wt_running (lk_writer ?l)" "lk_reading ?l" "lk_delivered ?l = []"
    "ch_queue (wt_queue (lk_writer ?l)) = [Heartbeat 7]" "wt_out (lk_writer ?l) = []"
    by (simp_all add: link_new_def writer_new_def chan_new_def client_writer_turn_def offer_def try_send_def)
  obtain f where f: "to_frame ?j (Heartbeat 7) = Inr f"
    by (simp add: to_frame_def demo_close_json_def demo_json_def ts_ser_def)
  then have "sendable ?j (Heartbeat 7) f"
    by (auto simp: sendable_def frame_ok_def to_frame_def demo_close_json_def demo_json_def ts_ser_def frame_new_def
        FRAME_MAX_PAYLOAD_def show_nat.simps)
  then obtain l' where "(link_step ?j ?turn)\<^sup>*\<^sup>* ?l l'" "lk_delivered l' = ff_pending (link_abs ?j ?l)"
    using control_link_is_fifo [OF run t clean] l by auto
  moreover have "ff_pending (link_abs ?j ?l) = [Heartbeat 7]"
    using l by (simp add: link_abs_def on_wire_def peer_reads_def)
  ultimately show ?thesis using run by (metis rtranclp_trans)
qed

end
