(* ===== verification/UdpPath.thy ===== *)
theory UdpPath
  imports UdpProxy WorkConn "HOL-Library.Sublist"
begin

text \<open>
  The way of a datagram from a user to the local service and back: the listener, the pending and the
  session tables, the queue of the session and the loop of the work connection on the server
  (\<open>rfrps/src/udp.rs\<close>), the framing on the stream (\<open>util/udp.rs\<close>) and the bridge of the client
  (\<open>rfrpc/src/workconn.rs\<close>), while all other sessions of the proxy go on.
\<close>

section \<open>Reading a stream that may be cut off\<close>

lemma read_batch_cut:
  assumes "list_all udp_ok ds" and "buf @ concat (map chunk_bytes s) @ t = concat (map udp_wire ds)"
  shows "(\<exists>k b' s'. read_batch limit buf s = (Inr (take k ds), b', s') \<and> k \<le> limit \<and>
      b' @ concat (map chunk_bytes s') @ t = concat (map udp_wire (drop k ds))) \<or>
    (\<exists>e b' s'. read_batch limit buf s = (Inl e, b', s'))"
  using assms(2)
proof (induction s arbitrary: buf)
  case Nil
  obtain xs r e where d: "drain udp_decode limit buf = (xs, r, e)" by (metis surj_pair)
  from uf.drain_prefix [OF d, of t ds] Nil assms(1) have p: "e = None" "xs = take (length xs) ds"
    "r @ t = concat (map udp_wire (drop (length xs) ds))" by auto
  from d p drain_length_le [OF d] show ?case
    by (cases "xs = []") (auto simp: read_batch.simps intro!: exI [of _ "length xs"])
next
  case (Cons c s)
  obtain xs r e where d: "drain udp_decode limit buf = (xs, r, e)" by (metis surj_pair)
  from uf.drain_prefix [OF d _ assms(1)] Cons.prems have p: "e = None" "xs = take (length xs) ds"
    "r @ concat (map chunk_bytes (c # s)) @ t = concat (map udp_wire (drop (length xs) ds))" by blast+
  show ?case
  proof (cases "xs = []")
    case False
    with d p drain_length_le [OF d] show ?thesis
      by (intro disjI1 exI [of _ "length xs"]) (auto simp: read_batch.simps [of limit buf])
  next
    case True
    show ?thesis
    proof (cases "\<exists>b. c = Data b \<and> b \<noteq> []")
      case more: True
      then obtain b where c: "c = Data b" "b \<noteq> []" by blast
      with True p(3) have "(r @ b) @ concat (map chunk_bytes s) @ t = concat (map udp_wire ds)" by simp
      from Cons.IH [OF this] d p True c show ?thesis by (simp add: read_batch.simps [of limit buf])
    next
      case False
      with d p True show ?thesis
        by (cases c) (auto simp: read_batch.simps [of limit buf] intro!: exI [of _ 0])
    qed
  qed
qed

section \<open>The client's end\<close>

definition bridge_new :: "chunk list \<Rightarrow> bridge_state" where
  "bridge_new inp = \<lparr>ub_buf = [], ub_in = inp, ub_local_sent = [], ub_written = []\<rparr>"

definition client_inv :: "bytes list \<Rightarrow> bridge_state \<Rightarrow> bool" where
  "client_inv ds b \<longleftrightarrow>
     (\<exists>k t rest. subseq (ub_local_sent b) (take k ds) \<and> rest = drop k ds \<and> list_all udp_ok rest \<and>
        ub_buf b @ concat (map chunk_bytes (ub_in b)) @ t = concat (map udp_wire rest))"

lemma client_inv_sent: "client_inv ds b \<Longrightarrow> subseq (ub_local_sent b) ds"
proof -
  have "subseq (take k ds) ds" for k :: nat by (metis append_take_drop_id subseq_rev_drop_many subseq_order.refl)
  then show "client_inv ds b \<Longrightarrow> ?thesis" unfolding client_inv_def using subseq_order.trans by blast
qed

lemma bridge_turn_client:
  assumes "client_inv ds b" "udp_bridge_turn ev b = (go, b')"
  shows "subseq (ub_local_sent b') ds \<and> (go \<longrightarrow> client_inv ds b')"
proof (cases ev)
  case (LocalReadable first others ok)
  with assms have "ub_local_sent b' = ub_local_sent b" "ub_buf b' = ub_buf b" "ub_in b' = ub_in b"
    by (auto simp: udp_bridge_turn_def split: sum.splits if_splits)
  with assms(1) client_inv_sent [OF assms(1)] show ?thesis by (simp add: client_inv_def)
next
  case (WorkReadable n)
  from assms(1) obtain k t where s: "subseq (ub_local_sent b) (take k ds)" and ok: "list_all udp_ok (drop k ds)"
    and w: "ub_buf b @ concat (map chunk_bytes (ub_in b)) @ t = concat (map udp_wire (drop k ds))"
    by (auto simp: client_inv_def)
  from read_batch_cut [OF ok w, of UDP_READ_BATCH] consider
    e buf inp where "read_batch UDP_READ_BATCH (ub_buf b) (ub_in b) = (Inl e, buf, inp)"
    | l buf inp where "read_batch UDP_READ_BATCH (ub_buf b) (ub_in b) = (Inr (take l (drop k ds)), buf, inp)"
        "buf @ concat (map chunk_bytes inp) @ t = concat (map udp_wire (drop l (drop k ds)))" by blast
  then show ?thesis
  proof cases
    case 1
    with assms(2) WorkReadable client_inv_sent [OF assms(1)] show ?thesis by (auto simp: udp_bridge_turn_def)
  next
    case 2
    have "subseq (take n (take l (drop k ds))) (take l (drop k ds))"
      by (metis append_take_drop_id subseq_rev_drop_many subseq_order.refl)
    with s have "subseq (ub_local_sent b @ take n (take l (drop k ds))) (take k ds @ take l (drop k ds))"
      by (intro list_emb_append_mono)
    moreover have "take k ds @ take l (drop k ds) = take (k + l) ds" by (simp add: take_add)
    moreover have "list_all udp_ok (drop (k + l) ds)"
      using ok by (metis add.commute append_take_drop_id drop_drop list_all_append)
    ultimately have "client_inv ds (b\<lparr>ub_buf := buf, ub_in := inp,
        ub_local_sent := ub_local_sent b @ take n (take l (drop k ds))\<rparr>)"
      using 2(2) by (auto simp: client_inv_def add.commute intro!: exI [of _ "k + l"])
    with assms(2) WorkReadable 2(1) client_inv_sent [OF assms(1)] show ?thesis
      by (auto simp: udp_bridge_turn_def Let_def dest: client_inv_sent split: if_splits)
  qed
qed

lemma bridge_client: "client_inv ds b \<Longrightarrow> subseq (ub_local_sent (udp_bridge evs b)) ds"
proof (induction evs arbitrary: b)
  case (Cons ev evs)
  obtain go b' where t: "udp_bridge_turn ev b = (go, b')" by fastforce
  from bridge_turn_client [OF Cons.prems t] Cons.IH [of b'] t show ?case by (cases go) auto
qed (simp add: client_inv_sent)

section \<open>The path\<close>

record udp_path =
  pt_sys :: udp_sys
  pt_got :: "(socket_addr \<times> bytes) list"  \<comment> \<open>what the listener received\<close>
  pt_stream :: "nat \<Rightarrow> bytes"  \<comment> \<open>written to the work connection that serves this queue\<close>
  pt_buf :: "nat \<Rightarrow> bytes"
  pt_in :: "nat \<Rightarrow> chunk list"  \<comment> \<open>what that connection still brings\<close>
  pt_user :: "nat \<Rightarrow> bytes list"  \<comment> \<open>sent to the user\<close>
  pt_over :: "nat set"  \<comment> \<open>the loop of this queue has ended\<close>

definition path_start :: "duration \<Rightarrow> metrics \<Rightarrow> u64 \<Rightarrow> (nat \<Rightarrow> chunk list) \<Rightarrow> udp_path" where
  "path_start session_timeout m w inp =
     \<lparr>pt_sys = udp_start session_timeout m w, pt_got = [], pt_stream = (\<lambda>_. []), pt_buf = (\<lambda>_. []),
      pt_in = inp, pt_user = (\<lambda>_. []), pt_over = {}\<rparr>"

definition turn_writes :: "conn_event \<Rightarrow> bytes chan \<Rightarrow> bytes \<Rightarrow> bool" where
  \<comment> \<open>what a turn puts on the stream; a write that fails may have got some of it out\<close>
  "turn_writes ev ch w \<longleftrightarrow>
     (case ev of
        RxReady ok \<Rightarrow>
          let batch = fst (recv_many UDP_WRITE_BATCH ch); whole = write_udp_frames_buffered [] batch in
          if ok then whole = Inr w
          else (case whole of Inl e \<Rightarrow> w = [] | Inr b \<Rightarrow> prefix w b)
      | _ \<Rightarrow> w = [])"

definition turn_reads :: "conn_event \<Rightarrow> bytes \<times> chunk list \<Rightarrow> bytes \<times> chunk list \<Rightarrow> bool" where
  "turn_reads ev old new \<longleftrightarrow>
     (case ev of
        StreamReady r \<Rightarrow> read_batch UDP_READ_BATCH (fst old) (snd old) = (r, fst new, snd new)
      | _ \<Rightarrow> new = old)"

inductive path_step :: "udp_path \<Rightarrow> udp_path \<Rightarrow> bool" where
  Receive: "y_work_id (pt_sys x) \<noteq> - 1 \<Longrightarrow>
     handle_datagram peer data now (y_proxy (pt_sys x), y_metrics (pt_sys x), y_work_id (pt_sys x)) = ((p, m, w), r) \<Longrightarrow>
     path_step x (x\<lparr>pt_sys := (pt_sys x)\<lparr>y_proxy := p, y_metrics := m, y_work_id := w\<rparr>,
                    pt_got := pt_got x @ [(peer, data)]\<rparr>)"
| Tables: "udp_table_step (pt_sys x) s \<Longrightarrow> path_step x (x\<lparr>pt_sys := s\<rparr>)"
| Turn: "(client, c) \<in> set (y_conns (pt_sys x)) \<Longrightarrow> c \<notin> pt_over x \<Longrightarrow>
     turn_writes ev (up_chans (y_proxy (pt_sys x)) c) out \<Longrightarrow>
     turn_reads ev (pt_buf x c, pt_in x c) (buf, inp) \<Longrightarrow>
     conn_turn client c now ev (y_proxy (pt_sys x), y_metrics (pt_sys x)) = ((p, m), up, down, go) \<Longrightarrow>
     path_step x (x\<lparr>pt_sys := (if go then (pt_sys x)\<lparr>y_proxy := p, y_metrics := m\<rparr>
                      else (pt_sys x)\<lparr>y_proxy := conn_end client c p, y_metrics := m,
                             y_conns := remove1 (client, c) (y_conns (pt_sys x))\<rparr>),
                    pt_stream := (pt_stream x)(c := pt_stream x c @ out),
                    pt_buf := (pt_buf x)(c := buf), pt_in := (pt_in x)(c := inp),
                    pt_user := (pt_user x)(c := pt_user x c @ down),
                    pt_over := (if go then pt_over x else insert c (pt_over x))\<rparr>)"

lemma path_step_is_udp_step: "path_step x y \<Longrightarrow> udp_step (pt_sys x) (pt_sys y)"
proof (induction rule: path_step.induct)
  case (Turn client c x ev out buf inp now p m up down go)
  then show ?case by (cases go) (auto intro: udp_step.Turn udp_step.ConnEnd)
qed (auto intro: udp_step.Datagram udp_step.Tables)

section \<open>Whose queue it is\<close>

definition proxy_owners :: "udp_proxy \<Rightarrow> (socket_addr \<times> nat) set" where
  "proxy_owners p =
     (\<lambda>(a, u). (a, us_chan u)) ` set (up_sessions p) \<union>
     (\<lambda>(wk, pd). (pu_client pd, pu_chan pd)) ` set (up_pending_by_id p)"

definition owners :: "udp_sys \<Rightarrow> (socket_addr \<times> nat) set" where
  "owners s = proxy_owners (y_proxy s) \<union> (\<lambda>(wk, pd). (pu_client pd, pu_chan pd)) ` set (y_removing s) \<union>
     set (y_conns s)"

lemma set_hm_insert: "set (hm_insert k v m) \<subseteq> insert (k, v) (set m)"
  unfolding hm_insert_def by (induction m) auto

lemma set_hm_remove: "set (hm_remove k m) \<subseteq> set m"
  by (auto simp: hm_remove_def AList.delete_eq)

lemma hm_get_mem: "hm_get m k = Some v \<Longrightarrow> (k, v) \<in> set m"
  by (simp add: hm_get_def map_of_SomeD)

lemma touched_owner:
  assumes "hm_get (up_sessions p) a = Some u" "us_chan u' = us_chan u"
  shows "proxy_owners (p\<lparr>up_sessions := hm_insert a u' (up_sessions p)\<rparr>) \<subseteq> proxy_owners p"
proof -
  have "(a, us_chan u') \<in> proxy_owners p"
    using hm_get_mem [OF assms(1)] assms(2) by (force simp: proxy_owners_def)
  then show ?thesis using set_hm_insert [of a u' "up_sessions p"] by (force simp: proxy_owners_def)
qed

lemma touch_session_owners: "proxy_owners (touch_session a now p) \<subseteq> proxy_owners p"
  using touched_owner [of p a] by (auto simp: touch_session_def hm_update_def split: option.splits)

lemma owners_frame:
  "proxy_owners (sweep_sessions now p) \<subseteq> proxy_owners p" "proxy_owners (close_at c p) = proxy_owners p"
  "proxy_owners (forget_client wk pd p) = proxy_owners p"
  by (auto simp: proxy_owners_def sweep_sessions_def hm_retain_def close_at_def forget_client_def)

lemma conn_end_owners: "proxy_owners (conn_end cl c p) \<subseteq> proxy_owners p"
  using set_hm_remove [of cl "up_sessions p"] by (auto simp: proxy_owners_def conn_end_def close_at_def)

lemma take_by_id_owners: "proxy_owners (snd (take_by_id wk p)) \<subseteq> proxy_owners p"
  using set_hm_remove [of wk "up_pending_by_id p"] by (auto simp: proxy_owners_def take_by_id_def)

lemma register_session_owners: "proxy_owners (register_session cl c now p) \<subseteq> insert (cl, c) (proxy_owners p)"
  using image_mono [OF set_hm_insert [of cl "\<lparr>us_chan = c, us_last_active = now\<rparr>" "up_sessions p"],
      of "\<lambda>(a, u). (a, us_chan u)"]
  by (auto simp: proxy_owners_def register_session_def)

lemma deliver_flow:
  "proxy_owners (fst (deliver c data (p, m))) = proxy_owners p"
  "up_next_chan (fst (deliver c data (p, m))) = up_next_chan p"
  "up_chans (fst (deliver c data (p, m))) = (up_chans p)(c := snd (try_send data (up_chans p c)))"
  by (simp_all add: deliver_def proxy_owners_def Let_def case_prod_beta)

definition queued :: "socket_addr \<Rightarrow> bytes \<Rightarrow> udp_proxy \<Rightarrow> udp_proxy \<Rightarrow> bool" where
  \<comment> \<open>what a datagram does to the queues: nothing, or it goes to one of its sender, old or new\<close>
  "queued peer data p p' \<longleftrightarrow>
     (up_next_chan p' = up_next_chan p \<and> proxy_owners p' \<subseteq> proxy_owners p \<and>
       (up_chans p' = up_chans p \<or>
        (\<exists>c. (peer, c) \<in> proxy_owners p \<and> up_chans p' = (up_chans p)(c := snd (try_send data (up_chans p c)))))) \<or>
     (up_next_chan p' = up_next_chan p + 1 \<and> proxy_owners p' \<subseteq> insert (peer, up_next_chan p) (proxy_owners p) \<and>
       up_chans p' = (up_chans p)(up_next_chan p := snd (try_send data (chan_new UDP_SESSION_QUEUE_DEPTH))))"

lemma handle_datagram_queued:
  assumes inv: "pend_inv (up_pending_by_id p) (up_pending_client p) w0 rem"
    and h: "handle_datagram peer data now (p, m, w) = ((p', m', w'), r)"
  shows "queued peer data p p'"
proof (cases "hm_get (up_sessions p) peer")
  case (Some s)
  let ?p = "p\<lparr>up_sessions := hm_insert peer (s\<lparr>us_last_active := now\<rparr>) (up_sessions p)\<rparr>"
  from Some h have "p' = fst (deliver (us_chan s) data (?p, add_bytes_up (length data) m))"
    by (auto simp: handle_datagram_def Let_def case_prod_beta)
  moreover have "(peer, us_chan s) \<in> proxy_owners p" using hm_get_mem [OF Some] by (force simp: proxy_owners_def)
  moreover have "proxy_owners ?p \<subseteq> proxy_owners p" by (rule touched_owner [OF Some]) simp
  ultimately show ?thesis by (auto simp: queued_def deliver_flow)
next
  case None
  note s = None
  show ?thesis
  proof (cases "hm_get (up_pending_client p) peer")
    case (Some wk)
    show ?thesis
    proof (cases "hm_get (up_pending_by_id p) wk")
      case pd: (Some pd)
      with s Some h have "p' = fst (deliver (pu_chan pd) data (p, m))"
        by (auto simp: handle_datagram_def Let_def case_prod_beta)
      moreover have "pu_client pd = peer"
        using pend_invD(5) [OF inv Some] pend_invD(6) [OF inv] pd by fastforce
      then have "(peer, pu_chan pd) \<in> proxy_owners p" using hm_get_mem [OF pd] by (force simp: proxy_owners_def)
      ultimately show ?thesis by (auto simp: queued_def deliver_flow)
    qed (use s Some h in \<open>auto simp: handle_datagram_def queued_def\<close>)
  next
    case None
    show ?thesis
    proof (cases "MAX_PENDING_UDP_SESSIONS \<le> hm_len (up_pending_by_id p)")
      case False
      with s None h have n: "new_pending peer data now (p, m, w) = ((p', m', w'), r)"
        by (simp add: handle_datagram_def Let_def)
      have "proxy_owners p' \<subseteq> insert (peer, up_next_chan p) (proxy_owners p)"
        using n set_hm_insert [of "w + 1" "\<lparr>pu_client = peer, pu_chan = up_next_chan p, pu_created = now\<rparr>"
            "up_pending_by_id p"]
        by (force simp: new_pending_def proxy_owners_def Let_def case_prod_beta)
      with n show ?thesis by (auto simp: queued_def new_pending_def Let_def case_prod_beta)
    qed (use s None h in \<open>auto simp: handle_datagram_def queued_def Let_def\<close>)
  qed
qed

definition sent_by :: "socket_addr \<Rightarrow> (socket_addr \<times> bytes) list \<Rightarrow> bytes list" where
  "sent_by a got = map snd (filter (\<lambda>d. fst d = a) got)"

definition stream_ok :: "bytes \<Rightarrow> bool \<Rightarrow> bytes list \<Rightarrow> bool" where
  \<comment> \<open>frames of some of the datagrams taken, whole unless the loop has ended\<close>
  "stream_ok str over taken \<longleftrightarrow>
     (\<exists>outs t. str @ t = concat (map udp_wire outs) \<and> list_all udp_ok outs \<and> subseq outs taken \<and>
        (over \<or> t = []))"

definition flow_inv :: "(nat \<Rightarrow> socket_addr) \<Rightarrow> udp_path \<Rightarrow> bool" where
  "flow_inv own x \<longleftrightarrow>
     (let s = pt_sys x; p = y_proxy s in
      udp_inv s \<and> (\<forall>(a, c) \<in> owners s. c < up_next_chan p \<and> own c = a) \<and>
      (\<forall>c < up_next_chan p. subseq (ch_history (up_chans p c)) (sent_by (own c) (pt_got x))) \<and>
      (\<forall>c. stream_ok (pt_stream x c) (c \<in> pt_over x) (ch_received (up_chans p c))) \<and>
      (\<forall>c \<ge> up_next_chan p. pt_stream x c = []))"

lemma flow_invD:
  assumes "flow_inv own x"
  shows "udp_inv (pt_sys x)" "(a, c) \<in> owners (pt_sys x) \<Longrightarrow> c < up_next_chan (y_proxy (pt_sys x))"
    "(a, c) \<in> owners (pt_sys x) \<Longrightarrow> own c = a"
    "c < up_next_chan (y_proxy (pt_sys x)) \<Longrightarrow>
       subseq (ch_history (up_chans (y_proxy (pt_sys x)) c)) (sent_by (own c) (pt_got x))"
    "stream_ok (pt_stream x c) (c \<in> pt_over x) (ch_received (up_chans (y_proxy (pt_sys x)) c))"
    "up_next_chan (y_proxy (pt_sys x)) \<le> c \<Longrightarrow> pt_stream x c = []"
  using assms unfolding flow_inv_def Let_def by blast+

lemma flow_invI:
  assumes "udp_inv (pt_sys x)"
    "\<And>a c. (a, c) \<in> owners (pt_sys x) \<Longrightarrow> c < up_next_chan (y_proxy (pt_sys x)) \<and> own c = a"
    "\<And>c. c < up_next_chan (y_proxy (pt_sys x)) \<Longrightarrow>
       subseq (ch_history (up_chans (y_proxy (pt_sys x)) c)) (sent_by (own c) (pt_got x))"
    "\<And>c. stream_ok (pt_stream x c) (c \<in> pt_over x) (ch_received (up_chans (y_proxy (pt_sys x)) c))"
    "\<And>c. up_next_chan (y_proxy (pt_sys x)) \<le> c \<Longrightarrow> pt_stream x c = []"
  shows "flow_inv own x"
  using assms unfolding flow_inv_def Let_def by blast

lemma stream_ok_Nil [simp]: "stream_ok [] over taken"
  by (auto simp: stream_ok_def intro!: exI [of _ "[]"])

lemma stream_ok_mono: "stream_ok str over taken \<Longrightarrow> subseq taken taken' \<Longrightarrow> stream_ok str over taken'"
  unfolding stream_ok_def using subseq_order.trans by blast

lemma sent_by_snoc: "sent_by a (got @ [(b, d)]) = sent_by a got @ (if b = a then [d] else [])"
  by (simp add: sent_by_def)

lemma try_send_received [simp]: "ch_received (snd (try_send m c)) = ch_received c"
  by (simp add: try_send_def)

lemma table_step_flow:
  assumes "udp_table_step s s'"
  shows "owners s' \<subseteq> owners s \<and> up_next_chan (y_proxy s') = up_next_chan (y_proxy s) \<and>
    (\<forall>c. ch_received (up_chans (y_proxy s') c) = ch_received (up_chans (y_proxy s) c) \<and>
       subseq (ch_history (up_chans (y_proxy s') c)) (ch_history (up_chans (y_proxy s) c)))"
  using assms
proof (induction rule: udp_table_step.induct)
  case (Take wk s pd p)
  then have p: "p = snd (take_by_id wk (y_proxy s))" and "hm_get (up_pending_by_id (y_proxy s)) wk = Some pd"
    by (simp_all add: take_by_id_def)
  then have "(pu_client pd, pu_chan pd) \<in> proxy_owners (y_proxy s)"
    using hm_get_mem by (force simp: proxy_owners_def)
  moreover have "up_next_chan p = up_next_chan (y_proxy s)" "up_chans p = up_chans (y_proxy s)"
    by (simp_all add: p take_by_id_def)
  moreover have "proxy_owners p \<subseteq> proxy_owners (y_proxy s)" unfolding p by (rule take_by_id_owners)
  ultimately show ?case by (auto simp: owners_def)
next
  case (Expire wk pd s)
  have "set (remove1 (wk, pd) (y_removing s)) \<subseteq> set (y_removing s)" by (rule set_remove1_subset)
  then show ?case
    by (auto simp: owners_def owners_frame)
      (auto simp: close_at_def close_chan_def ch_history_def forget_client_def)
next
  case (Pair wk pd s now)
  let ?p = "register_session (pu_client pd) (pu_chan pd) now (forget_client wk pd (y_proxy s))"
  let ?f = "\<lambda>(wk :: u64, pd). (pu_client pd, pu_chan pd)"
  have "?f ` set (remove1 (wk, pd) (y_removing s)) \<subseteq> ?f ` set (y_removing s)"
    by (rule image_mono [OF set_remove1_subset])
  moreover have "(pu_client pd, pu_chan pd) \<in> ?f ` set (y_removing s)" using Pair by force
  moreover have "up_next_chan ?p = up_next_chan (y_proxy s)" "up_chans ?p = up_chans (y_proxy s)"
    by (simp_all add: register_session_def forget_client_def)
  moreover have "proxy_owners ?p \<subseteq> insert (pu_client pd, pu_chan pd) (proxy_owners (y_proxy s))"
    using register_session_owners [of "pu_client pd" "pu_chan pd" now "forget_client wk pd (y_proxy s)"]
    by (simp add: owners_frame)
  ultimately show ?case by (simp add: owners_def) blast
next
  case (SweepSessions s now)
  then show ?case using owners_frame(1) [of now "y_proxy s"] by (auto simp: owners_def sweep_sessions_def)
qed (auto simp: owners_def)

lemma table_step_inv:
  assumes "flow_inv own x" "udp_table_step (pt_sys x) s'"
  shows "flow_inv own (x\<lparr>pt_sys := s'\<rparr>)"
proof (rule flow_invI)
  note f = table_step_flow [OF assms(2)] and d = flow_invD [OF assms(1)]
  show "udp_inv (pt_sys (x\<lparr>pt_sys := s'\<rparr>))" using udp_table_keeps [OF assms(2) d(1)] by simp
  fix a c
  show "(a, c) \<in> owners (pt_sys (x\<lparr>pt_sys := s'\<rparr>)) \<Longrightarrow>
      c < up_next_chan (y_proxy (pt_sys (x\<lparr>pt_sys := s'\<rparr>))) \<and> own c = a"
    using f d(2,3) [of a c] by auto
  show "c < up_next_chan (y_proxy (pt_sys (x\<lparr>pt_sys := s'\<rparr>))) \<Longrightarrow>
      subseq (ch_history (up_chans (y_proxy (pt_sys (x\<lparr>pt_sys := s'\<rparr>))) c))
        (sent_by (own c) (pt_got (x\<lparr>pt_sys := s'\<rparr>)))"
    using f d(4) [of c] subseq_order.trans [of "ch_history (up_chans (y_proxy s') c)"] by auto
qed (use table_step_flow [OF assms(2)] flow_invD(5,6) [OF assms(1)] in simp_all)

lemma sent_by_more: "subseq xs (sent_by a got) \<Longrightarrow> subseq xs (sent_by a (got @ [d]))"
  using subseq_order.trans by (cases d) (fastforce simp: sent_by_snoc)

lemma receive_inv:
  assumes i: "flow_inv own x" and w: "y_work_id (pt_sys x) \<noteq> - 1"
    and h: "handle_datagram peer data now (y_proxy (pt_sys x), y_metrics (pt_sys x), y_work_id (pt_sys x)) = ((p, m, w), r)"
  defines "y \<equiv> x\<lparr>pt_sys := (pt_sys x)\<lparr>y_proxy := p, y_metrics := m, y_work_id := w\<rparr>, pt_got := pt_got x @ [(peer, data)]\<rparr>"
  shows "\<exists>own'. flow_inv own' y \<and> (\<forall>c < up_next_chan (y_proxy (pt_sys x)). own' c = own c)"
proof -
  let ?p = "y_proxy (pt_sys x)"
  have u: "udp_inv (pt_sys y)"
    using i udp_step_keeps [OF udp_step.Datagram [OF w h]] by (simp add: flow_inv_def Let_def y_def)
  have "pend_inv (up_pending_by_id ?p) (up_pending_client ?p) (y_work_id (pt_sys x)) (y_removing (pt_sys x))"
    using i by (simp add: flow_inv_def udp_inv_def Let_def)
  from handle_datagram_queued [OF this h] consider
    (old) "up_next_chan p = up_next_chan ?p" "proxy_owners p \<subseteq> proxy_owners ?p"
      "up_chans p = up_chans ?p \<or>
        (\<exists>c. (peer, c) \<in> proxy_owners ?p \<and> up_chans p = (up_chans ?p)(c := snd (try_send data (up_chans ?p c))))"
    | (fresh) "up_next_chan p = up_next_chan ?p + 1" "proxy_owners p \<subseteq> insert (peer, up_next_chan ?p) (proxy_owners ?p)"
      "up_chans p = (up_chans ?p)(up_next_chan ?p := snd (try_send data (chan_new UDP_SESSION_QUEUE_DEPTH)))"
    unfolding queued_def by blast
  then show ?thesis
  proof cases
    case old
    have r: "ch_received (up_chans p c) = ch_received (up_chans ?p c)" for c using old(3) by auto
    have hist: "subseq (ch_history (up_chans p c)) (sent_by (own c) (pt_got x @ [(peer, data)]))"
      if "c < up_next_chan ?p" for c
    proof -
      have s: "subseq (ch_history (up_chans ?p c)) (sent_by (own c) (pt_got x))"
        using i that by (simp add: flow_inv_def Let_def)
      show ?thesis
      proof (cases "(peer, c) \<in> proxy_owners ?p \<and> up_chans p c = snd (try_send data (up_chans ?p c))")
        case True
        then have "own c = peer" using i by (auto simp: flow_inv_def owners_def Let_def)
        then show ?thesis using s True
          by (auto simp: try_send_history sent_by_snoc intro: list_emb_append_mono subseq_order.trans)
      next
        case False
        with old(3) have "up_chans p c = up_chans ?p c" by auto
        with sent_by_more [OF s] show ?thesis by simp
      qed
    qed
    have "owners (pt_sys y) \<subseteq> owners (pt_sys x)" using old(2) by (auto simp: owners_def y_def)
    moreover have "\<forall>(a, c) \<in> owners (pt_sys x). c < up_next_chan ?p \<and> own c = a"
      using i by (simp add: flow_inv_def Let_def)
    ultimately have own: "\<forall>(a, c) \<in> owners (pt_sys y). c < up_next_chan ?p \<and> own c = a" by blast
    have "flow_inv own y"
      using i u own hist by (simp add: flow_inv_def Let_def y_def r old(1))
    then show ?thesis by blast
  next
    case fresh
    let ?n = "up_next_chan ?p" and ?own = "own(up_next_chan ?p := peer)"
    have "ch_history (up_chans p ?n) = [] \<or> ch_history (up_chans p ?n) = [data]"
      using try_send_history [of data "chan_new UDP_SESSION_QUEUE_DEPTH"]
      by (simp add: fresh(3) ch_history_def chan_new_def)
    then have "subseq (ch_history (up_chans p ?n)) (sent_by peer (pt_got x @ [(peer, data)]))"
      by (auto simp: sent_by_snoc)
    moreover have "subseq (ch_history (up_chans p c)) (sent_by (own c) (pt_got x @ [(peer, data)]))" if "c < ?n" for c
      using i that sent_by_more by (simp add: flow_inv_def Let_def fresh(3))
    ultimately have hist: "\<forall>c < up_next_chan p. subseq (ch_history (up_chans p c)) (sent_by (?own c) (pt_got x @ [(peer, data)]))"
      by (auto simp: fresh(1) less_Suc_eq)
    have str: "stream_ok (pt_stream x c) (c \<in> pt_over x) (ch_received (up_chans p c))" for c
      using flow_invD(5,6) [OF i, of c] by (cases "c = ?n") (simp_all add: fresh(3))
    have "owners (pt_sys y) \<subseteq> insert (peer, ?n) (owners (pt_sys x))"
      using fresh(2) by (auto simp: owners_def y_def)
    then have own: "\<forall>(a, c) \<in> owners (pt_sys y). c < up_next_chan p \<and> ?own c = a"
      using flow_invD(2,3) [OF i] by (fastforce simp: fresh(1))
    have "flow_inv ?own y"
      using i u hist str own by (simp add: flow_inv_def Let_def y_def fresh(1))
    then show ?thesis by (intro exI [of _ ?own]) simp
  qed
qed

lemma touch_session_frame [simp]:
  "up_chans (touch_session a now p) = up_chans p" "up_next_chan (touch_session a now p) = up_next_chan p"
  by (simp_all add: touch_session_def)

lemma proxy_owners_chans [simp]:
  "proxy_owners (p\<lparr>up_chans := cs\<rparr>) = proxy_owners p" "proxy_owners (p\<lparr>up_packet_pool := pool\<rparr>) = proxy_owners p"
  by (simp_all add: proxy_owners_def)

lemma conn_turn_flow:
  assumes "conn_turn client c now ev (p, m) = ((p', m'), up, down, go)"
  shows "proxy_owners p' \<subseteq> proxy_owners p" "up_next_chan p' = up_next_chan p"
    "up_chans p' = (case ev of RxReady ok \<Rightarrow> (up_chans p)(c := snd (recv_many UDP_WRITE_BATCH (up_chans p c)))
       | _ \<Rightarrow> up_chans p)"
    "ev = RxReady False \<Longrightarrow> \<not> go"
proof -
  have t: "proxy_owners (touch_session client now (p\<lparr>up_chans := cs\<rparr>)) \<subseteq> proxy_owners p" for cs
    using touch_session_owners [of client now "p\<lparr>up_chans := cs\<rparr>"] by simp
  show "proxy_owners p' \<subseteq> proxy_owners p"
    using assms
    by (cases ev) (auto simp: conn_turn_def Let_def case_prod_beta split: sum.splits if_splits
        dest: subsetD [OF t] subsetD [OF touch_session_owners])
  show "up_next_chan p' = up_next_chan p" "ev = RxReady False \<Longrightarrow> \<not> go"
    "up_chans p' = (case ev of RxReady ok \<Rightarrow> (up_chans p)(c := snd (recv_many UDP_WRITE_BATCH (up_chans p c)))
       | _ \<Rightarrow> up_chans p)"
    using assms by (cases ev; auto simp: conn_turn_def Let_def case_prod_beta split: sum.splits if_splits)+
qed

lemma closed_chan_prefix: "prefix (ch_history (close_chan ch)) (ch_history ch)"
  by (simp add: ch_history_def close_chan_def)

lemma stream_grows:
  assumes "stream_ok str False taken" "turn_writes ev ch out"
  shows "stream_ok (str @ out) (ev = RxReady False)
    (taken @ (case ev of RxReady ok \<Rightarrow> fst (recv_many UDP_WRITE_BATCH ch) | _ \<Rightarrow> []))"
proof (cases "\<exists>ok. ev = RxReady ok")
  case False
  with assms show ?thesis by (cases ev) (auto simp: turn_writes_def)
next
  case True
  then obtain ok where ev: "ev = RxReady ok" by blast
  let ?batch = "fst (recv_many UDP_WRITE_BATCH ch)"
  from assms(1) obtain outs where o: "str = concat (map udp_wire outs)" "list_all udp_ok outs" "subseq outs taken"
    by (auto simp: stream_ok_def)
  then have more: "subseq (outs @ ?batch) (taken @ ?batch)" by (intro list_emb_append_mono) simp_all
  show ?thesis
  proof (cases "list_all udp_ok ?batch")
    case True
    then have "write_udp_frames_buffered [] ?batch = Inr (concat (map udp_wire ?batch))"
      by (simp add: write_udp_frames_buffered_def append_frames_wire)
    with assms(2) obtain t where "out @ t = concat (map udp_wire ?batch)" "ok \<longrightarrow> t = []"
      unfolding turn_writes_def ev by (cases ok) (auto simp: prefix_def)
    with o(1,2) True more show ?thesis
      by (auto simp: stream_ok_def ev intro!: exI [of _ "outs @ ?batch"] exI [of _ t])
  next
    case False
    then have "write_udp_frames_buffered [] ?batch = Inl (io_err InvalidData)"
      by (simp add: write_udp_frames_buffered_def append_frames_wire)
    with assms(2) have "out = []" "\<not> ok" unfolding turn_writes_def ev by (cases ok; simp)+
    moreover have "subseq outs (taken @ ?batch)"
      using o(3) subseq_order.trans prefix_imp_subseq [of taken "taken @ ?batch"] by fastforce
    ultimately show ?thesis
      unfolding stream_ok_def using o(1,2) by (intro exI [of _ outs] exI [of _ "[]"]) (simp add: ev)
  qed
qed

lemma turn_inv:
  assumes i: "flow_inv own x" and s: "path_step x y"
    and conn: "(client, c) \<in> set (y_conns (pt_sys x))" "c \<notin> pt_over x"
    and out: "turn_writes ev (up_chans (y_proxy (pt_sys x)) c) out"
    and t: "conn_turn client c now ev (y_proxy (pt_sys x), y_metrics (pt_sys x)) = ((p, m), up, down, go)"
    and y: "pt_sys y = (if go then (pt_sys x)\<lparr>y_proxy := p, y_metrics := m\<rparr>
        else (pt_sys x)\<lparr>y_proxy := conn_end client c p, y_metrics := m,
               y_conns := remove1 (client, c) (y_conns (pt_sys x))\<rparr>)"
      "pt_stream y = (pt_stream x)(c := pt_stream x c @ out)" "pt_got y = pt_got x"
      "pt_over y = (if go then pt_over x else insert c (pt_over x))"
  shows "flow_inv own y"
proof (rule flow_invI)
  let ?p = "y_proxy (pt_sys x)" and ?q = "y_proxy (pt_sys y)"
  note d = flow_invD [OF i] and f = conn_turn_flow [OF t]
  show "udp_inv (pt_sys y)" using udp_step_keeps [OF path_step_is_udp_step [OF s] d(1)] .
  have own: "owners (pt_sys y) \<subseteq> owners (pt_sys x)"
    using f(1) conn_end_owners [of client c p] set_remove1_subset [of "(client, c)" "y_conns (pt_sys x)"]
    by (auto simp: owners_def y(1))
  have next': "up_next_chan ?q = up_next_chan ?p" using f(2) by (simp add: y(1) conn_end_def close_at_def)
  have cn: "c < up_next_chan ?p" using d(2) [of client c] conn(1) by (simp add: owners_def)
  let ?batch = "case ev of RxReady ok \<Rightarrow> fst (recv_many UDP_WRITE_BATCH (up_chans ?p c)) | _ \<Rightarrow> []"
  have received: "ch_received (up_chans ?q k) = ch_received (up_chans ?p k) @ (if k = c then ?batch else [])" for k
    using f(3)
    by (auto simp: y(1) conn_end_def close_at_def close_chan_def recv_many_def Let_def split: conn_event.splits)
  have "prefix (ch_history (up_chans p k)) (ch_history (up_chans ?p k))" for k
    using f(3) by (simp split: conn_event.splits)
  moreover have "prefix (ch_history (up_chans ?q k)) (ch_history (up_chans p k))" for k
    using closed_chan_prefix [of "up_chans p c"] by (simp add: y(1) conn_end_def close_at_def)
  ultimately have hist: "subseq (ch_history (up_chans ?q k)) (ch_history (up_chans ?p k))" for k
    using prefix_order.trans prefix_imp_subseq by blast
  fix a k
  show "(a, k) \<in> owners (pt_sys y) \<Longrightarrow> k < up_next_chan ?q \<and> own k = a"
    using own d(2,3) [of a k] next' by auto
  show "k < up_next_chan ?q \<Longrightarrow> subseq (ch_history (up_chans ?q k)) (sent_by (own k) (pt_got y))"
    using d(4) [of k] hist [of k] subseq_order.trans by (auto simp: next' y(3))
  show "up_next_chan ?q \<le> k \<Longrightarrow> pt_stream y k = []"
    using d(6) [of k] cn next' by (auto simp: y(2))
  show "stream_ok (pt_stream y k) (k \<in> pt_over y) (ch_received (up_chans ?q k))"
  proof (cases "k = c")
    case True
    have "stream_ok (pt_stream x c) False (ch_received (up_chans ?p c))" using d(5) [of c] conn(2) by simp
    from stream_grows [OF this out] have
      "stream_ok (pt_stream y c) (ev = RxReady False) (ch_received (up_chans ?q c))"
      by (simp add: y(2) received)
    moreover have "ev = RxReady False \<Longrightarrow> c \<in> pt_over y" using f(4) by (simp add: y(4))
    ultimately show ?thesis using True by (auto simp: stream_ok_def)
  next
    case False
    then show ?thesis using d(5) [of k] by (simp add: received y(2,4))
  qed
qed

lemma path_step_flow:
  assumes "path_step x y" "flow_inv own x"
  shows "\<exists>own'. flow_inv own' y \<and> (\<forall>c < up_next_chan (y_proxy (pt_sys x)). own' c = own c) \<and>
    up_next_chan (y_proxy (pt_sys x)) \<le> up_next_chan (y_proxy (pt_sys y))"
  using assms
proof (induction rule: path_step.induct)
  case (Receive x peer data now p m w r)
  have "up_next_chan (y_proxy (pt_sys x)) \<le> up_next_chan p"
    using handle_datagram_queued [OF _ Receive(2)] flow_invD(1) [OF Receive(3)]
    by (fastforce simp: udp_inv_def queued_def)
  with receive_inv [OF Receive(3,1,2)] show ?case by auto
next
  case (Tables x s)
  with table_step_inv [OF Tables(2,1)] table_step_flow [OF Tables(1)] show ?case by auto
next
  case (Turn client c x ev out buf inp now p m up down go)
  from turn_inv [OF Turn(6) path_step.Turn [OF Turn(1-5)] Turn(1-3,5)] conn_turn_flow(2) [OF Turn(5)]
  show ?case by (auto simp: conn_end_def close_at_def)
qed

lemma flow_run:
  assumes "path_step\<^sup>*\<^sup>* x y" "flow_inv own x"
  shows "\<exists>own'. flow_inv own' y \<and> (\<forall>c < up_next_chan (y_proxy (pt_sys x)). own' c = own c) \<and>
    up_next_chan (y_proxy (pt_sys x)) \<le> up_next_chan (y_proxy (pt_sys y))"
  using assms(1)
proof (induction rule: rtranclp_induct)
  case base
  with assms(2) show ?case by blast
next
  case (step y z)
  then obtain own' where o: "flow_inv own' y" "\<forall>c < up_next_chan (y_proxy (pt_sys x)). own' c = own c"
    "up_next_chan (y_proxy (pt_sys x)) \<le> up_next_chan (y_proxy (pt_sys y))" by blast
  from path_step_flow [OF step.hyps(2) o(1)] obtain own'' where "flow_inv own'' z"
    "\<forall>c < up_next_chan (y_proxy (pt_sys y)). own'' c = own' c"
    "up_next_chan (y_proxy (pt_sys y)) \<le> up_next_chan (y_proxy (pt_sys z))" by blast
  with o(2,3) show ?case by (intro exI [of _ own'']) auto
qed

lemma path_start_inv: "flow_inv own (path_start t m w inp)"
  using udp_start_inv [of t m w]
  by (auto simp: flow_inv_def path_start_def Let_def owners_def proxy_owners_def udp_start_def udp_proxy_new_def)

section \<open>The way back\<close>

definition user_at :: "nat \<Rightarrow> bytes list \<Rightarrow> udp_path \<Rightarrow> bool" where
  \<comment> \<open>of the datagrams the client writes on this stream\<close>
  "user_at c answers x \<longleftrightarrow>
     (\<exists>k. pt_user x c = take k answers \<and>
        (c \<in> pt_over x \<or>
         (\<exists>t. list_all udp_ok (drop k answers) \<and>
            pt_buf x c @ concat (map chunk_bytes (pt_in x c)) @ t = concat (map udp_wire (drop k answers)))))"

lemma user_turn:
  assumes "user_at c answers x" "c \<notin> pt_over x"
    and "turn_reads ev (pt_buf x c, pt_in x c) (buf, inp)"
    and "conn_turn client c now ev pm = (pm', up, down, go)"
  shows "\<exists>k. pt_user x c @ down = take k answers \<and>
    (\<not> go \<or> (\<exists>t. list_all udp_ok (drop k answers) \<and>
       buf @ concat (map chunk_bytes inp) @ t = concat (map udp_wire (drop k answers))))"
proof -
  obtain k t where k: "pt_user x c = take k answers" "list_all udp_ok (drop k answers)"
    "pt_buf x c @ concat (map chunk_bytes (pt_in x c)) @ t = concat (map udp_wire (drop k answers))"
    using assms(1,2) unfolding user_at_def by blast
  show ?thesis
  proof (cases "\<exists>r. ev = StreamReady r")
    case False
    with assms(3) have "buf = pt_buf x c" "inp = pt_in x c" by (cases ev; simp add: turn_reads_def)+
    moreover have "down = []"
      using False assms(4) by (cases ev) (auto simp: conn_turn_def Let_def case_prod_beta split: if_splits)
    ultimately show ?thesis using k by auto
  next
    case True
    then obtain r where ev: "ev = StreamReady r" by blast
    with assms(3) have r: "read_batch UDP_READ_BATCH (pt_buf x c) (pt_in x c) = (r, buf, inp)"
      by (simp add: turn_reads_def)
    show ?thesis
    proof (cases r)
      case (Inl e)
      with assms(4) ev k(1) show ?thesis by (auto simp: conn_turn_def case_prod_beta)
    next
      case (Inr ds)
      with read_batch_cut [OF k(2,3), of UDP_READ_BATCH] r obtain l where l: "ds = take l (drop k answers)"
        "buf @ concat (map chunk_bytes inp) @ t = concat (map udp_wire (drop l (drop k answers)))" by auto
      have down: "down = ds" using assms(4) by (auto simp: conn_turn_def ev Inr case_prod_beta split: if_splits)
      have "pt_user x c @ down = take (k + l) answers" by (simp add: k(1) down l(1) take_add)
      moreover have "list_all udp_ok (drop (k + l) answers)"
        using k(2) by (metis add.commute append_take_drop_id drop_drop list_all_append)
      ultimately show ?thesis using l(2) by (intro exI [of _ "k + l"]) (auto simp: add.commute)
    qed
  qed
qed

lemma path_step_user: "path_step x y \<Longrightarrow> user_at c answers x \<Longrightarrow> user_at c answers y"
proof (induction rule: path_step.induct)
  case (Turn client d x ev out buf inp now p m up down go)
  show ?case
  proof (cases "d = c")
    case True
    with user_turn [of c answers x] Turn(2,4-6) show ?thesis by (fastforce simp: user_at_def)
  next
    case False
    with Turn(6) show ?thesis by (simp add: user_at_def)
  qed
qed (simp_all add: user_at_def)

lemma user_at_run: "path_step\<^sup>*\<^sup>* x y \<Longrightarrow> user_at c answers x \<Longrightarrow> user_at c answers y"
  by (induction rule: rtranclp_induct) (auto intro: path_step_user)

section \<open>Properties\<close>


definition demo_pending :: pending_udp where
  "demo_pending = \<lparr>pu_client = demo_peer, pu_chan = 0, pu_created = 5\<rparr>"

lemma demo_udp_facts:
  "up_pending_by_id (y_proxy demo_udp) = [(1, demo_pending)]" "ch_queue (up_chans (y_proxy demo_udp) 0) = [[1, 2]]"
  "y_removing demo_udp = []" "y_conns demo_udp = []"
  by (simp_all add: demo_udp_def udp_start_def handle_datagram_def new_pending_def udp_proxy_new_def demo_pending_def
      MAX_PENDING_UDP_SESSIONS_def chan_new_def try_send_def UDP_SESSION_QUEUE_DEPTH_def hm_insert_def Let_def case_prod_beta)

lemma demo_path_conn:
  "\<exists>x. path_step\<^sup>*\<^sup>* (path_start 300 (metrics_new 0) 0 inp) x \<and> y_conns (pt_sys x) = [(demo_peer, 0)] \<and>
     pt_got x = [(demo_peer, [1, 2])] \<and> pt_stream x 0 = [] \<and> pt_over x = {} \<and>
     ch_queue (up_chans (y_proxy (pt_sys x)) 0) = [[1, 2]]"
proof -
  let ?x0 = "path_start 300 (metrics_new 0) 0 inp"
  let ?s0 = "udp_start 300 (metrics_new 0) 0"
  obtain p m w r where h: "handle_datagram demo_peer [1, 2] 5 (y_proxy ?s0, y_metrics ?s0, y_work_id ?s0) = ((p, m, w), r)"
    by (metis surj_pair)
  let ?x1 = "?x0\<lparr>pt_sys := demo_udp, pt_got := [(demo_peer, [1, 2])]\<rparr>"
  have "demo_udp = ?s0\<lparr>y_proxy := p, y_metrics := m, y_work_id := w\<rparr>" using h by (simp add: demo_udp_def Let_def)
  then have "path_step ?x0 ?x1"
    using Receive [of ?x0 demo_peer "[1, 2]" 5 p m w r] h by (simp add: path_start_def udp_start_def)
  moreover obtain p2 where t: "take_by_id 1 (y_proxy demo_udp) = (Some demo_pending, p2)"
    by (simp add: take_by_id_def demo_udp_facts hm_get_def)
  let ?s2 = "demo_udp\<lparr>y_proxy := p2, y_removing := (1, demo_pending) # y_removing demo_udp\<rparr>"
  have "udp_table_step demo_udp ?s2" by (rule Take [OF t])
  then have "path_step ?x1 (?x1\<lparr>pt_sys := ?s2\<rparr>)" by (intro path_step.Tables) simp
  moreover obtain s3 where "udp_table_step ?s2 s3" "y_conns s3 = [(demo_peer, 0)]"
      "ch_queue (up_chans (y_proxy s3) 0) = [[1, 2]]"
  proof -
    have "up_chans p2 0 = up_chans (y_proxy demo_udp) 0" using t by (auto simp: take_by_id_def)
    with that [OF Pair [of 1 demo_pending ?s2 6]] show thesis
      by (auto simp: demo_udp_facts register_session_def forget_client_def demo_pending_def split: if_splits)
  qed
  moreover from this(1) have "path_step (?x1\<lparr>pt_sys := ?s2\<rparr>) (?x1\<lparr>pt_sys := s3\<rparr>)"
    using path_step.Tables [of "?x1\<lparr>pt_sys := ?s2\<rparr>" s3] by simp
  ultimately have "path_step\<^sup>*\<^sup>* ?x0 (?x1\<lparr>pt_sys := s3\<rparr>)" "y_conns s3 = [(demo_peer, 0)]"
      "ch_queue (up_chans (y_proxy s3) 0) = [[1, 2]]"
    by (meson converse_rtranclp_into_rtranclp rtranclp.rtrancl_refl)+
  then show ?thesis by (intro exI [of _ "?x1\<lparr>pt_sys := s3\<rparr>"]) (simp add: path_start_def)
qed


end
