(* ===== verification/Registration.thy ===== *)
theory Registration
  imports Control ClientReg
begin

text \<open>
  A registration on both sides: what the client concludes from the answer
  (\<open>register_one_proxy\<close> of \<open>rfrpc/src/client.rs\<close>) against what the server did with the request
  (\<open>handle_new_proxy\<close> of \<open>rfrps/src/control.rs\<close>, \<open>register_proxy\<close> of \<open>rfrps/src/listener.rs\<close>).
\<close>

section \<open>The server's answer\<close>

definition server_answers ::
  "(string \<Rightarrow> string) \<Rightarrow> server_config \<Rightarrow> nat \<Rightarrow> new_proxy \<Rightarrow> new_proxy_resp \<Rightarrow> bool" where
  \<comment> \<open>in some state the server queues this answer to the request\<close>
  "server_answers lower config a np x \<longleftrightarrow>
     (\<exists>env st st'. handle_new_proxy lower config env np a st = (True, st') \<and>
        ch_history (se_tx (st_heap st' a)) = ch_history (se_tx (st_heap st a)) @ [NewProxyResp x])"

definition served_as ::
  "(string \<Rightarrow> string) \<Rightarrow> server_config \<Rightarrow> nat \<Rightarrow> client_proxy \<Rightarrow> bool" where
  \<comment> \<open>the server registered the proxy for this session as the client's configuration has it\<close>
  "served_as lower config a p \<longleftrightarrow>
     (\<exists>bind st st' h. register_proxy lower (new_proxy_from_config p) a config bind st = Inr st' \<and>
        hm_get (se_proxies (st_heap st' a)) (cp_name p) =
          Some \<lparr>pe_handle = h, pe_kind = cp_type p, pe_remote_port = cp_remote_port p,
                pe_custom_domains = domains_of lower (new_proxy_from_config p)\<rparr> \<and>
        hm_get (st_proxy_index st') (cp_name p) = Some (se_run_id (st_heap st' a)))"

definition refused_with ::
  "(string \<Rightarrow> string) \<Rightarrow> server_config \<Rightarrow> nat \<Rightarrow> client_proxy \<Rightarrow> proxy_error \<Rightarrow> bool" where
  "refused_with lower config a p e \<longleftrightarrow>
     new_proxy_invalid (new_proxy_from_config p) = Some (as_str e) \<or>
     (\<exists>bind st. register_proxy lower (new_proxy_from_config p) a config bind st = Inl e)"

lemma register_proxy_heap:
  assumes "register_proxy lower np a config bind st = Inr st'"
  shows "(\<exists>h. hm_get (se_proxies (st_heap st' a)) (np_proxy_name np) = Some (entry_of np (domains_of lower np) h)) \<and>
    hm_get (st_proxy_index st') (np_proxy_name np) = Some (se_run_id (st_heap st' a)) \<and>
    se_tx (st_heap st' a) = se_tx (st_heap st a)"
proof -
  from assms obtain h st1 where c: "register_check lower np a st = Inr (domains_of lower np)"
    and o: "register_open np a config bind st = Inr (h, st1)"
    and e: "st' = register_commit np a (domains_of lower np) h st1"
    by (auto simp: register_proxy_def rbind_Inr_iff register_check_ok)
  from register_open_ok [OF o] have "st_heap st1 = st_heap st" by auto
  then show ?thesis by (auto simp: e register_commit_eq committed_def)
qed

lemma send_to_history:
  assumes "send_to a (send_with_timeout n msg) st = (True, st')"
  shows "ch_history (se_tx (st_heap st' a)) = ch_history (se_tx (st_heap st a)) @ [msg]"
proof -
  have "fst (send_with_timeout n msg (se_tx (st_heap st a)))"
    "st' = snd (send_to a (send_with_timeout n msg) st)" using assms by (auto simp: send_to_def case_prod_beta)
  then show ?thesis by (simp add: send_to_eq upd_session_def send_with_timeout_history)
qed

lemma server_answer_cases:
  assumes "server_answers lower config a (new_proxy_from_config p) x"
  shows "(nr_ok x \<longrightarrow> served_as lower config a p) \<and>
    (\<not> nr_ok x \<longrightarrow> (\<exists>e. nr_error x = Some (as_str e) \<and> refused_with lower config a p e))"
proof -
  let ?np = "new_proxy_from_config p"
  have np: "np_proxy_name ?np = cp_name p" by (simp add: new_proxy_from_config_def)
  obtain env st st' where h: "handle_new_proxy lower config env ?np a st = (True, st')"
    and q: "ch_history (se_tx (st_heap st' a)) = ch_history (se_tx (st_heap st a)) @ [NewProxyResp x]"
    using assms by (auto simp: server_answers_def)
  have sent: "NewProxyResp x = new_proxy_resp (cp_name p) err"
    if "send_to a (send_with_timeout (te_taken env) (new_proxy_resp (cp_name p) err)) st1 = (True, st')"
      "se_tx (st_heap st1 a) = se_tx (st_heap st a)" for err st1
    using send_to_history [OF that(1)] q that(2) by simp
  show ?thesis
  proof (cases "new_proxy_invalid ?np")
    case (Some err)
    then have "err = as_str InvalidField" by (auto simp: new_proxy_invalid_def split: if_splits option.splits)
    with sent [of "Some err" st] h Some np show ?thesis
      by (auto simp: handle_new_proxy_def new_proxy_resp_def refused_with_def intro!: exI [of _ InvalidField])
  next
    case None
    show ?thesis
    proof (cases "register_proxy lower ?np a config (te_bind env) st")
      case (Inl e)
      with sent [of "Some (as_str e)" st] h None np show ?thesis
        by (auto simp: handle_new_proxy_def new_proxy_resp_def refused_with_def simp del: as_str.simps)
    next
      case (Inr st1)
      from register_proxy_heap [OF Inr] np have "served_as lower config a p"
        unfolding served_as_def using Inr by (fastforce simp: entry_of_def new_proxy_from_config_def)
      moreover from sent [of None st1] h None Inr np register_proxy_heap [OF Inr] have "nr_ok x"
        by (simp add: handle_new_proxy_def new_proxy_resp_def)
      ultimately show ?thesis by simp
    qed
  qed
qed

section \<open>Properties\<close>


lemma demo_request: "new_proxy_from_config demo_proxy = demo_np"
  by (simp add: new_proxy_from_config_def demo_proxy_def demo_np_def)

lemma demo_told:
  assumes "told demo_ctx demo_script x"
  shows "x = \<lparr>nr_proxy_name = ''ssh'', nr_ok = True, nr_error = None\<rparr>"
  using assms by (auto simp: told_def demo_ctx_def demo_script_def from_frame_def frame_new_def msg_type_defs)

lemma demo_answered:
  "server_answers to_ascii_lowercase Listener.demo_config 0 demo_np
     \<lparr>nr_proxy_name = ''ssh'', nr_ok = True, nr_error = None\<rparr>"
proof -
  let ?env = "\<lparr>te_taken = 0, te_bind = Inr (), te_now_ms = 0\<rparr>" and ?st = "server_state_new 0"
  obtain b st' where h: "handle_new_proxy to_ascii_lowercase Listener.demo_config ?env demo_np 0 ?st = (b, st')"
    by fastforce
  have "new_proxy_invalid demo_np = None"
    using has_whitespace_no_ws [of "''ssh''"]
    by (simp add: new_proxy_invalid_def demo_np_def MAX_PROXY_NAME_LEN_def has_prefix_def no_ws_char)
  with h have e: "send_to 0 (send_with_timeout 0 (new_proxy_resp ''ssh'' None)) demo_registered = (b, st')"
    by (simp add: handle_new_proxy_def demo_registers) (simp add: demo_np_def)
  moreover have q: "se_tx (st_heap demo_registered 0) = se_tx (st_heap ?st 0)"
    using register_proxy_heap [OF demo_registers] by simp
  moreover have "b"
    using e q by (auto simp: send_to_def send_with_timeout_def try_send_def server_state_new_def session_new_def
        chan_new_def CONTROL_QUEUE_DEPTH_def Let_def)
  ultimately have "ch_history (se_tx (st_heap st' 0)) = ch_history (se_tx (st_heap ?st 0)) @ [new_proxy_resp ''ssh'' None]"
    using send_to_history by fastforce
  with h \<open>b\<close> show ?thesis unfolding server_answers_def by (auto simp: new_proxy_resp_def)
qed


end
