(* ===== verification/Spec2Isabelle.thy ===== *)
theory Spec2Isabelle
  imports Prelude Strings Constants Errors Framing Frame Auth Msg UdpFrame Addr Accept RateLimit Counting Http Stream SockAddr Config Config_Server Config_Client Channel Metrics UdpProxy ServerState Listener Control Work Vhost Crypto Server
    Exposition MetricsRender ClientMetrics ClientState WorkConn ClientControl ClientReg Platform Client EndToEnd
    WebText Base64 Dashboard StatusEndpoint ControlWriter Heartbeat Loops Signals Command System Composition
    Link UdpPath Registration
begin

text \<open>
  \<^bold>\<open>rfrp: a reverse proxy in Rust, modelled and verified.\<close>

  A client (crate \<open>rfrpc\<close>) behind a firewall keeps one control connection to a public server (crate
  \<open>rfrps\<close>), registers proxies on it, and opens a work connection for every user the server has for
  one of them. The crate \<open>rfrp-common\<close> holds what both sides share; \<open>rfrp-bin\<close> is the command line.
  Source files are named relative to \<open>src/crates\<close>.

  \<^bold>\<open>How the parts interact.\<close> A control connection starts with a \<open>Login\<close> frame; the server checks
  it, replaces an older session of the same client, and runs the message loop of the session, which
  registers proxies and opens their listeners. A user connection that reaches a listener, or a virtual
  host, is dispatched: it takes a pooled work connection, or waits under a fresh id while the server
  asks the client for one. The client answers with a connection that starts with \<open>StartWorkConn\<close>; the
  server checks its token and owner and bridges the two. UDP proxies carry framed datagrams over such
  connections. Heartbeats in both directions end a silent control connection; the client then
  reconnects.

  \<^bold>\<open>Theories and sources.\<close>

  \<^item> \<open>Prelude\<close>, \<open>Strings\<close>, \<open>Framing\<close>, \<open>SockAddr\<close>: vocabulary. Results as sums, hash maps as association
    lists with the contract \<open>key_value\<close>, the locale \<open>step_invariant\<close>, and the parts of the standard
    library the sources call (\<open>str\<close>, number and address parsing).
  \<^item> \<open>Constants\<close>, \<open>Errors\<close>, \<open>Auth\<close>, \<open>Accept\<close>, \<open>RateLimit\<close>, \<open>Counting\<close>, \<open>Stream\<close>, \<open>Channel\<close>, \<open>Addr\<close>,
    \<open>Http\<close>, \<open>Platform\<close>, \<open>Crypto\<close>: the files of \<open>rfrp-common/src\<close> of the same or a similar name.
  \<^item> \<open>Frame\<close>, \<open>Msg\<close>, \<open>UdpFrame\<close>: the wire formats (\<open>protocol/frame.rs\<close>, \<open>protocol/msg.rs\<close>, \<open>util/udp.rs\<close>).
  \<^item> \<open>Config\<close>, \<open>Config_Server\<close>, \<open>Config_Client\<close>: \<open>rfrp-common/src/config\<close>.
  \<^item> \<open>Metrics\<close>, \<open>Exposition\<close>, \<open>MetricsRender\<close>, \<open>ServerState\<close>, \<open>UdpProxy\<close>, \<open>Listener\<close>, \<open>Control\<close>, \<open>Work\<close>,
    \<open>Vhost\<close>, \<open>Server\<close>: the files of \<open>rfrps/src\<close>. The state is the record \<open>server_state\<close>; what the
    source shares by \<open>Arc\<close> lives in heaps inside it and is known by its address.
  \<^item> \<open>ClientMetrics\<close>, \<open>ClientState\<close>, \<open>WorkConn\<close>, \<open>ClientControl\<close>, \<open>ClientReg\<close>, \<open>Client\<close>: the files of
    \<open>rfrpc/src\<close>, over the record \<open>client_state\<close>.
  \<^item> \<open>WebText\<close>, \<open>Base64\<close>, \<open>Dashboard\<close>, \<open>StatusEndpoint\<close>: the two HTTP endpoints (\<open>rfrps/src/dashboard.rs\<close>,
    \<open>rfrpc/src/status.rs\<close>).
  \<^item> \<open>ControlWriter\<close>, \<open>Heartbeat\<close>: the tasks that write a control connection and watch over it
    (\<open>rfrps/src/control.rs\<close>, \<open>rfrpc/src/control.rs\<close>); \<open>Loops\<close>: the accept and receive loops of proxies,
    virtual hosts and UDP proxies, and the background tasks of \<open>Server::run\<close>.
  \<^item> \<open>Command\<close>, \<open>Signals\<close>: the command line (\<open>rfrp-bin/src\<close>, the two \<open>cli.rs\<close>), \<open>util/signal.rs\<close> and
    \<open>util/bridge.rs\<close>.
  \<^item> \<open>System\<close>: all tasks of the server as one transition system over the shared state, and the
    switchboard it refines. \<open>Composition\<close>: the loops and writers as runs of that system.
  \<^item> Both sides together: \<open>EndToEnd\<close> (logins, the path of a user connection), \<open>Link\<close> (a control
    connection from the queue of one side to the message loop of the other, and the abstract queue it
    refines), \<open>UdpPath\<close> (a datagram from the user to the local service and back), \<open>Registration\<close> (what
    the client concludes against what the server did).

  \<^bold>\<open>What the lemmas show.\<close>

  \<^item> Round trips: frames, messages, datagram batches, metrics labels, the login form and its cookie,
    what a control writer puts on the stream under any write error, the status endpoint and the command
    that queries it.
  \<^item> End to end: a user connection and a datagram reach the local service of the right client, a
    control connection is a queue, and both sides agree on a login and on a registration.
  \<^item> Equivalence of the configuration checks with declarative contracts, and of the two frame readers.
  \<^item> Functional behaviour with every error: registration, dispatch, sweeps, the server command from its
    arguments to the running server, port lists, outcome of a registration on the client.
  \<^item> Safety: which logins and work connections are accepted, what a cleanup removes, which user gets
    which work connection, what the dashboard tells a stranger, when the client gives up for good.
  \<^item> Invariants under any interleaving: the pending UDP tables, the traffic counters, the shared state
    of the server; and its refinement of the switchboard, which neither loses nor duplicates a user.
  \<^item> Time: bounds of the rate limiter, of reconnect and retry delays, of the graceful drain; watchdogs
    of both sides; a user nobody serves is closed in time.

  \<^bold>\<open>Modelling conventions.\<close> A task is a function of the state, with the clock, random values and what
  the network delivers as arguments; a script of events is a list, and a script that ends is a peer
  that stays silent. Machine integers are words of their width. Code outside the repository is a
  parameter: \<open>serde_json\<close> (hypothesis: what it prints it parses back), \<open>httparse\<close>, \<open>base64\<close> (the locale
  \<open>base64_codec\<close>, which RFC 4648 satisfies), \<open>rustls\<close>, TOML, DNS, the file system, \<open>str::to_lowercase\<close>.
  Recursion is structural or with a proved measure; there is no fuel except the length of a script. A
  step of \<open>System\<close> is what a task does between two awaits; work ids are taken only while the 64-bit
  counter has not wrapped.

  \<^bold>\<open>Not modelled.\<close> Log lines other than the startup summaries; sockets and TLS beyond the order of
  the calls and their failures; the copying inside a bridge (\<open>copy_bidirectional\<close> of tokio); how a
  signal is delivered; the embedded page of the dashboard; the parsing of arguments by \<open>clap\<close> and the
  build script; the hint texts of refused registrations, which are only logged.
\<close>

end
